(* ===== verification/Prelude.thy ===== *)
theory Prelude
  imports "HOL-Library.Word" "HOL-Library.Monad_Syntax"
begin

unbundle bit_operations_syntax

text \<open>
  Shared vocabulary of the development. A C \<open>BYTE\<close> or \<open>char\<close> is an 8-bit word; comparisons the
  source makes on a plain \<open>char\<close> are the signed ones (\<open><=s\<close>), since \<open>char\<close> is signed for the
  compiler the project files name. A buffer is a list of bytes; a C string is read out of a buffer
  by \<open>cstr\<close>, which stops at the first NUL (a buffer without one ends where the list ends). An
  access outside a buffer, and any other undefined behaviour the model has to talk about, is the
  value \<open>None\<close>. The last part holds the lemmas on lists, words and decimal digits that the
  component theories share.
\<close>

type_synonym byte = "8 word"
type_synonym bytes = "byte list"

named_theorems buf_simps "length and indexing facts of the modelled buffers"
named_theorems hex_simps "facts about hexadecimal digits and nibbles"

section \<open>C strings and buffers\<close>

definition cstr :: "bytes \<Rightarrow> bytes" where
  "cstr b = takeWhile (\<lambda>c. c \<noteq> 0) b"

definition strlen :: "bytes \<Rightarrow> nat" where
  "strlen b = length (cstr b)"

definition no_nul :: "bytes \<Rightarrow> bool" where
  "no_nul b \<longleftrightarrow> list_all (\<lambda>c. c \<noteq> 0) b"

definition peek :: "nat \<Rightarrow> bytes \<Rightarrow> byte option" where
  "peek i b = (if i < length b then Some (b ! i) else None)"

definition copy_at :: "nat \<Rightarrow> nat \<Rightarrow> 'a list \<Rightarrow> 'a list option" where
  "copy_at off n b = (if off + n \<le> length b then Some (take n (drop off b)) else None)"

definition poke :: "nat \<Rightarrow> 'a list \<Rightarrow> 'a list \<Rightarrow> 'a list option" where
  "poke off src b = (if off + length src \<le> length b
     then Some (take off b @ src @ drop (off + length src) b) else None)"

lemma cstr_id [buf_simps]: "no_nul b \<Longrightarrow> cstr b = b"
  by (auto simp: cstr_def no_nul_def list_all_iff takeWhile_eq_all_conv)

lemma cstr_term [buf_simps]: "no_nul b \<Longrightarrow> cstr (b @ 0 # r) = b"
  by (auto simp: cstr_def no_nul_def list_all_iff takeWhile_append2)

lemma no_nul_cstr [simp]: "no_nul (cstr b)"
  by (auto simp: cstr_def no_nul_def list_all_iff dest: set_takeWhileD)

lemma cstr_cstr [simp]: "cstr (cstr b) = cstr b"
  by (rule cstr_id) simp

lemma no_nul_Nil [simp]: "no_nul []" by (simp add: no_nul_def)
lemma no_nul_Cons [simp]: "no_nul (c # b) \<longleftrightarrow> c \<noteq> 0 \<and> no_nul b" by (simp add: no_nul_def)
lemma no_nul_append [simp]: "no_nul (a @ b) \<longleftrightarrow> no_nul a \<and> no_nul b" by (simp add: no_nul_def)
lemma no_nul_rev [simp]: "no_nul (rev a) \<longleftrightarrow> no_nul a" by (simp add: no_nul_def list_all_iff)
lemma no_nul_replicate [simp]: "no_nul (replicate n c) \<longleftrightarrow> n = 0 \<or> c \<noteq> 0"
  by (induction n) auto

lemma strlen_id [buf_simps]: "no_nul b \<Longrightarrow> strlen b = length b"
  by (simp add: strlen_def cstr_id)

lemma peek_Some [simp]: "peek i b = Some c \<longleftrightarrow> i < length b \<and> b ! i = c"
  by (auto simp: peek_def)

lemma copy_at_Some [buf_simps]: "copy_at off n b = Some s \<longleftrightarrow> off + n \<le> length b \<and> s = take n (drop off b)"
  by (auto simp: copy_at_def)

lemma copy_at_all [simp]: "n = length b \<Longrightarrow> copy_at 0 n b = Some b"
  by (simp add: copy_at_def)

lemma copy_at_app [buf_simps]:
  "off = length a \<Longrightarrow> n = length b \<Longrightarrow> copy_at off n (a @ b @ c) = Some b"
  by (simp add: copy_at_def)

lemma poke_length [buf_simps]: "poke off s b = Some b' \<Longrightarrow> length b' = length b"
  by (auto simp: poke_def split: if_splits)

section \<open>Words\<close>

lemma div_mod_8: "\<exists>q r. n = 8 * q + r \<and> r < 8 \<and> n div 8 = q \<and> n mod 8 = r" for n :: nat
  using mult_div_mod_eq [of 8 n] mod_less_divisor [of 8 n] by auto

text \<open>A property of a byte is decided by its 256 values.\<close>

lemma all_bytesI:
  fixes P :: "byte \<Rightarrow> bool"
  assumes "list_all (\<lambda>n. P (word_of_nat n)) [0..<256]"
  shows "P b"
proof -
  have "unat b < 256" using unsigned_less [of b] by simp
  with assms have "P (word_of_nat (unat b))" unfolding list_all_iff by (metis atLeastLessThan_iff set_upt zero_le)
  then show ?thesis by simp
qed

lemma uint_byte_bounds: "0 \<le> uint (c :: byte) \<and> uint c < 256"
  using unsigned_less [of c, where 'a = int] by simp

text \<open>The value of a signed \<open>char\<close>.\<close>

lemma sint_byte: "sint (c :: byte) = (if uint c < 128 then uint c else uint c - 256)"
proof -
  have A: "(u + 128) mod 256 - 128 = (if u < 128 then u else u - 256)"
    if "0 \<le> u" "u < 256" for u :: int
  proof (cases "u < 128")
    case True
    with that show ?thesis by simp
  next
    case False
    then have "(u + 128) mod 256 = (u - 128) mod 256"
      using mod_add_self2 [of "u - 128" "256 :: int"] by (simp add: add.commute)
    with that False show ?thesis by simp
  qed
  have "sint c = (uint c + 128) mod 256 - 128"
    by (simp add: sint_uint signed_take_bit_eq_take_bit_shift take_bit_eq_mod)
  then show ?thesis using A uint_byte_bounds [of c] by simp
qed

lemma byte_xor_xor [simp]: "(a :: 'a::len word) XOR b XOR b = a"
  by (simp add: xor.assoc)

lemma unat_byte_less [simp]: "unat (b :: byte) < 256"
  using unsigned_less [of b] by simp

section \<open>Decimal digits\<close>

fun dec_digits :: "nat \<Rightarrow> bytes" where
  "dec_digits n = (if n < 10 then [0x30 + word_of_nat n]
                   else dec_digits (n div 10) @ [0x30 + word_of_nat (n mod 10)])"

declare dec_digits.simps [simp del]

definition pad0 :: "nat \<Rightarrow> bytes \<Rightarrow> bytes" where
  "pad0 w s = replicate (w - length s) 0x30 @ s"

definition is_digit :: "byte \<Rightarrow> bool" where
  "is_digit c \<longleftrightarrow> 0x30 <=s c \<and> c <=s 0x39"

definition digits_val :: "bytes \<Rightarrow> nat" where
  "digits_val s = foldl (\<lambda>a c. 10 * a + unat (c - 0x30)) 0 s"

definition c_isspace :: "byte \<Rightarrow> bool" where
  "c_isspace c \<longleftrightarrow> c = 0x20 \<or> (9 <=s c \<and> c <=s 13)"

text \<open>\<open>atoi\<close> and \<open>atol\<close>: white space, an optional sign, the longest run of digits. The value is the
  mathematical one; a caller keeps the low 32 bits of it, as the C library of the platform does.\<close>

definition atol :: "bytes \<Rightarrow> int" where
  "atol s = (let t = dropWhile c_isspace (cstr s) in
     case t of [] \<Rightarrow> 0
     | c # r \<Rightarrow> if c = 0x2D then - int (digits_val (takeWhile is_digit r))
               else if c = 0x2B then int (digits_val (takeWhile is_digit r))
               else int (digits_val (takeWhile is_digit t)))"

text \<open>\<open>printf\<close> with \<open>%0wd\<close>: a minus sign counts towards the width.\<close>

definition fmt0 :: "nat \<Rightarrow> int \<Rightarrow> bytes" where
  "fmt0 w z = (if z < 0 then 0x2D # pad0 (w - 1) (dec_digits (nat (- z))) else pad0 w (dec_digits (nat z)))"

lemma digit_byte: "d < 10 \<Longrightarrow> is_digit (0x30 + word_of_nat d) \<and> unat ((0x30 + word_of_nat d :: byte) - 0x30) = d
    \<and> (0x30 + word_of_nat d :: byte) \<noteq> 0"
proof -
  assume "d < 10"
  then have "d \<in> set [0..<10]" by simp
  moreover have "\<forall>d \<in> set [0..<10]. is_digit (0x30 + word_of_nat d)
      \<and> unat ((0x30 + word_of_nat d :: byte) - 0x30) = d \<and> (0x30 + word_of_nat d :: byte) \<noteq> 0"
    by (simp add: is_digit_def upt_rec word_sle_eq)
  ultimately show ?thesis by blast
qed

lemma digits_val_append_one [simp]: "digits_val (s @ [c]) = 10 * digits_val s + unat (c - 0x30)"
  by (simp add: digits_val_def)

lemma digits_val_Nil [simp]: "digits_val [] = 0" by (simp add: digits_val_def)

lemma dec_digits_val [simp]: "digits_val (dec_digits n) = n"
proof (induction n rule: dec_digits.induct)
  case (1 n)
  show ?case
  proof (cases "n < 10")
    case True
    then show ?thesis using digit_byte [of n] by (simp add: dec_digits.simps digits_val_def)
  next
    case False
    with 1 have "digits_val (dec_digits (n div 10)) = n div 10" by simp
    moreover have "unat ((0x30 + word_of_nat (n mod 10) :: byte) - 0x30) = n mod 10"
      using digit_byte [of "n mod 10"] by simp
    ultimately show ?thesis using False by (subst dec_digits.simps) simp
  qed
qed

lemma dec_digits_all: "list_all is_digit (dec_digits n) \<and> no_nul (dec_digits n) \<and> dec_digits n \<noteq> []"
proof (induction n rule: dec_digits.induct)
  case (1 n)
  then show ?case
    using digit_byte [of n] digit_byte [of "n mod 10"]
    by (cases "n < 10") (simp_all add: dec_digits.simps [of n])
qed

lemma digits_val_pad: "digits_val (replicate k 0x30 @ s) = digits_val s"
  by (induction k) (simp_all add: digits_val_def)

lemma digits_val_pad0 [simp]: "digits_val (pad0 w s) = digits_val s"
  by (simp add: pad0_def digits_val_pad)

lemma pad0_length [simp]: "length (pad0 w s) = max w (length s)"
  by (simp add: pad0_def)

lemma pad0_digits [simp]: "list_all is_digit (pad0 w s) \<longleftrightarrow> list_all is_digit s"
  by (auto simp: pad0_def list_all_iff is_digit_def word_sle_eq)

lemma pad0_no_nul [simp]: "no_nul (pad0 w s) \<longleftrightarrow> no_nul s"
  by (auto simp: pad0_def)

lemma is_digit_uint [hex_simps]: "is_digit c \<longleftrightarrow> 48 \<le> uint c \<and> uint c \<le> 57"
  using uint_byte_bounds [of c] by (auto simp: is_digit_def word_sle_eq sint_byte)

lemma is_digit_facts: "is_digit c \<Longrightarrow> c \<noteq> 0 \<and> \<not> c_isspace c \<and> c \<noteq> 0x2D \<and> c \<noteq> 0x2B"
  by (auto simp: is_digit_uint c_isspace_def word_sle_eq sint_byte)

lemma digits_no_nul: "list_all is_digit s \<Longrightarrow> no_nul s"
  by (auto simp: no_nul_def list_all_iff dest: is_digit_facts)

lemma atol_digits:
  assumes "list_all is_digit s"
  shows "atol s = int (digits_val s)"
proof (cases s)
  case Nil
  then show ?thesis by (simp add: atol_def cstr_def)
next
  case (Cons c r)
  with assms have c: "is_digit c" by simp
  have "takeWhile is_digit s = s" using assms by (simp add: takeWhile_eq_all_conv list_all_iff)
  then show ?thesis using Cons is_digit_facts [OF c] digits_no_nul [OF assms]
    by (simp add: atol_def cstr_id)
qed

lemma atol_dec [simp]: "atol (pad0 w (dec_digits n)) = int n"
  by (simp add: atol_digits dec_digits_all)

lemma dec_digits_length: "n < 10 ^ k \<Longrightarrow> 0 < k \<Longrightarrow> length (dec_digits n) \<le> k"
proof (induction n arbitrary: k rule: dec_digits.induct)
  case (1 n)
  show ?case
  proof (cases "n < 10")
    case True
    with 1 show ?thesis by (simp add: dec_digits.simps)
  next
    case False
    with 1(2) have k: "1 < k" by (cases k; cases "k = 1") auto
    then obtain j where j: "k = Suc j" "0 < j" by (cases k) auto
    with 1(2) have "n div 10 < 10 ^ j" by (simp add: less_mult_imp_div_less mult.commute)
    with 1(1) [OF False] j have "length (dec_digits (n div 10)) \<le> j" by simp
    with False j show ?thesis by (simp add: dec_digits.simps [of n])
  qed
qed

end
