(* ===== verification/Tools.thy ===== *)
theory Tools
  imports Prelude
begin

text \<open>
  The conversion routines of \<open>src/CTSI/Tools.cpp\<close> (class \<open>CTools\<close>): hexadecimal and BCD
  conversions, the CRC the bus protocol uses, amounts as text, in capital-letter Chinese and as
  four bytes, string helpers (padding, trimming, searching, replacing) and the date checks.
  An output buffer is returned as the bytes the routine writes; the NUL a routine appends is part
  of them where a caller can see it.
\<close>

unbundle bit_operations_syntax

section \<open>Hexadecimal text and bytes\<close>

text \<open>The digit conversion inside the loops of \<open>hex_to_byte\<close> and \<open>tobyte\<close>: signed comparisons on a
  \<open>char\<close>, and 0 for every character that is not a hexadecimal digit.\<close>

definition hex_digit :: "byte \<Rightarrow> byte" where
  "hex_digit ch =
    (if 0x30 <=s ch \<and> ch <=s 0x39 then ch - 0x30
     else if 0x61 <=s ch \<and> ch <=s 0x66 then ch - 0x61 + 10
     else if 0x41 <=s ch \<and> ch <=s 0x46 then ch - 0x41 + 10
     else 0)"

text \<open>The loop, two iterations at a time: the even index stores \<open>ch << 4\<close>, the odd one adds \<open>ch\<close> and
  moves on. A last unpaired character is stored and then overwritten by the NUL.\<close>

fun hex_pairs :: "bytes \<Rightarrow> bytes" where
  "hex_pairs (hi # lo # r) = (push_bit 4 (hex_digit hi) + hex_digit lo) # hex_pairs r"
| "hex_pairs _ = []"

text \<open>\<open>hex_to_byte\<close> copies into \<open>tmp[4096]\<close> (\<open>None\<close> when \<open>inLen\<close> is larger than the input or \<open>tmp\<close>),
  pads an odd length with a zero character in front (\<open>type\<close> 0) or behind, and returns the bytes
  written, the final NUL included, and their number.\<close>

definition hex_to_byte :: "bytes \<Rightarrow> nat \<Rightarrow> int \<Rightarrow> (bytes \<times> nat) option" where
  "hex_to_byte instr inLen type = do {
     s \<leftarrow> copy_at 0 inLen instr;
     let tmp = (if odd inLen then (if type \<noteq> 0 then s @ [0x30] else 0x30 # s) else s);
     if length tmp > 4096 then None
     else Some (hex_pairs tmp @ [0], length (hex_pairs tmp))
   }"

definition tobyte :: "bytes \<Rightarrow> bytes \<times> nat" where
  "tobyte instr = (let s = cstr instr in (hex_pairs s @ [0], length (hex_pairs s)))"

definition nibble_hex :: "byte \<Rightarrow> byte" where
  "nibble_hex ch = (if ch > 9 then ch + 0x41 - 10 else ch + 0x30)"

fun hex_chars :: "bytes \<Rightarrow> bytes" where
  "hex_chars [] = []"
| "hex_chars (b # r) =
     nibble_hex (drop_bit 4 b AND 0x0F) # nibble_hex (b AND 0x0F) # hex_chars r"

definition byte_to_hex :: "bytes \<Rightarrow> nat \<Rightarrow> bytes option" where
  "byte_to_hex in_buff in_len = do {
     s \<leftarrow> copy_at 0 in_len in_buff;
     Some (hex_chars s @ [0])
   }"

definition is_hex :: "byte \<Rightarrow> bool" where
  "is_hex c \<longleftrightarrow> c \<in> set (map word_of_nat ([48..<58] @ [65..<71] @ [97..<103]))"

definition hex_upper :: "byte \<Rightarrow> byte" where
  "hex_upper c = (if 0x61 \<le> c then c - 32 else c)"

lemma hex_digit_nibble: "n < 16 \<Longrightarrow> hex_digit (nibble_hex (word_of_nat n)) = word_of_nat n"
proof -
  assume "n < 16"
  moreover have "list_all (\<lambda>n. hex_digit (nibble_hex (word_of_nat n)) = word_of_nat n) [0..<16]"
    by code_simp
  ultimately show ?thesis by (auto simp: list_all_iff)
qed

lemma nibble_less: "unat (take_bit 4 (b :: byte)) < 16"
proof -
  have "unat (take_bit 4 b) = take_bit 4 (unat b)" by (rule unsigned_take_bit_eq)
  then show ?thesis using take_bit_nat_less_exp [of 4 "unat b"] by simp
qed

lemma take_bit_word_self: "unat (w :: byte) < 16 \<Longrightarrow> take_bit 4 w = w"
proof -
  assume "unat w < 16"
  then have "unat (take_bit 4 w) = unat w"
    by (simp only: unsigned_take_bit_eq) (simp add: take_bit_nat_eq_self)
  then show ?thesis by (simp add: unsigned_word_eqI)
qed

lemma low_nibble [hex_simps]: "hex_digit (nibble_hex (b AND 0x0F)) = b AND 0x0F"
proof -
  have *: "b AND 0x0F = take_bit 4 b" by (simp add: take_bit_eq_mask mask_eq_exp_minus_1)
  show ?thesis using hex_digit_nibble [OF nibble_less [of b]] by (simp add: *)
qed

lemma high_nibble: "drop_bit 4 b AND 0x0F = drop_bit 4 (b :: byte)"
proof -
  have "drop_bit 4 b AND 0x0F = take_bit 4 (drop_bit 4 b)"
    by (simp add: take_bit_eq_mask mask_eq_exp_minus_1)
  also have "\<dots> = drop_bit 4 (take_bit 8 b)" by (simp add: take_bit_drop_bit)
  also have "take_bit 8 b = b" by (simp add: take_bit_word_eq_self)
  finally show ?thesis .
qed

lemma nibbles_join [hex_simps]: "push_bit 4 (drop_bit 4 b AND 0x0F) + (b AND 0x0F) = (b :: byte)"
proof -
  have "b AND 0x0F = take_bit 4 b" by (simp add: take_bit_eq_mask mask_eq_exp_minus_1)
  then show ?thesis by (simp only: high_nibble bits_ident)
qed

lemma hex_pairs_chars [simp]: "hex_pairs (hex_chars bs) = bs"
  by (induction bs) (simp_all add: hex_simps del: push_bit_and)

lemma hex_chars_length [simp]: "length (hex_chars bs) = 2 * length bs"
  by (induction bs) simp_all

lemma hex_chars_append [simp]: "hex_chars (a @ b) = hex_chars a @ hex_chars b"
  by (induction a) simp_all

lemma hex_pairs_length [simp]: "length (hex_pairs s) = length s div 2"
  by (induction s rule: hex_pairs.induct) simp_all

lemma hex_pairs_append: "even (length a) \<Longrightarrow> hex_pairs (a @ b) = hex_pairs a @ hex_pairs b"
  by (induction a rule: hex_pairs.induct) simp_all

lemma nibble_hex_nz: "nibble_hex (b AND 0x0F) \<noteq> 0"
proof -
  have "list_all (\<lambda>n. nibble_hex (word_of_nat n) \<noteq> 0) [0..<16]" by code_simp
  then have "nibble_hex (word_of_nat k) \<noteq> 0" if "k < 16" for k
    using that by (auto simp: list_all_iff)
  from this [OF nibble_less [of b]]
  have "nibble_hex (word_of_nat (unat (take_bit 4 b))) \<noteq> 0" .
  moreover have "b AND 0x0F = word_of_nat (unat (take_bit 4 b))"
    by (simp add: take_bit_eq_mask mask_eq_exp_minus_1)
  ultimately show ?thesis by metis
qed

lemma hex_chars_no_nul [simp]: "no_nul (hex_chars bs)"
  by (induction bs) (simp_all add: nibble_hex_nz)

lemma pair_nibbles:
  assumes "take_bit 4 h = (h :: byte)" "take_bit 4 l = (l :: byte)"
  shows "drop_bit 4 (push_bit 4 h + l) AND 0x0F = h" and "(push_bit 4 h + l) AND 0x0F = l"
proof -
  have lo: "bit h n \<Longrightarrow> n < 4" "bit l n \<Longrightarrow> n < 4" for n
    by (metis assms(1) bit_take_bit_iff) (metis assms(2) bit_take_bit_iff)
  have disj: "push_bit 4 h + l = push_bit 4 h OR l"
    by (rule disjunctive_add) (metis assms(2) bit_push_bit_iff bit_take_bit_iff not_le)
  have m: "x AND 0x0F = take_bit 4 (x :: byte)" for x
    by (simp add: take_bit_eq_mask mask_eq_exp_minus_1)
  show "(push_bit 4 h + l) AND 0x0F = l"
    by (simp add: disj m take_bit_or assms take_bit_push_bit)
  have "drop_bit 4 (push_bit 4 h OR l) = h"
    by (rule bit_eqI) (auto simp: bit_simps dest: lo)
  then show "drop_bit 4 (push_bit 4 h + l) AND 0x0F = h"
    by (simp add: disj m assms)
qed

lemma is_hex_facts:
  assumes "is_hex c"
  shows "nibble_hex (hex_digit c) = hex_upper c" "take_bit 4 (hex_digit c) = hex_digit c"
proof -
  have "list_all (\<lambda>c :: byte. nibble_hex (hex_digit c) = hex_upper c \<and> hex_digit c < 16)
      (map word_of_nat ([48..<58] @ [65..<71] @ [97..<103]))" by code_simp
  then have H: "nibble_hex (hex_digit c) = hex_upper c" "hex_digit c < 16"
    using assms by (auto simp: list_all_iff is_hex_def)
  show "nibble_hex (hex_digit c) = hex_upper c" by (rule H)
  show "take_bit 4 (hex_digit c) = hex_digit c"
    using H(2) by (simp add: word_less_nat_alt take_bit_word_self)
qed

lemma hex_pair_chars [hex_simps]:
  assumes "is_hex h" "is_hex l"
  shows "nibble_hex (drop_bit 4 (push_bit 4 (hex_digit h) + hex_digit l) AND 0x0F) = hex_upper h"
    and "nibble_hex ((push_bit 4 (hex_digit h) + hex_digit l) AND 0x0F) = hex_upper l"
  unfolding pair_nibbles [OF is_hex_facts(2) [OF assms(1)] is_hex_facts(2) [OF assms(2)]]
  by (simp_all add: is_hex_facts assms)

lemma hex_chars_pairs:
  "list_all is_hex s \<Longrightarrow> even (length s) \<Longrightarrow> hex_chars (hex_pairs s) = map hex_upper s"
  by (induction s rule: hex_pairs.induct) (simp_all add: hex_simps)

section \<open>BCD\<close>

text \<open>\<open>BCD_To_INT_10\<close> works on \<open>buf[20]\<close>; its first shift reads \<open>buf[1 .. len + 1]\<close>, so 18 is the
  largest length that stays inside. The sum is a 32-bit \<open>int\<close> and wraps.\<close>

fun bcd_loop :: "bytes \<Rightarrow> 32 word \<Rightarrow> 32 word" where
  "bcd_loop [] num = num"
| "bcd_loop (b # r) num =
     bcd_loop r (num * 100 + ucast ((drop_bit 4 b AND 0x0F) * 10) + ucast (b AND 0x0F))"

definition BCD_To_INT_10 :: "bytes \<Rightarrow> nat \<Rightarrow> 32 word option" where
  "BCD_To_INT_10 buff len = do {
     s \<leftarrow> copy_at 0 len buff;
     if len > 18 then None else Some (bcd_loop s 0)
   }"

text \<open>\<open>LongToBcd\<close>: the decimal digits of a \<open>WORD\<close>, padded with zero characters to \<open>length\<close>; then
  \<open>hex_to_byte\<close> is called with \<open>length / 2\<close> characters. A number longer than \<open>length\<close> empties the
  output. \<open>tmpStr\<close> has 100 characters.\<close>

definition LongToBcd :: "16 word \<Rightarrow> nat \<Rightarrow> bytes option" where
  "LongToBcd number len = (let numStr = dec_digits (unat number) in
     if length numStr > len then Some [0]
     else if len > 99 then None
     else map_option fst (hex_to_byte (pad0 len numStr @ [0]) (len div 2) 0))"

section \<open>The CRC of the bus protocol\<close>

definition crc_bit :: "32 word \<Rightarrow> 32 word" where
  "crc_bit c = (if c AND 0x8000 \<noteq> 0 then push_bit 1 c XOR 0x1021 else push_bit 1 c)"

definition crc_byte :: "32 word \<Rightarrow> byte \<Rightarrow> 32 word" where
  "crc_byte c b = (crc_bit ^^ 8) (c XOR push_bit 8 (ucast b))"

definition crc_reg :: "bytes \<Rightarrow> 32 word" where
  "crc_reg bs = foldl crc_byte 0 bs"

text \<open>The routine appends the two CRC bytes, high byte first, and a NUL after the \<open>length\<close> bytes it
  reads; the three extra places must be inside the buffer.\<close>

definition crc_cu_16 :: "bytes \<Rightarrow> nat \<Rightarrow> bytes option" where
  "crc_cu_16 buf len = do {
     s \<leftarrow> copy_at 0 len buf;
     let c = crc_reg s;
     poke len [ucast (drop_bit 8 c), ucast c, 0] buf
   }"

section \<open>Amounts\<close>

definition bus_money_change :: "bytes \<Rightarrow> bytes option" where
  "bus_money_change input = do {
     (temp, n) \<leftarrow> hex_to_byte input 8 0;
     Some [temp ! 3, temp ! 2, temp ! 1, temp ! 0]
   }"

definition atoi32 :: "bytes \<Rightarrow> 32 word" where
  "atoi32 s = word_of_int (atol s)"

definition getHexAmo :: "bytes \<Rightarrow> bytes" where
  "getHexAmo amo = (let lamo = atoi32 amo in
     [ucast (lamo div 0x1000000), ucast (lamo mod 0x1000000 div 0x10000),
      ucast (lamo mod 0x10000 div 0x100), ucast (lamo mod 0x100)])"

definition be_word :: "bytes \<Rightarrow> 32 word" where
  "be_word bs = foldl (\<lambda>a b. a * 256 + ucast b) 0 bs"

definition getAsiAmo :: "bytes \<Rightarrow> nat \<Rightarrow> bytes option" where
  "getAsiAmo hexAmo num = do {
     s \<leftarrow> copy_at 0 num hexAmo;
     Some (fmt0 12 (sint (be_word s)))
   }"

text \<open>\<open>sixten_toten\<close> keeps the digits in \<open>a[9]\<close>; a character that is no upper case hexadecimal digit
  leaves its slot uninitialised.\<close>

definition hex_case :: "byte \<Rightarrow> 32 word option" where
  "hex_case c = (if 0x30 \<le> c \<and> c \<le> 0x39 then Some (ucast (c - 0x30))
     else if 0x41 \<le> c \<and> c \<le> 0x46 then Some (ucast (c - 0x41) + 10) else None)"

fun hex_cases :: "bytes \<Rightarrow> 32 word list option" where
  "hex_cases [] = Some []"
| "hex_cases (c # r) = do { d \<leftarrow> hex_case c; ds \<leftarrow> hex_cases r; Some (d # ds) }"

fun scale_sum :: "32 word list \<Rightarrow> 32 word" where
  "scale_sum [] = 0"
| "scale_sum (d # r) = d * 16 ^ length r + scale_sum r"

definition sixten_toten :: "bytes \<Rightarrow> bytes option" where
  "sixten_toten input = (if strlen input > 9 then None
     else do { a \<leftarrow> hex_cases (cstr input); Some (fmt0 0 (sint (scale_sum a))) })"

section \<open>The CRC against a bit-serial reference\<close>

text \<open>\<open>crc16_ref\<close> is the textbook register: 16 bits, one message bit at a time, most significant
  bit first, polynomial \<open>0x1021\<close>, start value 0. The lemmas lead to two facts: the table-free 32-bit
  loop of the source leaves in its low half what the register holds, and a message followed by its
  own two CRC bytes leaves the register at 0.\<close>

definition crc16_shift :: "16 word \<Rightarrow> 16 word" where
  "crc16_shift r = push_bit 1 r XOR (if bit r 15 then 0x1021 else 0)"

definition crc16_serial :: "16 word \<Rightarrow> bool \<Rightarrow> 16 word" where
  "crc16_serial r b = push_bit 1 r XOR (if bit r 15 \<noteq> b then 0x1021 else 0)"

definition msb_bits :: "byte \<Rightarrow> bool list" where
  "msb_bits b = map (bit b) [7, 6, 5, 4, 3, 2, 1, 0]"

definition crc16_ref :: "bytes \<Rightarrow> 16 word" where
  "crc16_ref bs = foldl crc16_serial 0 (concat (map msb_bits bs))"

lemma crc_bit_low: "ucast (crc_bit c) = crc16_shift (ucast c)"
proof -
  have A: "c AND 0x8000 = 0 \<longleftrightarrow> \<not> bit c 15"
    using and_exp_eq_0_iff_not_bit [of c 15] by simp
  have B: "ucast (push_bit k c :: 32 word) = push_bit k (ucast c :: 16 word)" for k
    by (rule bit_word_eqI) (auto simp: bit_simps)
  have C: "ucast (x XOR y :: 32 word) = (ucast x XOR ucast y :: 16 word)" for x y
    by (rule bit_word_eqI) (auto simp: bit_simps)
  have D: "bit (ucast c :: 16 word) 15 = bit c 15" by (simp add: bit_simps)
  show ?thesis unfolding crc_bit_def crc16_shift_def A D
    by (cases "bit c 15") (simp_all only: if_True if_False not_not simp_thms B C, simp_all)
qed

lemma crc_bits_low: "ucast ((crc_bit ^^ n) c) = (crc16_shift ^^ n) (ucast c)"
  by (induction n) (simp_all add: crc_bit_low)

definition crc16_byte :: "16 word \<Rightarrow> byte \<Rightarrow> 16 word" where
  "crc16_byte r b = (crc16_shift ^^ 8) (r XOR push_bit 8 (ucast b))"

lemma crc_byte_low: "ucast (crc_byte c b) = crc16_byte (ucast c) b"
proof -
  have "ucast (c XOR push_bit 8 (ucast b)) = (ucast c XOR push_bit 8 (ucast b) :: 16 word)"
    by (rule bit_word_eqI) (auto simp: bit_simps)
  then show ?thesis by (simp only: crc_byte_def crc16_byte_def crc_bits_low)
qed

lemma crc_fold_low: "ucast (foldl crc_byte c bs) = foldl crc16_byte (ucast c) bs"
  by (induction bs arbitrary: c) (simp_all add: crc_byte_low)

lemma crc16_shift_xor: "\<not> bit x 15 \<Longrightarrow> crc16_shift (r XOR x) = crc16_shift r XOR push_bit 1 x"
  by (simp add: crc16_shift_def bit_xor_iff push_bit_xor xor.assoc xor.left_commute xor.commute)

definition hi_bit :: "bool \<Rightarrow> 16 word" where
  "hi_bit b = (if b then 0x8000 else 0)"

lemma bit_hi_bit: "bit (hi_bit b) n \<longleftrightarrow> b \<and> n = 15"
proof -
  have "(0x8000 :: 16 word) = 2 ^ 15" by simp
  then have "bit (0x8000 :: 16 word) n \<longleftrightarrow> n = 15" by (simp only: bit_exp_iff) auto
  then show ?thesis by (simp add: hi_bit_def)
qed

lemma push_hi_bit: "push_bit (Suc k) (hi_bit b) = 0"
  by (rule bit_word_eqI) (auto simp add: bit_push_bit_iff bit_hi_bit simp del: push_bit_Suc)

fun top_bits :: "bool list \<Rightarrow> 16 word" where
  "top_bits [] = 0"
| "top_bits (b # bs) = hi_bit b XOR drop_bit 1 (top_bits bs)"

lemma crc16_shift_top: "crc16_shift (r XOR hi_bit b) = crc16_serial r b"
  using push_hi_bit [of 0 b]
  unfolding crc16_shift_def crc16_serial_def by (simp only: push_bit_xor bit_xor_iff bit_hi_bit One_nat_def) simp

lemma top_bits_low: "length bs + n < 16 \<Longrightarrow> \<not> bit (top_bits bs) n"
  by (induction bs arbitrary: n) (auto simp: bit_hi_bit bit_xor_iff bit_drop_bit_eq)

lemma push_drop: "\<not> bit (x :: 16 word) 0 \<Longrightarrow> push_bit (Suc 0) (drop_bit (Suc 0) x) = x"
proof (rule bit_word_eqI)
  fix n assume "\<not> bit x 0" "n < LENGTH(16)"
  then show "bit (push_bit (Suc 0) (drop_bit (Suc 0) x)) n = bit x n"
    by (cases n) (simp_all only: bit_push_bit_iff bit_drop_bit_eq, simp_all)
qed

lemma crc16_shift_bits: "length bs < 16 \<Longrightarrow>
    (crc16_shift ^^ length bs) (r XOR top_bits bs) = foldl crc16_serial r bs"
proof (induction bs arbitrary: r)
  case (Cons b bs)
  have hi: "\<not> bit (drop_bit 1 (top_bits bs)) 15"
    using bit_imp_le_length [of "top_bits bs" 16] by (auto simp: bit_drop_bit_eq)
  have lo: "push_bit 1 (drop_bit 1 (top_bits bs)) = top_bits bs"
    using push_drop top_bits_low [of bs 0] Cons.prems by simp
  have "crc16_shift (r XOR top_bits (b # bs)) = crc16_serial r b XOR top_bits bs"
    by (simp only: top_bits.simps xor.assoc [symmetric] crc16_shift_xor [OF hi] crc16_shift_top lo)
  with Cons show ?case by (simp add: funpow_Suc_right del: funpow.simps top_bits.simps)
qed simp

lemma top_bits_nth: "length bs \<le> 16 \<Longrightarrow> bit (top_bits bs) n \<longleftrightarrow> n < 16 \<and> 15 - n < length bs \<and> bs ! (15 - n)"
proof (induction bs arbitrary: n)
  case (Cons b bs)
  show ?case
    using Cons.IH [of "Suc n"] Cons.prems
    by (cases "n < 15") (auto simp: bit_xor_iff bit_hi_bit bit_drop_bit_eq nth_Cons' dest: bit_imp_le_length)
qed simp

lemma msb_bits_nth: "i < 8 \<Longrightarrow> msb_bits b ! i = bit b (7 - i)"
  by (simp add: msb_bits_def nth_Cons' numeral_eq_Suc less_Suc_eq) auto

lemma top_bits_msb: "top_bits (msb_bits b) = push_bit 8 (ucast b)"
proof (rule bit_word_eqI)
  fix n assume n: "n < LENGTH(16)"
  have l: "length (msb_bits b) = 8" by (simp add: msb_bits_def)
  have "bit (push_bit k (ucast b :: 16 word)) n \<longleftrightarrow> k \<le> n \<and> bit b (n - k)" for k
    using n by (auto simp: bit_simps)
  moreover have "bit (top_bits (msb_bits b)) n \<longleftrightarrow> 8 \<le> n \<and> bit b (n - 8)"
  proof (cases "8 \<le> n")
    case True
    with n have "15 - n < 8" "7 - (15 - n) = n - 8" by simp_all
    then show ?thesis using n True msb_bits_nth [of "15 - n" b] by (simp add: top_bits_nth l)
  next
    case False
    then have "\<not> 15 - n < 8" by arith
    with False show ?thesis by (simp add: top_bits_nth l)
  qed
  ultimately show "bit (top_bits (msb_bits b)) n = bit (push_bit 8 (ucast b :: 16 word)) n"
    by blast
qed


lemma crc16_byte_serial: "crc16_byte r b = foldl crc16_serial r (msb_bits b)"
proof -
  have l: "length (msb_bits b) = 8" by (simp add: msb_bits_def)
  show ?thesis using crc16_shift_bits [of "msb_bits b" r] unfolding crc16_byte_def l top_bits_msb by simp
qed

lemma crc16_fold_serial: "foldl crc16_byte r bs = foldl crc16_serial r (concat (map msb_bits bs))"
  by (induction bs arbitrary: r) (simp_all add: crc16_byte_serial)

lemma shift_small: "k + n \<le> 16 \<Longrightarrow> take_bit k x = x \<Longrightarrow> (crc16_shift ^^ n) x = push_bit n x"
proof (induction n)
  case (Suc n)
  then have "\<not> bit x m" if "k \<le> m" for m using that by (metis bit_take_bit_iff not_less)
  then have "\<not> bit (push_bit n x) 15" using Suc.prems by (auto simp: bit_push_bit_iff)
  with Suc show ?case by (simp add: crc16_shift_def del: push_bit_Suc)
qed simp

lemma shift_zero: "(crc16_shift ^^ n) 0 = 0"
  by (induction n) (simp_all add: crc16_shift_def)

lemma crc16_absorb: "crc16_byte (crc16_byte r (ucast (drop_bit 8 r))) (ucast r) = 0"
proof -
  have A: "(r :: 16 word) XOR push_bit k (ucast (ucast (drop_bit k r) :: byte)) = take_bit k r" if "8 = k" for k
    using that by (intro bit_word_eqI) (auto simp: bit_simps)
  have B: "push_bit k r XOR push_bit k (ucast (ucast (r :: 16 word) :: byte)) = 0" if "8 = k" for k
    using that by (intro bit_word_eqI) (auto simp: bit_simps)
  have P: "push_bit k (take_bit k r) = push_bit k (r :: 16 word)" if "8 = k" for k
    using that by (intro bit_word_eqI) (auto simp: bit_simps)
  have "crc16_byte r (ucast (drop_bit 8 r)) = (crc16_shift ^^ 8) (take_bit 8 r)"
    unfolding crc16_byte_def A [OF refl] ..
  also have "\<dots> = push_bit 8 r" using shift_small [of 8 8 "take_bit 8 r"] P [OF refl] by simp
  finally show ?thesis by (simp only: crc16_byte_def B [OF refl] shift_zero)
qed
lemma poke_shape: "poke off src b = Some b' \<Longrightarrow>
    take off b' = take off b \<and> take (length src) (drop off b') = src \<and> length b' = length b"
  by (auto simp: poke_def split: if_splits)

lemma crc_reg_low: "ucast (crc_reg bs) = foldl crc16_byte 0 bs"
  by (simp add: crc_reg_def crc_fold_low)

lemma crc_tail: 
  "ucast (ucast (drop_bit 8 c) :: byte) = (ucast (ucast (drop_bit 8 (ucast (c :: 32 word) :: 16 word)) :: byte) :: 16 word)"
  by (rule bit_word_eqI) (auto simp: bit_simps)

lemma crc_tail_bytes:
  "(ucast (drop_bit 8 c) :: byte) = ucast (drop_bit 8 (ucast (c :: 32 word) :: 16 word))"
  "(ucast c :: byte) = ucast (ucast (c :: 32 word) :: 16 word)"
  by (rule bit_word_eqI, auto simp: bit_simps)+

section \<open>Amounts as four bytes\<close>

lemma be_word4: "be_word [a, b, c, d]
    = word_of_nat (((unat a * 256 + unat b) * 256 + unat c) * 256 + unat d)"
  by (simp add: be_word_def)

lemma unat_byte_of: "unat (ucast w :: byte) = unat (w :: 32 word) mod 256"
  by (simp add: unsigned_ucast_eq take_bit_eq_mod)

lemma base256: "x = a * 16777216 + m \<Longrightarrow> m = b * 65536 + k \<Longrightarrow> k = c * 256 + d
    \<Longrightarrow> ((a * 256 + b) * 256 + c) * 256 + d = (x :: nat)"
  by simp

lemma be_split: "((x div 16777216 mod 256 * 256 + x mod 16777216 div 65536 mod 256) * 256
    + x mod 65536 div 256 mod 256) * 256 + x mod 256 mod 256 = (x :: nat)" if "x < 2 ^ 32"
proof -
  have 1: "x div 16777216 mod 256 = x div 16777216" using that by simp
  have 2: "x mod 16777216 div 65536 mod 256 = x mod 16777216 div 65536"
    by (simp add: less_mult_imp_div_less)
  have 3: "x mod 65536 div 256 mod 256 = x mod 65536 div 256" by (simp add: less_mult_imp_div_less)
  have a: "x mod 16777216 mod 65536 = x mod 65536" by (simp add: mod_mod_cancel)
  have b: "x mod 65536 mod 256 = x mod 256" by (simp add: mod_mod_cancel)
  have "x = x div 16777216 * 16777216 + x mod 16777216"
    "x mod 16777216 = x mod 16777216 div 65536 * 65536 + x mod 65536"
    "x mod 65536 = x mod 65536 div 256 * 256 + x mod 256"
    using div_mult_mod_eq [of x 16777216] div_mult_mod_eq [of "x mod 16777216" 65536]
      div_mult_mod_eq [of "x mod 65536" 256] unfolding a b by metis+
  then show ?thesis unfolding 1 2 3 mod_mod_trivial by (rule base256)
qed

lemma getHexAmo_value: "be_word (getHexAmo amo) = atoi32 amo"
proof -
  have "unat (atoi32 amo) < 2 ^ 32" using unsigned_less [of "atoi32 amo"] by simp
  from be_split [OF this] show ?thesis
    by (simp add: getHexAmo_def be_word4 unat_byte_of unat_div unat_mod Let_def)
qed

section \<open>BCD values\<close>

lemma digit_nibble:
  assumes "is_digit c"
  shows "hex_digit c = c - 0x30" "unat (c - 0x30) \<le> 9" "take_bit 4 (c - 0x30) = c - 0x30"
proof -
  have u: "48 \<le> uint c" "uint c \<le> 57" using assms by (auto simp: is_digit_uint)
  show "hex_digit c = c - 0x30" using assms by (simp add: hex_digit_def is_digit_def)
  have "int 48 \<le> int (unat c)" "int (unat c) \<le> int 57" using u by simp_all
  then have n: "48 \<le> unat c" "unat c \<le> 57" by (simp_all only: of_nat_le_iff)
  then have "unat (c - 0x30) = unat c - 48" by (subst unat_sub) (simp_all add: word_le_nat_alt)
  with n show le: "unat (c - 0x30) \<le> 9" by simp
  then show "take_bit 4 (c - 0x30) = c - 0x30" by (intro take_bit_word_self) simp
qed

lemma bcd_pairs: "list_all is_digit ds \<Longrightarrow> even (length ds) \<Longrightarrow>
    bcd_loop (hex_pairs ds) (word_of_nat n) = word_of_nat (foldl (\<lambda>a c. 10 * a + unat (c - 0x30)) n ds)"
proof (induction ds arbitrary: n rule: hex_pairs.induct)
  case (1 hi lo r)
  then have d: "is_digit hi" "is_digit lo" by simp_all
  have "unat (x * 10 :: byte) = unat x * 10" if "unat x \<le> 9" for x :: byte
    using that by (simp add: unat_word_ariths)
  then have "unat ((hi - 0x30) * 10 :: byte) = unat (hi - 0x30) * 10"
    using digit_nibble(2) [OF d(1)] by blast
  then have t: "(ucast ((hi - 0x30) * 10 :: byte) :: 32 word) = word_of_nat (unat (hi - 0x30) * 10)"
    by (metis of_nat_unat)
  have l: "(ucast (lo - 0x30 :: byte) :: 32 word) = word_of_nat (unat (lo - 0x30))"
    by simp
  have arith: "(word_of_nat n * 100 + word_of_nat (a * 10) + word_of_nat b :: 32 word)
      = word_of_nat (10 * (10 * n + a) + b)" for a b
    by (simp add: algebra_simps)
  have "bcd_loop (hex_pairs (hi # lo # r)) (word_of_nat n)
      = bcd_loop (hex_pairs r) (word_of_nat (10 * (10 * n + unat (hi - 0x30)) + unat (lo - 0x30)))"
    by (simp only: hex_pairs.simps bcd_loop.simps digit_nibble(1) [OF d(1)] digit_nibble(1) [OF d(2)]
        pair_nibbles [OF digit_nibble(3) [OF d(1)] digit_nibble(3) [OF d(2)]] t l arith)
  also have "\<dots> = word_of_nat (foldl (\<lambda>a c. 10 * a + unat (c - 0x30))
      (10 * (10 * n + unat (hi - 0x30)) + unat (lo - 0x30)) r)"
    by (rule "1.IH") (use "1.prems" in simp_all)
  finally show ?case by (simp only: foldl.simps)
qed simp_all

lemma bcd_of_digits: "list_all is_digit ds \<Longrightarrow> even (length ds) \<Longrightarrow>
    bcd_loop (hex_pairs ds) 0 = word_of_nat (digits_val ds)"
  using bcd_pairs [of ds 0] by (simp add: digits_val_def)

lemma hex_pairs_zeros: "hex_pairs (replicate (2 * k) 0x30) = replicate k 0"
  by (induction k) (simp_all add: hex_digit_def word_sle_eq)

lemma crc_layout:
  assumes "crc_cu_16 buf len = Some out"
  shows "take len out = take len buf
    \<and> take 3 (drop len out) = [ucast (drop_bit 8 (crc16_ref (take len buf))), ucast (crc16_ref (take len buf)), 0]"
proof -
  from assms have p: "poke len [ucast (drop_bit 8 (crc_reg (take len buf))), ucast (crc_reg (take len buf)), 0] buf = Some out"
    by (auto simp: crc_cu_16_def Let_def copy_at_Some split: Option.bind_splits)
  have r: "ucast (crc_reg (take len buf)) = crc16_ref (take len buf)"
    by (simp add: crc_reg_low crc16_ref_def crc16_fold_serial)
  have "(ucast (drop_bit 8 (crc_reg (take len buf))) :: byte) = ucast (drop_bit 8 (crc16_ref (take len buf)))"
    using crc_tail_bytes(1) [of "crc_reg (take len buf)"] unfolding r .
  moreover have "(ucast (crc_reg (take len buf)) :: byte) = ucast (crc16_ref (take len buf))"
    using crc_tail_bytes(2) [of "crc_reg (take len buf)"] unfolding r .
  ultimately show ?thesis using poke_shape [OF p] by (simp add: numeral_3_eq_3)
qed

lemma dec_digits_16: "length (dec_digits (unat (number :: 16 word))) \<le> 5"
proof -
  have "unat number < 65536" using unsigned_less [of number] by simp
  then show ?thesis by (intro dec_digits_length) simp_all
qed

lemma hex_to_byte_zeros:
  assumes "copy_at 0 h s = Some (replicate h 0x30)" "h \<le> 4095"
  shows "hex_to_byte s h 0 = Some (replicate ((h + 1) div 2) 0 @ [0], (h + 1) div 2)"
proof (cases "even h")
  case True
  then obtain k where "h = 2 * k" by (rule evenE)
  with assms hex_pairs_zeros [of k] show ?thesis by (simp add: hex_to_byte_def)
next
  case False
  then obtain k where "h = 2 * k + 1" by (rule oddE)
  with assms hex_pairs_zeros [of "Suc k"] show ?thesis by (simp add: hex_to_byte_def)
qed

section \<open>Properties\<close>

text \<open>\<open>hex_to_byte\<close> undoes \<open>byte_to_hex\<close>: the bytes come back with their number, for every buffer
  whose text fits into the 4096 places of \<open>tmp\<close> and for both padding modes.\<close>

theorem hex_roundtrip:
  assumes "length bs \<le> 2048"
  shows "\<exists>h. byte_to_hex bs (length bs) = Some h \<and> strlen h = 2 * length bs
    \<and> hex_to_byte h (strlen h) t = Some (bs @ [0], length bs)"
proof -
  have "byte_to_hex bs (length bs) = Some (hex_chars bs @ [0])" by (simp add: byte_to_hex_def)
  moreover have "strlen (hex_chars bs @ [0]) = 2 * length bs" by (simp add: strlen_def cstr_term)
  moreover have "copy_at 0 (2 * length bs) (hex_chars bs @ [0]) = Some (hex_chars bs)"
    using copy_at_app [of 0 "[]" "2 * length bs" "hex_chars bs" "[0]"] by simp
  ultimately show ?thesis using assms by (simp add: hex_to_byte_def)
qed

theorem hex_roundtrip_witness:
  "\<exists>h. byte_to_hex [0x13, 0x7A, 0x8C] (length [0x13, 0x7A, 0x8C :: byte]) = Some h
    \<and> strlen h = 2 * length [0x13, 0x7A, 0x8C :: byte]
    \<and> hex_to_byte h (strlen h) 0 = Some ([0x13, 0x7A, 0x8C] @ [0], length [0x13, 0x7A, 0x8C :: byte])"
  by (rule hex_roundtrip) simp

text \<open>C23: The CRC routine writes, behind the unchanged message, the two bytes of the bit-serial
  CRC-16 register (polynomial \<open>0x1021\<close>, start 0, most significant bit first) and a NUL.\<close>

theorem crc_cu_16_reference:
  assumes "crc_cu_16 buf len = Some out"
  shows "take len out = take len buf
    \<and> take 3 (drop len out) = [ucast (drop_bit 8 (crc16_ref (take len buf))), ucast (crc16_ref (take len buf)), 0]"
  by (rule crc_layout [OF assms])

theorem crc_cu_16_reference_witness:
  "take 1 [0x31, 0x26, 0x72, 0] = take 1 [0x31, 0, 0, 0 :: byte]
    \<and> take 3 (drop 1 [0x31, 0x26, 0x72, 0 :: byte]) = [ucast (drop_bit 8 (crc16_ref (take 1 [0x31, 0, 0, 0]))),
        ucast (crc16_ref (take 1 [0x31, 0, 0, 0])), 0]"
proof -
  have "crc_cu_16 [0x31, 0, 0, 0] 1 = Some [0x31, 0x26, 0x72, 0]" by code_simp
  from crc_cu_16_reference [OF this] show ?thesis .
qed

text \<open>A message followed by its own CRC checks: the register ends at 0.\<close>

theorem crc_cu_16_self_check:
  assumes "crc_cu_16 buf len = Some out"
  shows "crc16_ref (take (len + 2) out) = 0"
proof -
  let ?r = "crc16_ref (take len buf)"
  note s = crc_layout [OF assms]
  have "take (len + 2) out = take len out @ take 2 (take 3 (drop len out))"
    unfolding take_add by (simp del: add_2_eq_Suc')
  then have "take (len + 2) out = take len buf @ [ucast (drop_bit 8 ?r), ucast ?r]" using s by simp
  moreover have "crc16_ref bs = foldl crc16_byte 0 bs" for bs
    by (simp add: crc16_ref_def crc16_fold_serial)
  ultimately show ?thesis by (simp add: crc16_absorb)
qed


text \<open>An amount below 2^31 cents goes to four big-endian bytes and back to the same twelve digits.\<close>

theorem amount_roundtrip:
  assumes "n < 2 ^ 31"
  shows "getAsiAmo (getHexAmo (pad0 12 (dec_digits n))) 4 = Some (pad0 12 (dec_digits n))"
proof -
  have "copy_at 0 4 (getHexAmo (pad0 12 (dec_digits n))) = Some (getHexAmo (pad0 12 (dec_digits n)))"
    by (rule copy_at_all) (simp add: getHexAmo_def Let_def)
  moreover have "sint (word_of_int (int n) :: 32 word) = int n"
    using assms by (simp add: sint_uint unsigned_of_nat take_bit_nat_eq_self signed_take_bit_int_eq_self)
  ultimately show ?thesis
    by (simp add: getAsiAmo_def getHexAmo_value atoi32_def fmt0_def)
qed


text \<open>\<open>LongToBcd\<close> converts only the first half of its digits (\<open>hex_to_byte\<close> gets \<open>length / 2\<close> as
  the number of characters): for \<open>length\<close> 10 and more the result is zeros for every number, and the
  documented example, 123 in six digits, gives two zero bytes. \<open>BCD_To_INT_10\<close> on the documented bytes
  gives 123.\<close>

theorem LongToBcd_loses_digits:
  "(10 \<le> len \<and> len \<le> 99 \<longrightarrow>
      LongToBcd number len = Some (replicate ((len div 2 + 1) div 2) 0 @ [0]))
   \<and> LongToBcd 123 6 = Some [0, 0, 0] \<and> BCD_To_INT_10 [0, 0x01, 0x23] 3 = Some 123"
proof -
  have "LongToBcd 123 6 = Some [0, 0, 0]" "BCD_To_INT_10 [0, 0x01, 0x23] 3 = Some 123" by code_simp+
  moreover have "LongToBcd number len = Some (replicate ((len div 2 + 1) div 2) 0 @ [0])"
    if l: "10 \<le> len" "len \<le> 99"
  proof -
    let ?d = "dec_digits (unat number)" and ?h = "len div 2"
    have d: "length ?d \<le> 5" by (rule dec_digits_16)
    with l have "?h \<le> len - length ?d" by linarith
    then have c: "copy_at 0 ?h (pad0 len ?d @ [0]) = Some (replicate ?h 0x30)"
      using l by (simp add: copy_at_def pad0_def)
    have "?h \<le> 4095" using l by simp
    from hex_to_byte_zeros [OF c this] l d show ?thesis by (simp add: LongToBcd_def Let_def)
  qed
  ultimately show ?thesis by blast
qed


end
