(* ===== verification/ToolsText.thy ===== *)
theory ToolsText
  imports Tools
begin

text \<open>
  The text routines of \<open>src/CTSI/Tools.cpp\<close>: the password mask, amounts as twelve digits and as
  capital-letter Chinese, padding, trimming, searching and replacing in strings, the character
  class and date checks, and the conversions between hexadecimal and decimal text.
\<close>

unbundle bit_operations_syntax

section \<open>The password mask\<close>

definition pwd_mask :: "nat \<Rightarrow> byte" where
  "pwd_mask i = (if i mod 2 \<noteq> 0 then 0x07 else 0x05)"

definition mask_pwd :: "bytes \<Rightarrow> bytes" where
  "mask_pwd s = map (\<lambda>i. (s ! i) XOR pwd_mask i) [0..<length s]"

text \<open>\<open>temp_buff\<close> has 21 characters: a longer password is written past its end. Mode 0 also reverses.\<close>

definition Encrypt :: "bytes \<Rightarrow> int \<Rightarrow> bytes option" where
  "Encrypt inPwd a = (let s = cstr inPwd in
     if length s > 21 then None
     else Some ((if a = 0 then rev (mask_pwd s) else mask_pwd s) @ [0]))"

section \<open>Amounts as text\<close>

text \<open>\<open>chg12asc\<close>: \<open>temp[13]\<close> receives the digits (two zeros appended when there is no point), the
  output is filled with leading zeros and then extended by \<open>strcat\<close>, which starts at the first NUL of
  what the output buffer holds; the last store is at index 13.\<close>

definition chg12asc :: "bytes \<Rightarrow> bytes \<Rightarrow> bytes option" where
  "chg12asc inAmo outAmo = (let s = cstr inAmo;
       temp = (if (\<forall>c\<in>set s. c \<noteq> 0x2E) then s @ [0x30, 0x30] else filter (\<lambda>c. c \<noteq> 0x2E) s) in
     if length temp > 12 then None
     else do {
       o1 \<leftarrow> poke 0 (replicate (12 - length temp) 0x30) outAmo;
       o2 \<leftarrow> poke (strlen o1) (temp @ [0]) o1;
       poke 13 [0] o2
     })"

text \<open>The characters of the capital-letter amounts, with the GBK bytes the source file spells them in.\<close>

datatype rmb = Digit nat | Shi | Wan | Qian | Bai | Yuan | Jiao | Fen

fun rmb_gbk :: "rmb \<Rightarrow> bytes" where
  "rmb_gbk (Digit d) = [[0xC1, 0xE3], [0xD2, 0xBC], [0xB7, 0xA1], [0xC8, 0xFE], [0xCB, 0xC1],
     [0xCE, 0xE9], [0xC2, 0xBD], [0xC6, 0xE2], [0xB0, 0xC6], [0xBE, 0xC1]] ! d"
| "rmb_gbk Shi = [0xCA, 0xB0]"
| "rmb_gbk Wan = [0xCD, 0xF2]"
| "rmb_gbk Qian = [0xC7, 0xAA]"
| "rmb_gbk Bai = [0xB0, 0xDB]"
| "rmb_gbk Yuan = [0xD4, 0xB2]"
| "rmb_gbk Jiao = [0xBD, 0xC7]"
| "rmb_gbk Fen = [0xB7, 0xD6]"

text \<open>\<open>UpperMoney\<close> leaves its output as it was for a value above 9; \<open>dbuffer1\<close> of the caller starts
  uninitialised (\<open>None\<close>) and keeps its last content from call to call.\<close>

definition UpperMoney :: "nat \<Rightarrow> rmb option \<Rightarrow> rmb option" where
  "UpperMoney c out = (if c \<le> 9 then Some (Digit c) else out)"

record money_st =
  m_yuan :: nat
  m_status :: nat
  m_buf :: "rmb option"
  m_out :: "rmb list"

text \<open>One decimal place of \<open>ConvertMoneyUpper\<close>: when \<open>yuan / unit\<close> is not 0, a zero is written first if
  the place before was skipped (\<open>zero\<close>), then the digit and the name of the place; \<open>yuan\<close> keeps the
  remainder and \<open>status\<close> names the place. The \<open>char\<close> cast keeps the low byte of the quotient.\<close>

definition put_digit :: "nat \<Rightarrow> money_st \<Rightarrow> money_st option" where
  "put_digit c st = (let buf = UpperMoney (c mod 256) (m_buf st) in
     case buf of None \<Rightarrow> None | Some d \<Rightarrow> Some (st\<lparr>m_buf := buf, m_out := m_out st @ [d]\<rparr>))"

definition put_char :: "rmb \<Rightarrow> money_st \<Rightarrow> money_st" where
  "put_char r st = st\<lparr>m_out := m_out st @ [r]\<rparr>"

definition put_place :: "nat \<Rightarrow> nat \<Rightarrow> rmb \<Rightarrow> (nat \<Rightarrow> bool) \<Rightarrow> money_st \<Rightarrow> money_st option" where
  "put_place unit stat name zero st =
     (if m_yuan st div unit \<noteq> 0 then do {
        st1 \<leftarrow> (if zero (m_status st) then put_digit 0 st else Some st);
        st2 \<leftarrow> put_digit (m_yuan st div unit) st1;
        Some (put_char name st2\<lparr>m_yuan := m_yuan st mod unit, m_status := stat\<rparr>)
      } else Some st)"

text \<open>The last store before the unit \<open>Yuan\<close>: the ones, or a lone zero when nothing was written.\<close>

definition put_ones :: "money_st \<Rightarrow> money_st option" where
  "put_ones st =
     (if m_yuan st \<noteq> 0 then do {
        st1 \<leftarrow> (if m_status st \<noteq> 0 \<and> m_status st \<noteq> 5 then put_digit 0 st else Some st);
        put_digit (m_yuan st) st1
      } else if m_status st = 0 then put_digit (m_yuan st) (st\<lparr>m_out := []\<rparr>)
      else Some st)"

definition ConvertMoneyUpper :: "32 word \<Rightarrow> rmb list option" where
  "ConvertMoneyUpper amount = do {
     let cent = unat amount mod 100;
     let st0 = \<lparr>m_yuan = unat amount div 100, m_status = 0, m_buf = None, m_out = []\<rparr>;
     s1 \<leftarrow> put_place 100000 1 Shi (\<lambda>_. False) st0;
     s2 \<leftarrow> (if m_yuan s1 div 10000 \<noteq> 0 then put_place 10000 2 Wan (\<lambda>_. False) s1
            else Some (if m_status s1 = 1 then put_char Wan s1 else s1));
     s3 \<leftarrow> put_place 1000 3 Qian (\<lambda>_. False) s2;
     s4 \<leftarrow> put_place 100 4 Bai (\<lambda>s. s \<noteq> 0 \<and> s \<noteq> 3) s3;
     s5 \<leftarrow> put_place 10 5 Shi (\<lambda>s. s \<noteq> 0 \<and> s \<noteq> 4) s4;
     s6 \<leftarrow> put_ones s5;
     s7 \<leftarrow> put_digit (cent div 10) (put_char Yuan s6);
     s8 \<leftarrow> put_digit (cent mod 10) (put_char Jiao s7);
     Some (m_out (put_char Fen s8))
   }"

section \<open>Reading a capital-letter amount\<close>

text \<open>\<open>rmb_value\<close> reads the text as a person does: a digit waits for its unit, the units up to \<open>Qian\<close>
  add to the section, \<open>Wan\<close> closes it, and \<open>Yuan\<close>, \<open>Jiao\<close> and \<open>Fen\<close> scale to cents. \<open>reads st t s\<close> says
  what has been read of the text written so far.\<close>

fun rmb_step :: "nat \<times> nat \<times> nat \<Rightarrow> rmb \<Rightarrow> nat \<times> nat \<times> nat" where
  "rmb_step (t, s, d) (Digit k) = (t, s, k)"
| "rmb_step (t, s, d) Shi = (t, s + d * 10, 0)"
| "rmb_step (t, s, d) Bai = (t, s + d * 100, 0)"
| "rmb_step (t, s, d) Qian = (t, s + d * 1000, 0)"
| "rmb_step (t, s, d) Wan = (t + (s + d) * 10000, 0, 0)"
| "rmb_step (t, s, d) Yuan = ((t + s + d) * 100, 0, 0)"
| "rmb_step (t, s, d) Jiao = (t + d * 10, s, 0)"
| "rmb_step (t, s, d) Fen = (t + d, s, 0)"

definition rmb_value :: "rmb list \<Rightarrow> nat" where
  "rmb_value out = (case foldl rmb_step (0, 0, 0) out of (t, s, d) \<Rightarrow> t + s + d)"

definition reads :: "money_st \<Rightarrow> nat \<Rightarrow> nat \<Rightarrow> bool" where
  "reads st t s \<longleftrightarrow> foldl rmb_step (0, 0, 0) (m_out st) = (t, s, 0)
     \<and> (m_status st = 0 \<longrightarrow> m_out st = [])"

lemma put_digit_small: "c \<le> 9 \<Longrightarrow> put_digit c st = Some (st\<lparr>m_buf := Some (Digit c), m_out := m_out st @ [Digit c]\<rparr>)"
  by (simp add: put_digit_def UpperMoney_def Let_def)

lemma put_place_reads:
  assumes "reads st t s" "m_yuan st div unit \<le> 9" "0 < stat"
    and "(unit, name) \<in> {(10, Shi), (100, Bai), (1000, Qian), (100000, Shi)}"
    and "w = (if name = Shi then 10 else unit)"
  shows "\<exists>st'. put_place unit stat name zero st = Some st' \<and> m_yuan st' = m_yuan st mod unit
    \<and> reads st' t (s + (m_yuan st div unit) * w)
    \<and> m_status st' = (if m_yuan st div unit = 0 then m_status st else stat)"
proof (cases "m_yuan st div unit = 0")
  case True
  with assms(4) have "m_yuan st mod unit = m_yuan st" by auto
  with True assms(1) show ?thesis by (simp add: put_place_def)
next
  case False
  with assms show ?thesis
    by (auto simp: put_place_def put_digit_small put_char_def reads_def)
qed

lemma put_wan_reads:
  assumes "reads st 0 s" "m_yuan st div 10000 \<le> 9" "m_status st = 0 \<longleftrightarrow> s = 0" "m_status st \<le> 1"
  shows "\<exists>st'. (if m_yuan st div 10000 \<noteq> 0 then put_place 10000 2 Wan (\<lambda>_. False) st
            else Some (if m_status st = 1 then put_char Wan st else st)) = Some st'
    \<and> m_yuan st' = m_yuan st mod 10000 \<and> reads st' ((s + m_yuan st div 10000) * 10000) 0"
  using assms by (auto simp: put_place_def put_digit_small put_char_def reads_def)

lemma put_ones_reads:
  assumes "reads st t s" "m_yuan st \<le> 9"
  shows "\<exists>st'. put_ones st = Some st' \<and> foldl rmb_step (0, 0, 0) (m_out st') = (t, s, m_yuan st)"
  using assms by (auto simp: put_ones_def put_digit_small reads_def)

lemma div_le_9: "(y :: nat) < u * 10 \<Longrightarrow> y div u \<le> 9"
  using less_mult_imp_div_less [of y 10 u] by (simp add: mult.commute)

lemma place_sum: "(y :: nat) mod 10000 = y mod 10000 div 1000 * 1000 + y mod 1000 div 100 * 100 + y mod 100 div 10 * 10 + y mod 10"
proof -
  have "y mod 10000 mod 1000 = y mod 1000" "y mod 1000 mod 100 = y mod 100" "y mod 100 mod 10 = y mod 10"
    by (simp_all add: mod_mod_cancel)
  then show ?thesis by (metis div_mult_mod_eq add.assoc)
qed

section \<open>String helpers\<close>

text \<open>\<open>addZero\<close> and \<open>addSpace\<close> differ in the fill character only. Their buffer has 100 places; a string
  that is long enough is cut to \<open>askLen\<close> without a NUL.\<close>

definition pad_str :: "byte \<Rightarrow> bytes \<Rightarrow> nat \<Rightarrow> int \<Rightarrow> bytes option" where
  "pad_str fill oldStr askLen flag = (let s = cstr oldStr in
     if askLen \<le> length s then Some (take askLen s)
     else if askLen > 99 then None
     else if flag = 0 then Some (s @ replicate (askLen - length s) fill @ [0])
     else Some (replicate (askLen - length s) fill @ s @ [0]))"

definition addZero :: "bytes \<Rightarrow> nat \<Rightarrow> int \<Rightarrow> bytes option" where
  "addZero = pad_str 0x30"

definition addSpace :: "bytes \<Rightarrow> nat \<Rightarrow> int \<Rightarrow> bytes option" where
  "addSpace = pad_str 0x20"

text \<open>\<open>trim\<close>: the backward loop has no lower bound, so a string of white space only (or an empty one)
  makes it read before the buffer when it is asked to trim the end.\<close>

definition trim :: "bytes \<Rightarrow> int \<Rightarrow> bytes option" where
  "trim str type = (let s = cstr str;
       start = (if type = 0 \<or> type = 1 then length (takeWhile c_isspace s) else 0) in
     if type = 0 \<or> type = 2
     then (if list_all c_isspace s then None
           else Some (drop start (rev (dropWhile c_isspace (rev s)))))
     else Some (drop start s))"

definition findChar :: "bytes \<Rightarrow> byte \<Rightarrow> nat \<Rightarrow> int" where
  "findChar src ch start =
     (case find (\<lambda>i. cstr src ! i = ch) [start..<strlen src] of None \<Rightarrow> - 1 | Some i \<Rightarrow> int i)"

definition isAllNum :: "bytes \<Rightarrow> int" where
  "isAllNum cData = (if list_ex (\<lambda>c. c <s 0x30 \<or> 0x39 <s c) (cstr cData) then 1 else 0)"

definition isAllNumLetter :: "bytes \<Rightarrow> int" where
  "isAllNumLetter cData = (if list_all (\<lambda>c. (0x30 <=s c \<and> c <=s 0x39) \<or> (0x61 <=s c \<and> c <=s 0x7A)
      \<or> (0x41 <=s c \<and> c <=s 0x5A)) (cstr cData) then 0 else 1)"

definition IsDigit :: "bytes \<Rightarrow> int" where
  "IsDigit cData = (if list_all (\<lambda>c. list_ex (\<lambda>i. hd (dec_digits i) = c) [0..<10]) (cstr cData)
     then 0 else - 1)"

definition chkDate :: "int \<Rightarrow> int \<Rightarrow> int \<Rightarrow> int" where
  "chkDate nYear nMonth nDay =
     (if \<not> (nDay \<ge> 1 \<and> nDay \<le> 31) then 1
      else if \<not> (nMonth \<ge> 1 \<and> nMonth \<le> 12) then 2
      else if \<not> nYear \<ge> 1900 then 3 else 0)"

definition lowerToUpper :: "bytes \<Rightarrow> bytes" where
  "lowerToUpper ch = map (\<lambda>c. if 0x61 <=s c \<and> c <=s 0x7A then c - 32 else c) (cstr ch)"

definition formatTime :: "bytes \<Rightarrow> bytes option" where
  "formatTime hhmmss = do {
     h \<leftarrow> copy_at 0 2 hhmmss; m \<leftarrow> copy_at 2 2 hhmmss; s \<leftarrow> copy_at 4 2 hhmmss;
     Some (h @ [0x3A] @ m @ [0x3A] @ s)
   }"

definition formatDate :: "bytes \<Rightarrow> int \<Rightarrow> bytes option" where
  "formatDate d type =
     (if type = 0 \<or> type = 3 then do {
        y \<leftarrow> copy_at 0 4 d; m \<leftarrow> copy_at 4 2 d; r \<leftarrow> copy_at 6 2 d;
        let c = (if type = 0 then 0x2F else 0x2D);
        Some (y @ [c] @ m @ [c] @ r)
      } else if type = 1 then do {
        y \<leftarrow> copy_at 0 2 d; m \<leftarrow> copy_at 2 2 d; r \<leftarrow> copy_at 4 2 d;
        Some (y @ [0x2F] @ m @ [0x2F] @ r)
      } else if type = 2 then do {
        m \<leftarrow> copy_at 0 2 d; r \<leftarrow> copy_at 2 2 d; Some (m @ [0x2F] @ r)
      } else Some [])"

text \<open>\<open>itemAppend\<close> takes the last \<open>len\<close> of twenty digits of the length.\<close>

definition itemAppend :: "bytes \<Rightarrow> nat \<Rightarrow> bytes option" where
  "itemAppend instr len = (if len > 20 then None
     else Some (drop (20 - len) (pad0 20 (dec_digits (strlen instr))) @ cstr instr))"

text \<open>\<open>decIBcont\<close>: each entry is a four-byte name, a four-digit length and the value. The source copies
  four bytes of the value, whatever its length is, and then skips the length.\<close>

fun decIB_from :: "nat \<Rightarrow> int \<Rightarrow> bytes \<Rightarrow> (bytes \<times> bytes) list option" where
  "decIB_from 0 idx src = Some []"
| "decIB_from (Suc n) idx src = do {
     name \<leftarrow> copy_at (nat idx) 4 src;
     l \<leftarrow> copy_at (nat idx + 4) 4 src;
     v \<leftarrow> copy_at (nat idx + 8) 4 src;
     let idx' = idx + 8 + atol l;
     if idx' < 0 \<or> idx' > int (length src) then None
     else do { r \<leftarrow> decIB_from n idx' src; Some ((name, v) # r) }
   }"

definition decIBcont :: "nat \<Rightarrow> bytes \<Rightarrow> (bytes \<times> bytes) list option" where
  "decIBcont count src = decIB_from count 0 src"

definition shildWords :: "bytes \<Rightarrow> nat \<Rightarrow> nat \<Rightarrow> bytes \<Rightarrow> bytes option" where
  "shildWords origWord indexStart totalLen newWord = do {
     w1 \<leftarrow> poke 0 (replicate 4 0) newWord;
     w2 \<leftarrow> poke 0 (cstr origWord) w1;
     poke indexStart (replicate totalLen 0x2A) w2
   }"

text \<open>\<open>transYYYMMDD\<close> gets today's date (eight digits) from the clock: \<open>today\<close>.\<close>

definition transYYYMMDD :: "bytes \<Rightarrow> bytes \<Rightarrow> bytes option" where
  "transYYYMMDD today oldStr = do {
     yymmdd \<leftarrow> copy_at 2 6 today;
     century \<leftarrow> copy_at 0 2 today;
     Some ((if atol oldStr \<le> atol yymmdd then fmt0 0 (atol century) else fmt0 0 (atol century - 1))
       @ cstr oldStr)
   }"

section \<open>Searching and replacing\<close>

text \<open>\<open>std::string::find\<close> from a position, as an offset into the rest of the string.\<close>

fun find_sub :: "bytes \<Rightarrow> bytes \<Rightarrow> nat option" where
  "find_sub pat [] = (if pat = [] then Some 0 else None)"
| "find_sub pat (c # r) = (if take (length pat) (c # r) = pat then Some 0
     else map_option Suc (find_sub pat r))"

definition replace_at :: "nat \<Rightarrow> nat \<Rightarrow> bytes \<Rightarrow> bytes \<Rightarrow> bytes" where
  "replace_at pos n new s = take pos s @ new @ drop (pos + n) s"

text \<open>\<open>replace\<close> searches from the beginning again after every replacement; not returning is \<open>None\<close>.\<close>

partial_function (option) replace_loop :: "bytes \<Rightarrow> bytes \<Rightarrow> bytes \<Rightarrow> bytes option" where
  "replace_loop oldStr newStr s = (case find_sub oldStr s of
       None \<Rightarrow> Some s
     | Some pos \<Rightarrow> replace_loop oldStr newStr (replace_at pos (length oldStr) newStr s))"

text \<open>\<open>CSreplace\<close> goes on behind what it has inserted, and stops after \<open>count\<close> replacements unless
  \<open>count\<close> is -1; \<open>c\<close> counts them.\<close>

partial_function (option) cs_loop :: "bytes \<Rightarrow> bytes \<Rightarrow> int \<Rightarrow> int \<Rightarrow> bytes \<Rightarrow> bytes \<Rightarrow> bytes option" where
  "cs_loop s2 s3 count c done_part rest = (case find_sub s2 rest of
       None \<Rightarrow> Some (done_part @ rest)
     | Some i \<Rightarrow>
         (let done' = done_part @ take i rest @ s3; rest' = drop (i + length s2) rest in
          if count \<noteq> -1 \<and> c + 1 = count then Some (done' @ rest')
          else cs_loop s2 s3 count (c + 1) done' rest'))"

definition CSreplace :: "bytes \<Rightarrow> bytes \<Rightarrow> bytes \<Rightarrow> int \<Rightarrow> bytes option" where
  "CSreplace s1 s2 s3 count = cs_loop s2 s3 count 0 [] s1"

definition contains :: "bytes \<Rightarrow> bytes \<Rightarrow> bool" where
  "contains pat s \<longleftrightarrow> find_sub pat s \<noteq> None"

lemma contains_iff: "contains pat s \<longleftrightarrow> (\<exists>a b. s = a @ pat @ b)"
proof (induction s)
  case Nil
  then show ?case by (auto simp: contains_def)
next
  case (Cons c r)
  have "(\<exists>a b. c # r = a @ pat @ b) \<longleftrightarrow> (\<exists>b. c # r = pat @ b) \<or> (\<exists>a b. r = a @ pat @ b)"
    by (metis append_Cons append_Nil append_eq_Cons_conv)
  moreover have "(\<exists>b. c # r = pat @ b) \<longleftrightarrow> take (length pat) (c # r) = pat"
    by (metis append_eq_conv_conj append_take_drop_id)
  ultimately show ?case using Cons by (auto simp: contains_def)
qed

lemma replace_at_contains: "contains pat new \<Longrightarrow> contains pat (replace_at pos n new s)"
  unfolding contains_iff replace_at_def by (metis append.assoc)

lemma replace_loop_result:
  assumes "replace_loop oldStr newStr s = Some r"
  shows "\<not> contains oldStr r \<and> (contains oldStr s \<longrightarrow> \<not> contains oldStr newStr)"
proof (rule replace_loop.raw_induct [where P = "\<lambda>old new s r. \<not> contains old r \<and>
    (contains old s \<longrightarrow> \<not> contains old new)", OF _ assms])
  fix f :: "bytes \<Rightarrow> bytes \<Rightarrow> bytes \<Rightarrow> bytes option" and old new s r
  assume IH: "\<And>old new s r. f old new s = Some r \<Longrightarrow>
      \<not> contains old r \<and> (contains old s \<longrightarrow> \<not> contains old new)"
    and step: "(case find_sub old s of None \<Rightarrow> Some s
      | Some pos \<Rightarrow> f old new (replace_at pos (length old) new s)) = Some r"
  show "\<not> contains old r \<and> (contains old s \<longrightarrow> \<not> contains old new)"
  proof (cases "find_sub old s")
    case None
    with step show ?thesis by (simp add: contains_def)
  next
    case (Some pos)
    with step have "f old new (replace_at pos (length old) new s) = Some r" by simp
    from IH [OF this] show ?thesis using replace_at_contains by blast
  qed
qed

text \<open>The reference for both: the leftmost occurrences, which do not overlap, are replaced, at most as many as
  the bound says.\<close>

fun subst_left :: "bytes \<Rightarrow> bytes \<Rightarrow> nat option \<Rightarrow> bytes \<Rightarrow> bytes" where
  "subst_left pat new bound [] = []"
| "subst_left pat new bound (x # s) = (if bound \<noteq> Some 0 \<and> take (length pat) (x # s) = pat
     then new @ subst_left pat new (map_option (\<lambda>n. n - 1) bound) (drop (length pat - 1) s)
     else x # subst_left pat new bound s)"

lemma find_sub_Some: "find_sub pat s = Some i \<Longrightarrow> take (length pat) (drop i s) = pat \<and> (\<forall>k < i. take (length pat) (drop k s) \<noteq> pat)"
proof (induction s arbitrary: i)
  case (Cons c r)
  show ?case
  proof (cases "take (length pat) (c # r) = pat")
    case False
    then obtain j where j: "find_sub pat r = Some j" "i = Suc j" using Cons.prems by auto
    then show ?thesis using Cons.IH [OF j(1)] False by (auto simp: less_Suc_eq_0_disj)
  qed (use Cons.prems in auto)
qed (simp split: if_splits)

lemma find_sub_skip: "\<forall>k < length p. take (length pat) (drop k (p @ s)) \<noteq> pat \<Longrightarrow>
    find_sub pat (p @ s) = map_option ((+) (length p)) (find_sub pat s)"
proof (induction p)
  case Nil
  then show ?case by (simp add: option.map_ident)
next
  case (Cons c p)
  have 1: "take (length pat) (c # p @ s) \<noteq> pat" using Cons.prems by (metis append_Cons drop0 length_Cons zero_less_Suc)
  have "\<forall>k < length p. take (length pat) (drop k (p @ s)) \<noteq> pat"
    using Cons.prems by (metis Suc_less_eq append_Cons drop_Suc_Cons length_Cons)
  with Cons.IH have "find_sub pat (p @ s) = map_option ((+) (length p)) (find_sub pat s)" by blast
  then show ?case using 1 by (simp add: option.map_comp comp_def)
qed

lemma subst_left_step:
  assumes "pat \<noteq> []" "bound \<noteq> Some 0"
  shows "subst_left pat new bound s = (case find_sub pat s of None \<Rightarrow> s
    | Some i \<Rightarrow> take i s @ new @ subst_left pat new (map_option (\<lambda>n. n - 1) bound) (drop (i + length pat) s))"
proof (induction s)
  case (Cons x s)
  have l: "drop (length pat) (x # s) = drop (length pat - 1) s" using assms(1) by (cases pat) simp_all
  show ?case using assms(2) l Cons by (auto split: option.splits)
qed (use assms in simp)

lemma subst_left_none: "subst_left pat new (Some 0) s = s"
  by (induction s) simp_all

lemma cs_loop_subst:
  assumes "old \<noteq> []" "0 \<le> c \<and> (count \<le> 0 \<or> c < count)"
  shows "cs_loop old new count c d s = Some (d @ subst_left old new (if count \<le> 0 then None else Some (nat (count - c))) s)"
  using assms(2)
proof (induction "length s" arbitrary: c d s rule: less_induct)
  case less
  let ?b = "if count \<le> 0 then None else Some (nat (count - c))"
  have b: "?b \<noteq> Some 0" using less.prems by auto
  show ?case
  proof (cases "find_sub old s")
    case None
    then show ?thesis by (simp add: cs_loop.simps subst_left_step [OF assms(1) b])
  next
    case (Some i)
    let ?r = "drop (i + length old) s"
    have "take (length old) (drop i s) = old" using find_sub_Some [OF Some] by simp
    then have "s \<noteq> []" using assms(1) by auto
    then have lt: "length ?r < length s" using assms(1) by (cases old) simp_all
    show ?thesis
    proof (cases "0 < count \<and> c + 1 = count")
      case True
      then have "?b = Some 1" by auto
      then show ?thesis using Some True subst_left_step [OF assms(1), of "Some 1" new s] by (simp add: cs_loop.simps subst_left_none)
    next
      case False
      then have "0 \<le> c + 1 \<and> (count \<le> 0 \<or> c + 1 < count)" using less.prems by linarith
      note IH = less.hyps [OF lt this, of "d @ take i s @ new"]
      have n: "map_option (\<lambda>n. n - 1) ?b = (if count \<le> 0 then None else Some (nat (count - (c + 1))))"
        using less.prems by (cases "count \<le> 0") auto
      have s: "subst_left old new ?b s = take i s @ new @ subst_left old new (if count \<le> 0 then None else Some (nat (count - (c + 1)))) ?r"
        unfolding subst_left_step [OF assms(1) b] Some n by simp
      have "\<not> (count \<noteq> - 1 \<and> c + 1 = count) \<or> count \<le> 0" using False by linarith
      have "cs_loop old new count c d s = cs_loop old new count (c + 1) (d @ take i s @ new) ?r"
        using Some False less.prems by (subst cs_loop.simps) (auto simp: Let_def)
      then show ?thesis using IH unfolding s by simp
    qed
  qed
qed

text \<open>What stands before the place of a replacement and the replacement itself stay out of later searches.\<close>

lemma skip_replaced:
  assumes "old \<noteq> []" "new \<noteq> [] \<or> length old = 1" "set new \<inter> set old = {}" "find_sub old s = Some i"
  shows "find_sub old (take i s @ new @ b) = map_option ((+) (i + length new)) (find_sub old b)"
proof -
  let ?p = "take i s @ new" and ?n = "length old"
  have f: "take ?n (drop i s) = old" "\<And>k. k < i \<Longrightarrow> take ?n (drop k s) \<noteq> old" using find_sub_Some [OF assms(4)] by auto
  have i: "i < length s" using f(1) assms(1) by (metis drop_all linorder_not_le take_Nil)
  have "take ?n (drop k (?p @ b)) \<noteq> old" if k: "k < length ?p" for k
  proof
    assume o: "take ?n (drop k (?p @ b)) = old"
    then have at: "(?p @ b) ! j \<in> set old" if "k \<le> j" "j < k + ?n" "j < length (?p @ b)" for j
    proof -
      define q where "q = ?p @ b"
      have j: "j - k < ?n" "j - k < length q - k" "k + (j - k) = j" using that unfolding q_def by linarith+
      then have "take ?n (drop k q) ! (j - k) = q ! j" "j - k < length (take ?n (drop k q))" by simp_all
      then show ?thesis using o [folded q_def] unfolding q_def [symmetric] by (metis nth_mem)
    qed
    have away: "i \<le> j \<Longrightarrow> j < i + length new \<Longrightarrow> (?p @ b) ! j \<notin> set old" for j
      using assms(3) i by (auto simp: nth_append disjoint_iff)
    show False
    proof (cases "k + ?n \<le> i")
      case True
      then have "drop k (?p @ b) = drop k (take i s) @ new @ b" "?n \<le> length (drop k (take i s))" using i by simp_all
      then have "take ?n (drop k (?p @ b)) = take ?n (drop k (take i s))" by simp
      also have "\<dots> = take ?n (drop k s)" using True by (simp add: drop_take min_absorb1)
      finally have "take ?n (drop k (?p @ b)) = take ?n (drop k s)" .
      then show False using f(2) [of k] True assms(1) o by (cases old) auto
    next
      case False
      have "k < i \<Longrightarrow> new \<noteq> []" using False assms(2) by auto
      then have "i \<le> max i k" "max i k < i + length new" "k \<le> max i k" "max i k < k + ?n" "max i k < length (?p @ b)"
        using False k i assms(1) by (auto simp: max_def)
      then show False using at away by blast
    qed
  qed
  then have "find_sub old (?p @ b) = map_option ((+) (length ?p)) (find_sub old b)" by (intro find_sub_skip) blast
  then show ?thesis using i by simp
qed

lemma replace_subst:
  assumes "old \<noteq> []" "new \<noteq> [] \<or> length old = 1" "set new \<inter> set old = {}"
    and "\<And>b. find_sub old (p @ b) = map_option ((+) (length p)) (find_sub old b)"
  shows "replace_loop old new (p @ s) = Some (p @ subst_left old new None s)"
  using assms(4)
proof (induction "length s" arbitrary: p s rule: less_induct)
  case less
  show ?case
  proof (cases "find_sub old s")
    case None
    then show ?thesis using less.prems [of s] by (simp add: replace_loop.simps subst_left_step [OF assms(1)])
  next
    case (Some i)
    let ?r = "drop (i + length old) s" and ?p = "p @ take i s @ new"
    have "take (length old) (drop i s) = old" using find_sub_Some [OF Some] by simp
    then have i: "i < length s" using assms(1) by (metis drop_all linorder_not_le take_Nil)
    then have lt: "length ?r < length s" using assms(1) by (cases old) simp_all
    have "find_sub old (?p @ b) = map_option ((+) (length ?p)) (find_sub old b)" for b
      using less.prems [of "take i s @ new @ b"] skip_replaced [OF assms(1-3) Some, of b] i
      by (cases "find_sub old b") simp_all
    from less.hyps [OF lt this] have "replace_loop old new (?p @ ?r) = Some (?p @ subst_left old new None ?r)" .
    moreover have "replace_at (length p + i) (length old) new (p @ s) = ?p @ ?r" by (simp add: replace_at_def)
    ultimately show ?thesis using less.prems [of s] Some
      by (simp add: replace_loop.simps [of old new "p @ s"] subst_left_step [OF assms(1), of None new s])
  qed
qed

section \<open>Hexadecimal and decimal text\<close>

text \<open>The digit test of \<open>HexToDec\<close>. The upper bounds \<open>'z '\<close> and \<open>'Z '\<close> of the source are
  two-character constants, larger than any \<open>char\<close>; only the lower bounds are left. A character below
  \<open>'0'\<close> or between \<open>'9'\<close> and \<open>'A'\<close> keeps the value \<open>tmp\<close> had.\<close>

definition hexdec_digit :: "byte \<Rightarrow> 32 word \<Rightarrow> 32 word" where
  "hexdec_digit c tmp =
    (if 0x30 <=s c \<and> c <=s 0x39 then scast c - 48
     else if 0x61 <=s c then scast c - 0x61 + 10
     else if 0x41 <=s c then scast c - 0x41 + 10
     else tmp)"

text \<open>The loop runs from the last character to the first.\<close>

fun hexdec_loop :: "bytes \<Rightarrow> 32 word \<Rightarrow> 32 word \<Rightarrow> 32 word \<Rightarrow> 32 word" where
  "hexdec_loop [] tmp result basic = result"
| "hexdec_loop (c # r) tmp result basic =
     (let tmp' = hexdec_digit c tmp in hexdec_loop r tmp' (result + tmp' * basic) (basic * 16))"

definition space_pad :: "nat \<Rightarrow> bytes \<Rightarrow> bytes" where
  "space_pad w s = replicate (w - length s) 0x20 @ s"

definition HexToDec :: "bytes \<Rightarrow> int \<Rightarrow> bytes" where
  "HexToDec instr n = (let v = sint (hexdec_loop (rev (cstr instr)) 0 0 1) in
     if n = 6 then fmt0 6 v else if n = 8 then fmt0 8 v
     else if n = 10 then space_pad 10 (fmt0 0 v)
     else if n = 12 then fmt0 12 v else if n = 16 then fmt0 16 v else fmt0 12 v)"

fun hex_nat :: "nat \<Rightarrow> bytes" where
  "hex_nat n = (if n < 16 then [nibble_hex (word_of_nat n)]
                else hex_nat (n div 16) @ [nibble_hex (word_of_nat (n mod 16))])"

declare hex_nat.simps [simp del]

definition DecToHex :: "bytes \<Rightarrow> int \<Rightarrow> bytes" where
  "DecToHex strDec n = (let h = hex_nat (unat (atoi32 strDec)) in
     if n = 4 then pad0 4 h else if n = 6 then pad0 6 h else if n = 8 then pad0 8 h else pad0 16 h)"

definition hexval :: "32 word \<Rightarrow> bytes \<Rightarrow> 32 word" where
  "hexval a s = foldl (\<lambda>a c. a * 16 + ucast (hex_digit c)) a s"

lemma hexdec_keep: "0x30 <=s x \<Longrightarrow> x <=s 0x39 \<or> 0x41 <=s x \<Longrightarrow> hexdec_digit x tmp = hexdec_digit x 0"
  by (auto simp: hexdec_digit_def)

lemma hexdec_nibble: "n < 16 \<Longrightarrow> hexdec_digit (nibble_hex (word_of_nat n)) tmp = word_of_nat n"
proof -
  assume n: "n < 16"
  have "list_all (\<lambda>n. hexdec_digit (nibble_hex (word_of_nat n)) 0 = word_of_nat n
      \<and> 0x30 <=s nibble_hex (word_of_nat n)
      \<and> (nibble_hex (word_of_nat n) <=s 0x39 \<or> 0x41 <=s nibble_hex (word_of_nat n))) [0..<16]"
    by code_simp
  with n have "hexdec_digit (nibble_hex (word_of_nat n)) 0 = word_of_nat n"
    "0x30 <=s (nibble_hex (word_of_nat n))"
    "(nibble_hex (word_of_nat n)) <=s 0x39 \<or> 0x41 <=s (nibble_hex (word_of_nat n))"
    by (auto simp: list_all_iff)
  then show ?thesis using hexdec_keep by metis
qed

lemma hexdec_digit_chars: "c \<in> set (hex_chars bs) \<Longrightarrow> hexdec_digit c tmp = ucast (hex_digit c)"
proof -
  assume "c \<in> set (hex_chars bs)"
  then obtain b :: byte where "c = nibble_hex (b AND 0x0F)"
    by (induction bs) auto
  then have c: "c = nibble_hex (word_of_nat (unat (take_bit 4 b)))"
    by (simp add: take_bit_eq_mask mask_eq_exp_minus_1)
  have "hex_digit c = word_of_nat (unat (take_bit 4 b))"
    using c hex_digit_nibble [OF nibble_less [of b]] by simp
  moreover have "hexdec_digit c tmp = word_of_nat (unat (take_bit 4 b))"
    using c hexdec_nibble [OF nibble_less [of b]] by simp
  moreover have "(ucast (word_of_nat k :: byte) :: 32 word) = word_of_nat k" if "k < 16" for k
    using that by (simp add: unsigned_of_nat take_bit_nat_eq_self)
  ultimately show ?thesis using nibble_less [of b] by metis
qed

lemma hexdec_loop_val: "\<forall>c\<in>set s. \<forall>t. hexdec_digit c t = ucast (hex_digit c) \<Longrightarrow>
    hexdec_loop (rev s) tmp res basic = res + basic * hexval 0 s"
proof (induction s arbitrary: tmp res basic rule: rev_induct)
  case (snoc c s)
  then show ?case by (simp add: Let_def hexval_def algebra_simps)
qed (simp add: hexval_def)

lemma unat_nibbles:
  fixes b :: byte
  shows "unat (drop_bit 4 b AND 0x0F) = unat b div 16" "unat (b AND 0x0F) = unat b mod 16"
proof -
  have m: "b AND 0x0F = take_bit 4 b" by (simp add: take_bit_eq_mask mask_eq_exp_minus_1)
  have t: "unat (take_bit 4 b) = take_bit 4 (unat b)" by (rule unsigned_take_bit_eq)
  then show l: "unat (b AND 0x0F) = unat b mod 16" unfolding m by (simp add: take_bit_eq_mod)
  have "(drop_bit 4 b AND 0x0F) = drop_bit 4 b" by (rule high_nibble)
  then show "unat (drop_bit 4 b AND 0x0F) = unat b div 16" by (simp only: drop_bit_eq_div) (simp add: unat_div)
qed

lemma nibbles_value: "(ucast b :: 32 word) = ucast (drop_bit 4 b AND 0x0F) * 16 + ucast (b AND 0x0F)"
  for b :: byte
proof -
  have "(ucast b :: 32 word) = word_of_nat (unat b div 16 * 16 + unat b mod 16)" by simp
  also have "\<dots> = word_of_nat (unat b div 16) * 16 + word_of_nat (unat b mod 16)"
    by (simp only: of_nat_add of_nat_mult) simp
  finally show ?thesis by (simp only: unat_nibbles [symmetric] of_nat_unat)
qed

lemma hexval_chars: "hexval a (hex_chars bs) = foldl (\<lambda>a b. a * 256 + ucast b) a bs"
proof (induction bs arbitrary: a)
  case (Cons b bs)
  have n: "b AND 0x0F = take_bit 4 b" by (simp add: take_bit_eq_mask mask_eq_exp_minus_1)
  have "(ucast b :: 32 word) = ucast (drop_bit 4 b AND 0x0F) * 16 + ucast (b AND 0x0F)"
    by (rule nibbles_value)
  then show ?case using Cons by (simp add: hexval_def hex_simps algebra_simps)
qed (simp add: hexval_def)


fun hex_fix :: "nat \<Rightarrow> nat \<Rightarrow> bytes" where
  "hex_fix 0 n = []"
| "hex_fix (Suc k) n = hex_fix k (n div 16) @ [nibble_hex (word_of_nat (n mod 16))]"

lemma hex_fix_zero: "hex_fix k 0 = replicate k 0x30"
  by (induction k) (simp_all add: nibble_hex_def replicate_append_same)

lemma pad0_snoc: "pad0 (Suc k) (s @ [c]) = pad0 k s @ [c]"
  by (simp add: pad0_def)

lemma pad0_hex_nat: "n < 16 ^ k \<Longrightarrow> 0 < k \<Longrightarrow> pad0 k (hex_nat n) = hex_fix k n"
proof (induction n arbitrary: k rule: hex_nat.induct)
  case (1 n)
  obtain j where k: "k = Suc j" using 1(3) by (cases k) auto
  show ?case
  proof (cases "n < 16")
    case True
    then show ?thesis by (simp add: hex_nat.simps [of n] k pad0_def hex_fix_zero)
  next
    case False
    with 1(2) k have j: "0 < j" by (cases j) auto
    from 1(2) k have "n div 16 < 16 ^ j" by (simp add: less_mult_imp_div_less mult.commute)
    from 1(1) [OF False this j] show ?thesis
      using False by (simp add: hex_nat.simps [of n] k pad0_snoc)
  qed
qed

definition be_nat :: "bytes \<Rightarrow> nat" where
  "be_nat bs = foldl (\<lambda>a b. a * 256 + unat b) 0 bs"

lemma hex_chars_fix: "hex_chars bs = hex_fix (2 * length bs) (be_nat bs)"
proof (induction bs rule: rev_induct)
  case (snoc b bs)
  have h: "drop_bit 4 b AND 0x0F = word_of_nat (unat b div 16)"
    by (simp only: unat_nibbles(1) [symmetric] of_nat_unat ucast_id)
  have l: "b AND 0x0F = word_of_nat (unat b mod 16)"
    by (simp only: unat_nibbles(2) [symmetric] of_nat_unat ucast_id)
  have "be_nat (bs @ [b]) = be_nat bs * 256 + unat b" by (simp add: be_nat_def)
  moreover have "(x * 256 + u) div 16 = x * 16 + u div 16 \<and> (x * 16 + u div 16) div 16 = x
      \<and> (x * 16 + u div 16) mod 16 = u div 16 \<and> (x * 256 + u) mod 16 = u mod 16"
    if "u < 256" for x u :: nat
    using that by presburger
  note this [OF unat_byte_less [of b], of "be_nat bs"]
  ultimately show ?case using snoc by (simp add: h l)
qed (simp add: be_nat_def)

lemma be_nat_less: "be_nat bs < 256 ^ length bs"
proof (induction bs rule: rev_induct)
  case (snoc b bs)
  have "be_nat (bs @ [b]) = be_nat bs * 256 + unat b" by (simp add: be_nat_def)
  moreover have "Suc (be_nat bs) * 256 \<le> 256 ^ length bs * 256" using snoc by (intro mult_le_mono1) simp
  ultimately show ?case using unat_byte_less [of b] by (simp del: unat_byte_less)
qed (simp add: be_nat_def)

lemma be_nat_word: "foldl (\<lambda>a b. a * 256 + ucast b) (0 :: 32 word) bs = word_of_nat (be_nat bs)"
  by (induction bs rule: rev_induct) (simp_all add: be_nat_def)

lemma atol_fmt0: "atol (fmt0 w z) = z"
proof (cases "z < 0")
  case True
  define d where "d = pad0 (w - 1) (dec_digits (nat (- z)))"
  have d: "list_all is_digit d" "no_nul d" "digits_val d = nat (- z)"
    by (simp_all add: d_def dec_digits_all)
  have t: "takeWhile is_digit d = d" unfolding takeWhile_eq_all_conv using d(1) by (simp only: list_all_iff)
  have "int (digits_val (takeWhile is_digit d)) = - z" unfolding t using d(3) True by simp
  moreover have "atol (0x2D # d) = - int (digits_val (takeWhile is_digit d))"
    using d(2) by (simp add: atol_def cstr_id c_isspace_def word_sle_eq)
  ultimately show ?thesis using True by (simp add: fmt0_def flip: d_def One_nat_def)
qed (simp add: fmt0_def)

section \<open>Properties\<close>

text \<open>C28: For every amount below one million yuan the capital-letter text is produced, and read back
  digit by digit and unit by unit it is the amount in cents.\<close>

theorem ConvertMoneyUpper_reads:
  fixes a :: "32 word"
  assumes "unat a < 100000000"
  shows "\<exists>out. ConvertMoneyUpper a = Some out \<and> rmb_value out = unat a"
proof -
  define y c where "y = unat a div 100" and "c = unat a mod 100"
  have a: "unat a = y * 100 + c" by (simp add: y_def c_def)
  have y: "y < 1000000" and c: "c < 100" using assms by (simp_all add: y_def c_def)
  define s0 where "s0 = \<lparr>m_yuan = y, m_status = 0, m_buf = None, m_out = []\<rparr>"
  have s0_fields: "m_yuan s0 = y" "m_status s0 = 0" by (simp_all add: s0_def)
  have "reads s0 0 0" by (simp add: reads_def s0_def)
  with y obtain s1 where s1: "put_place 100000 1 Shi (\<lambda>_. False) s0 = Some s1" "m_yuan s1 = y mod 100000"
    "reads s1 0 (y div 100000 * 10)" "m_status s1 = (if y div 100000 = 0 then 0 else 1)"
    using put_place_reads [of s0 0 0 100000 1 Shi 10 "\<lambda>_. False"] div_le_9 [of y 100000]
      s0_fields by auto
  obtain s2 where s2: "(if m_yuan s1 div 10000 \<noteq> 0 then put_place 10000 2 Wan (\<lambda>_. False) s1
            else Some (if m_status s1 = 1 then put_char Wan s1 else s1)) = Some s2"
    "m_yuan s2 = y mod 10000" "reads s2 (y div 10000 * 10000) 0"
  proof -
    have "y mod 100000 div 10000 \<le> 9" by (rule div_le_9) simp
    moreover have "y mod 100000 = 10000 * (y div 10000 mod 10) + y mod 10000"
      using mod_mult2_eq [of y 10000 10] by simp
    then have "y mod 100000 div 10000 = y div 10000 mod 10" by simp
    then have "y div 100000 * 10 + y mod 100000 div 10000 = y div 10000"
      using div_mult_mod_eq [of "y div 10000" 10] by (simp add: div_mult2_eq [symmetric])
    moreover have "y mod 100000 mod 10000 = y mod 10000" by (simp add: mod_mod_cancel)
    moreover have "m_status s1 = 0 \<longleftrightarrow> y div 100000 * 10 = 0" "m_status s1 \<le> 1" by (simp_all add: s1(4))
    ultimately show ?thesis using that put_wan_reads [OF s1(3)] unfolding s1(2) by metis
  qed
  obtain s3 where s3: "put_place 1000 3 Qian (\<lambda>_. False) s2 = Some s3" "m_yuan s3 = y mod 1000"
    "reads s3 (y div 10000 * 10000) (y mod 10000 div 1000 * 1000)"
    using put_place_reads [OF s2(3), of 1000 3 Qian 1000 "\<lambda>_. False"] s2(2)
      div_le_9 [of "y mod 10000" 1000] by (auto simp: mod_mod_cancel)
  obtain s4 where s4: "put_place 100 4 Bai (\<lambda>s. s \<noteq> 0 \<and> s \<noteq> 3) s3 = Some s4" "m_yuan s4 = y mod 100"
    "reads s4 (y div 10000 * 10000) (y mod 10000 div 1000 * 1000 + y mod 1000 div 100 * 100)"
    using put_place_reads [OF s3(3), of 100 4 Bai 100 "\<lambda>s. s \<noteq> 0 \<and> s \<noteq> 3"] s3(2)
      div_le_9 [of "y mod 1000" 100] by (auto simp: mod_mod_cancel)
  obtain s5 where s5: "put_place 10 5 Shi (\<lambda>s. s \<noteq> 0 \<and> s \<noteq> 4) s4 = Some s5" "m_yuan s5 = y mod 10"
    "reads s5 (y div 10000 * 10000) (y mod 10000 div 1000 * 1000 + y mod 1000 div 100 * 100 + y mod 100 div 10 * 10)"
    using put_place_reads [OF s4(3), of 10 5 Shi 10 "\<lambda>s. s \<noteq> 0 \<and> s \<noteq> 4"] s4(2)
      div_le_9 [of "y mod 100" 10] by (auto simp: mod_mod_cancel)
  have "m_yuan s5 \<le> 9" by (simp add: s5(2) flip: less_Suc_eq_le)
  from put_ones_reads [OF s5(3) this] obtain s6 where s6: "put_ones s5 = Some s6"
    "foldl rmb_step (0, 0, 0) (m_out s6) = (y div 10000 * 10000,
      y mod 10000 div 1000 * 1000 + y mod 1000 div 100 * 100 + y mod 100 div 10 * 10, y mod 10)"
    by (auto simp: s5(2))
  have t: "y div 10000 * 10000 + (y mod 10000 div 1000 * 1000 + y mod 1000 div 100 * 100 + y mod 100 div 10 * 10) + y mod 10 = y"
    using place_sum [of y] div_mult_mod_eq [of y 10000] by linarith
  have "c div 10 \<le> 9" "c mod 10 \<le> 9" using c by simp_all
  then obtain s7 s8 where s7: "put_digit (c div 10) (put_char Yuan s6) = Some s7"
    and s8: "put_digit (c mod 10) (put_char Jiao s7) = Some s8"
    and o8: "m_out (put_char Fen s8) = m_out s6 @ [Yuan, Digit (c div 10), Jiao, Digit (c mod 10), Fen]"
    by (simp add: put_digit_small put_char_def)
  have "ConvertMoneyUpper a = Some (m_out (put_char Fen s8))"
    by (simp only: ConvertMoneyUpper_def Let_def y_def [symmetric] c_def [symmetric] s0_def [symmetric]
        s1(1) s2(1) s3(1) s4(1) s5(1) s6(1) s7 s8 Option.bind.bind_lunit)
  moreover have "rmb_value (m_out (put_char Fen s8)) = unat a"
    using t by (simp add: rmb_value_def o8 s6(2) a)
  ultimately show ?thesis by blast
qed

theorem ConvertMoneyUpper_reads_witness:
  "\<exists>out. ConvertMoneyUpper 10050012 = Some out \<and> rmb_value out = 10050012"
  using ConvertMoneyUpper_reads [of 10050012] by simp

text \<open>\<open>DecToHex\<close> undoes \<open>HexToDec\<close>: eight upper case hexadecimal digits become twelve decimal
  places (with a sign from \<open>0x80000000\<close> on) and come back unchanged; and \<open>HexToDec\<close> prints what
  \<open>getAsiAmo\<close> prints for the same four bytes.\<close>

theorem dec_hex_roundtrip:
  assumes "length bs = 4"
  shows "DecToHex (HexToDec (hex_chars bs) 12) 8 = hex_chars bs
    \<and> getAsiAmo bs 4 = Some (HexToDec (hex_chars bs) 12)"
proof -
  have "HexToDec (hex_chars bs) 12 = fmt0 12 (sint (word_of_nat (be_nat bs) :: 32 word))"
    using hexdec_loop_val [of "hex_chars bs" 0 0 1] hexdec_digit_chars
    by (simp add: HexToDec_def Let_def cstr_id hexval_chars be_nat_word)
  moreover have "be_nat bs < 2 ^ 32" using be_nat_less [of bs] assms by simp
  moreover have "getAsiAmo bs 4 = Some (fmt0 12 (sint (word_of_nat (be_nat bs) :: 32 word)))"
    using assms by (simp add: getAsiAmo_def be_word_def be_nat_word)
  ultimately show ?thesis using assms
    by (simp add: DecToHex_def Let_def atoi32_def atol_fmt0 unsigned_of_nat take_bit_nat_eq_self pad0_hex_nat hex_chars_fix)
qed


text \<open>C29: for every pattern that is not empty, \<open>CSreplace\<close> returns, and its string is the one in which the
  leftmost occurrences are replaced: all of them when \<open>count\<close> is not positive, else the first \<open>count\<close> ones.
  \<open>replace\<close>, which searches its own insertions again, gives the same string when the new text shares no
  character with the pattern and is not empty (or the pattern is one character); what it returns never
  contains the pattern, and it does not return when the pattern is found and the new text contains it.\<close>

theorem replace_CSreplace:
  assumes "old \<noteq> []"
  shows "CSreplace s old new count = Some (subst_left old new (if count \<le> 0 then None else Some (nat count)) s)
    \<and> ((new \<noteq> [] \<or> length old = 1) \<and> set new \<inter> set old = {} \<longrightarrow> replace_loop old new s = Some (subst_left old new None s))
    \<and> (contains old s \<and> contains old new \<longrightarrow> replace_loop old new s = None)
    \<and> (\<forall>r. replace_loop old new s = Some r \<longrightarrow> \<not> contains old r)"
proof (intro conjI impI allI)
  have z: "map_option ((+) 0) x = x" for x :: "nat option" by (cases x) simp_all
  show "CSreplace s old new count = Some (subst_left old new (if count \<le> 0 then None else Some (nat count)) s)"
    using cs_loop_subst [OF assms, of 0 count new "[]" s] by (auto simp: CSreplace_def)
  show "replace_loop old new s = Some (subst_left old new None s)" if "(new \<noteq> [] \<or> length old = 1) \<and> set new \<inter> set old = {}"
    using replace_subst [OF assms, of new "[]" s] that z by simp
  show "replace_loop old new s = None" if "contains old s \<and> contains old new"
    using replace_loop_result [of old new s] that by (cases "replace_loop old new s") auto
  show "\<not> contains old r" if "replace_loop old new s = Some r" for r using replace_loop_result [OF that] by blast
qed

theorem replace_CSreplace_witness:
  "CSreplace [0x61, 0x62, 0x61, 0x62] [0x61, 0x62] [0x63] 1 = Some [0x63, 0x61, 0x62]
    \<and> replace_loop [0x61, 0x62] [0x63] [0x61, 0x62, 0x61, 0x62] = Some [0x63, 0x63]
    \<and> replace_loop [0x61] [0x61, 0x62] [0x61] = None"
  using replace_CSreplace [of "[0x61, 0x62]" "[0x61, 0x62, 0x61, 0x62]" "[0x63]" 1]
    replace_CSreplace [of "[0x61]" "[0x61]" "[0x61, 0x62]" 1] by (simp add: contains_def)


end
