(* ===== verification/Cipher.thy ===== *)
theory Cipher
  imports Prelude
begin

text \<open>
  The interfaces of the ciphers. \<open>feistel\<close> is what a round needs of its function and of its exclusive
  or for the rounds to be undone by the same rounds with the keys in reverse order; \<open>block_cipher\<close> is
  the contract of one DES (two operations that undo each other on well-formed blocks under a
  well-formed key), and \<open>ede\<close> proves from it what the triple constructions of the sources promise.
  The repository carries four DES implementations; each interprets these locales on its own
  definitions.
\<close>

section \<open>Feistel rounds\<close>

locale feistel =
  fixes f :: "'k \<Rightarrow> 'h \<Rightarrow> 'h"
    and xr :: "'h \<Rightarrow> 'h \<Rightarrow> 'h"
    and ok :: "'h \<Rightarrow> bool"
    and kok :: "'k \<Rightarrow> bool"
  assumes f_ok: "kok k \<Longrightarrow> ok r \<Longrightarrow> ok (f k r)"
    and xr_ok: "ok a \<Longrightarrow> ok b \<Longrightarrow> ok (xr a b)"
    and xr_undo: "ok a \<Longrightarrow> ok b \<Longrightarrow> xr (xr a b) b = a"
begin

definition round :: "'k \<Rightarrow> 'h \<times> 'h \<Rightarrow> 'h \<times> 'h" where
  "round k lr = (snd lr, xr (fst lr) (f k (snd lr)))"

definition rounds :: "'k list \<Rightarrow> 'h \<times> 'h \<Rightarrow> 'h \<times> 'h" where
  "rounds ks lr = fold round ks lr"

definition flip :: "'h \<times> 'h \<Rightarrow> 'h \<times> 'h" where
  "flip lr = (snd lr, fst lr)"

definition both :: "'h \<times> 'h \<Rightarrow> bool" where
  "both lr \<longleftrightarrow> ok (fst lr) \<and> ok (snd lr)"

lemma flip_flip [simp]: "flip (flip lr) = lr" by (simp add: flip_def)

lemma both_flip [simp]: "both (flip lr) \<longleftrightarrow> both lr" by (auto simp: flip_def both_def)

lemma round_both: "kok k \<Longrightarrow> both lr \<Longrightarrow> both (round k lr)"
  by (simp add: round_def both_def f_ok xr_ok)

lemma rounds_both: "list_all kok ks \<Longrightarrow> both lr \<Longrightarrow> both (rounds ks lr)"
  by (induction ks arbitrary: lr) (simp_all add: rounds_def round_both)

lemma round_undo: "kok k \<Longrightarrow> both lr \<Longrightarrow> round k (flip (round k lr)) = flip lr"
  by (cases lr) (simp add: round_def flip_def both_def f_ok xr_undo)

lemma rounds_undo: "list_all kok ks \<Longrightarrow> both lr \<Longrightarrow> rounds (rev ks) (flip (rounds ks lr)) = flip lr"
proof (induction ks arbitrary: lr)
  case (Cons k ks)
  then have "rounds (rev ks) (flip (rounds ks (round k lr))) = flip (round k lr)"
    by (simp add: round_both)
  then have "rounds (rev (k # ks)) (flip (rounds (k # ks) lr)) = round k (flip (round k lr))"
    by (simp add: rounds_def)
  with Cons.prems show ?case by (simp add: round_undo)
qed (simp add: rounds_def)

end

section \<open>Block ciphers and the encrypt-decrypt-encrypt construction\<close>

locale block_cipher =
  fixes enc dec :: "'k \<Rightarrow> 'b \<Rightarrow> 'b"
    and kok :: "'k \<Rightarrow> bool"
    and ok :: "'b \<Rightarrow> bool"
  assumes enc_ok: "kok k \<Longrightarrow> ok b \<Longrightarrow> ok (enc k b)"
    and dec_ok: "kok k \<Longrightarrow> ok b \<Longrightarrow> ok (dec k b)"
    and dec_enc: "kok k \<Longrightarrow> ok b \<Longrightarrow> dec k (enc k b) = b"
    and enc_dec: "kok k \<Longrightarrow> ok b \<Longrightarrow> enc k (dec k b) = b"
begin

lemma enc_inj: "kok k \<Longrightarrow> ok a \<Longrightarrow> ok b \<Longrightarrow> enc k a = enc k b \<Longrightarrow> a = b"
  by (metis dec_enc)

end

text \<open>The triple construction: encrypt, decrypt, encrypt with the keys 1, 2, 3; it is undone by
  decrypt, encrypt, decrypt with the keys 3, 2, 1.\<close>

locale ede = block_cipher enc dec kok ok
  for enc dec :: "'k \<Rightarrow> 'b \<Rightarrow> 'b" and kok :: "'k \<Rightarrow> bool" and ok :: "'b \<Rightarrow> bool"
begin

definition ede_enc :: "'k \<Rightarrow> 'k \<Rightarrow> 'k \<Rightarrow> 'b \<Rightarrow> 'b" where
  "ede_enc k1 k2 k3 b = enc k3 (dec k2 (enc k1 b))"

definition ede_dec :: "'k \<Rightarrow> 'k \<Rightarrow> 'k \<Rightarrow> 'b \<Rightarrow> 'b" where
  "ede_dec k1 k2 k3 b = dec k1 (enc k2 (dec k3 b))"

lemma ede_ok: "kok k1 \<Longrightarrow> kok k2 \<Longrightarrow> kok k3 \<Longrightarrow> ok b \<Longrightarrow> ok (ede_enc k1 k2 k3 b) \<and> ok (ede_dec k1 k2 k3 b)"
  by (simp add: ede_enc_def ede_dec_def enc_ok dec_ok)

lemma ede_dec_enc: "kok k1 \<Longrightarrow> kok k2 \<Longrightarrow> kok k3 \<Longrightarrow> ok b \<Longrightarrow> ede_dec k1 k2 k3 (ede_enc k1 k2 k3 b) = b"
  by (simp add: ede_enc_def ede_dec_def enc_ok dec_ok dec_enc enc_dec)

lemma ede_enc_dec: "kok k1 \<Longrightarrow> kok k2 \<Longrightarrow> kok k3 \<Longrightarrow> ok b \<Longrightarrow> ede_enc k1 k2 k3 (ede_dec k1 k2 k3 b) = b"
  by (simp add: ede_enc_def ede_dec_def enc_ok dec_ok dec_enc enc_dec)

lemma ede_single: "kok k \<Longrightarrow> ok b \<Longrightarrow> ede_enc k k k b = enc k b"
  by (simp add: ede_enc_def enc_ok dec_enc)

end

sublocale ede \<subseteq> triple: block_cipher
  "\<lambda>(k1, k2, k3). ede_enc k1 k2 k3" "\<lambda>(k1, k2, k3). ede_dec k1 k2 k3"
  "\<lambda>(k1, k2, k3). kok k1 \<and> kok k2 \<and> kok k3" ok
  by unfold_locales (auto simp: ede_ok ede_dec_enc ede_enc_dec)

section \<open>Bit vectors\<close>

text \<open>The bit arrays of the sources hold 0 and 1 in a \<open>char\<close> each.\<close>

type_synonym bits = "nat list"

definition is_bits :: "nat \<Rightarrow> bits \<Rightarrow> bool" where
  "is_bits n d \<longleftrightarrow> length d = n \<and> list_all (\<lambda>b. b \<le> 1) d"

definition bit_xor :: "nat \<Rightarrow> nat \<Rightarrow> nat" where
  "bit_xor a b = (if a + b = 1 then 1 else 0)"

definition bits_xor :: "bits \<Rightarrow> bits \<Rightarrow> bits" where
  "bits_xor a b = map2 bit_xor a b"

lemma is_bits_len: "is_bits n d \<Longrightarrow> length d = n" by (simp add: is_bits_def)

lemma is_bits_nth: "is_bits n d \<Longrightarrow> i < n \<Longrightarrow> d ! i \<le> 1"
  by (simp add: is_bits_def list_all_length)

lemma is_bits_append: "is_bits m a \<Longrightarrow> is_bits n b \<Longrightarrow> is_bits (m + n) (a @ b)"
  by (simp add: is_bits_def)

lemma is_bits_take: "is_bits n d \<Longrightarrow> m \<le> n \<Longrightarrow> is_bits m (take m d)"
  by (auto simp: is_bits_def list_all_iff dest: in_set_takeD)

lemma is_bits_drop: "is_bits n d \<Longrightarrow> is_bits (n - m) (drop m d)"
  by (auto simp: is_bits_def list_all_iff dest: in_set_dropD)

lemma bits_xor_ok: "is_bits n a \<Longrightarrow> is_bits n b \<Longrightarrow> is_bits n (bits_xor a b)"
  by (auto simp: is_bits_def bits_xor_def list_all_iff bit_xor_def)

lemma bits_xor_undo: "is_bits n a \<Longrightarrow> is_bits n b \<Longrightarrow> bits_xor (bits_xor a b) b = a"
proof (rule nth_equalityI)
  assume a: "is_bits n a" and b: "is_bits n b"
  show "length (bits_xor (bits_xor a b) b) = length a"
    using a b by (simp add: bits_xor_def is_bits_def)
  fix i assume "i < length (bits_xor (bits_xor a b) b)"
  then have i: "i < n" using a b by (simp add: bits_xor_def is_bits_def)
  have "a ! i \<le> 1" "b ! i \<le> 1" using a b i is_bits_nth by blast+
  then show "bits_xor (bits_xor a b) b ! i = a ! i"
    using a b i by (auto simp: bits_xor_def bit_xor_def is_bits_def le_Suc_eq)
qed

lemma is_bits_map: "(\<And>i. i < n \<Longrightarrow> g i \<le> 1) \<Longrightarrow> is_bits n (map g [0..<n])"
  by (simp add: is_bits_def list_all_iff)

end
