(* ===== verification/Des.thy ===== *)
theory Des
  imports Cipher Tools
begin

text \<open>
  The DES of \<open>src/CTSI/Des.cpp\<close> (class \<open>CDes\<close>): the tables, the bit permutations on 64-place
  arrays, the key schedule by left or right rotation, the 16 rounds, the conversions between
  hexadecimal text and bits, the triple constructions, the MAC and the password routines. A bit is
  0 or 1 in one array place, as in the source.
\<close>

unbundle bit_operations_syntax

section \<open>Tables\<close>

definition IP_Tr :: "nat list" where
  "IP_Tr =
     [58, 50, 42, 34, 26, 18, 10, 2, 60, 52, 44, 36, 28, 20, 12, 4, 62, 54, 46, 38, 30, 22,
      14, 6, 64, 56, 48, 40, 32, 24, 16, 8, 57, 49, 41, 33, 25, 17, 9, 1, 59, 51, 43, 35,
      27, 19, 11, 3, 61, 53, 45, 37, 29, 21, 13, 5, 63, 55, 47, 39, 31, 23, 15, 7]"

definition IP_1_Tr :: "nat list" where
  "IP_1_Tr =
     [40, 8, 48, 16, 56, 24, 64, 32, 39, 7, 47, 15, 55, 23, 63, 31, 38, 6, 46, 14, 54, 22,
      62, 30, 37, 5, 45, 13, 53, 21, 61, 29, 36, 4, 44, 12, 52, 20, 60, 28, 35, 3, 43, 11,
      51, 19, 59, 27, 34, 2, 42, 10, 50, 18, 58, 26, 33, 1, 41, 9, 49, 17, 57, 25]"

definition Etr :: "nat list" where
  "Etr =
     [32, 1, 2, 3, 4, 5, 4, 5, 6, 7, 8, 9, 8, 9, 10, 11, 12, 13, 12, 13, 14, 15, 16, 17,
      16, 17, 18, 19, 20, 21, 20, 21, 22, 23, 24, 25, 24, 25, 26, 27, 28, 29, 28, 29, 30,
      31, 32, 1]"

definition PC_1_Tr :: "nat list" where
  "PC_1_Tr =
     [57, 49, 41, 33, 25, 17, 9, 1, 58, 50, 42, 34, 26, 18, 10, 2, 59, 51, 43, 35, 27, 19,
      11, 3, 60, 52, 44, 36, 63, 55, 47, 39, 31, 23, 15, 7, 62, 54, 46, 38, 30, 22, 14, 6,
      61, 53, 45, 37, 29, 21, 13, 5, 28, 20, 12, 4]"

definition PC_2_Tr :: "nat list" where
  "PC_2_Tr =
     [14, 17, 11, 24, 1, 5, 3, 28, 15, 6, 21, 10, 23, 19, 12, 4, 26, 8, 16, 7, 27, 20, 13,
      2, 41, 52, 31, 37, 47, 55, 30, 40, 51, 45, 33, 48, 44, 49, 39, 56, 34, 53, 46, 42,
      50, 36, 29, 32]"

definition P_Tr :: "nat list" where
  "P_Tr =
     [16, 7, 20, 21, 29, 12, 28, 17, 1, 15, 23, 26, 5, 18, 31, 10, 2, 8, 24, 14, 32, 27, 3,
      9, 19, 13, 30, 6, 22, 11, 4, 25]"

definition Left_move :: "nat list" where
  "Left_move =
     [1, 1, 2, 2, 2, 2, 2, 2, 1, 2, 2, 2, 2, 2, 2, 1]"

definition right_move :: "nat list" where
  "right_move =
     [0, 1, 2, 2, 2, 2, 2, 2, 1, 2, 2, 2, 2, 2, 2, 1]"

definition swap_Tr :: "nat list" where
  "swap_Tr =
     [33, 34, 35, 36, 37, 38, 39, 40, 41, 42, 43, 44, 45, 46, 47, 48, 49, 50, 51, 52, 53,
      54, 55, 56, 57, 58, 59, 60, 61, 62, 63, 64, 1, 2, 3, 4, 5, 6, 7, 8, 9, 10, 11, 12,
      13, 14, 15, 16, 17, 18, 19, 20, 21, 22, 23, 24, 25, 26, 27, 28, 29, 30, 31, 32]"

definition SB :: "nat list list" where
  "SB =
    [[14, 4, 13, 1, 2, 15, 11, 8, 3, 10, 6, 12, 5, 9, 0, 7, 0, 15, 7, 4, 14, 2, 13, 1, 10,
      6, 12, 11, 9, 5, 3, 8, 4, 1, 14, 8, 13, 6, 2, 11, 15, 12, 9, 7, 3, 10, 5, 0, 15, 12,
      8, 2, 4, 9, 1, 7, 5, 11, 3, 14, 10, 0, 6, 13],
     [15, 1, 8, 14, 6, 11, 3, 4, 9, 7, 2, 13, 12, 0, 5, 10, 3, 13, 4, 7, 15, 2, 8, 14, 12,
      0, 1, 10, 6, 9, 11, 5, 0, 14, 7, 11, 10, 4, 13, 1, 5, 8, 12, 6, 9, 3, 2, 15, 13, 8,
      10, 1, 3, 15, 4, 2, 11, 6, 7, 12, 0, 5, 14, 9],
     [10, 0, 9, 14, 6, 3, 15, 5, 1, 13, 12, 7, 11, 4, 2, 8, 13, 7, 0, 9, 3, 4, 6, 10, 2, 8,
      5, 14, 12, 11, 15, 1, 13, 6, 4, 9, 8, 15, 3, 0, 11, 1, 2, 12, 5, 10, 14, 7, 1, 10,
      13, 0, 6, 9, 8, 7, 4, 15, 14, 3, 11, 5, 2, 12],
     [7, 13, 14, 3, 0, 6, 9, 10, 1, 2, 8, 5, 11, 12, 4, 15, 13, 8, 11, 5, 6, 15, 0, 3, 4,
      7, 2, 12, 1, 10, 14, 9, 10, 6, 9, 0, 12, 11, 7, 13, 15, 1, 3, 14, 5, 2, 8, 4, 3, 15,
      0, 6, 10, 1, 13, 8, 9, 4, 5, 11, 12, 7, 2, 14],
     [2, 12, 4, 1, 7, 10, 11, 6, 8, 5, 3, 15, 13, 0, 14, 9, 14, 11, 2, 12, 4, 7, 13, 1, 5,
      0, 15, 10, 3, 9, 8, 6, 4, 2, 1, 11, 10, 13, 7, 8, 15, 9, 12, 5, 6, 3, 0, 14, 11, 8,
      12, 7, 1, 14, 2, 13, 6, 15, 0, 9, 10, 4, 5, 3],
     [12, 1, 10, 15, 9, 2, 6, 8, 0, 13, 3, 4, 14, 7, 5, 11, 10, 15, 4, 2, 7, 12, 9, 5, 6,
      1, 13, 14, 0, 11, 3, 8, 9, 14, 15, 5, 2, 8, 12, 3, 7, 0, 4, 10, 1, 13, 11, 6, 4, 3,
      2, 12, 9, 5, 15, 10, 11, 14, 1, 7, 6, 0, 8, 13],
     [4, 11, 2, 14, 15, 0, 8, 13, 3, 12, 9, 7, 5, 10, 6, 1, 13, 0, 11, 7, 4, 9, 1, 10, 14,
      3, 5, 12, 2, 15, 8, 6, 1, 4, 11, 13, 12, 3, 7, 14, 10, 15, 6, 8, 0, 5, 9, 2, 6, 11,
      13, 8, 1, 4, 10, 7, 9, 5, 0, 15, 14, 2, 3, 12],
     [13, 2, 8, 4, 6, 15, 11, 1, 10, 9, 3, 14, 5, 0, 12, 7, 1, 15, 13, 8, 10, 3, 7, 4, 12,
      5, 6, 11, 0, 14, 9, 2, 7, 11, 4, 1, 9, 12, 14, 2, 0, 6, 10, 13, 15, 3, 5, 8, 2, 1,
      14, 7, 4, 10, 8, 13, 15, 12, 9, 0, 3, 5, 6, 11]]"

section \<open>Permutations and rotations\<close>

text \<open>\<open>transpose\<close> writes the first \<open>n\<close> places from a copy of the array; the places behind them stay.\<close>

definition transpose_bits :: "nat list \<Rightarrow> nat \<Rightarrow> bits \<Rightarrow> bits" where
  "transpose_bits matrix n d = map (\<lambda>i. d ! (matrix ! i - 1)) [0..<n] @ drop n d"

text \<open>The key array: places 0 to 27 and 28 to 55 rotate separately, 56 to 63 keep what they hold.\<close>

definition leftmove :: "bits \<Rightarrow> bits" where
  "leftmove key = map (\<lambda>i. if i = 27 then key ! 0 else if i = 55 then key ! 28
      else if i < 55 then key ! (i + 1) else key ! i) [0..<64]"

definition rightmove :: "bits \<Rightarrow> bits" where
  "rightmove key = map (\<lambda>i. if i = 0 then key ! 27 else if i = 28 then key ! 55
      else if i \<le> 55 then key ! (i - 1) else key ! i) [0..<64]"

section \<open>One round\<close>

definition sbox_index :: "bits \<Rightarrow> nat \<Rightarrow> nat" where
  "sbox_index tem j = 32 * tem ! (6 * j - 6) + 16 * tem ! (6 * j - 1) + 8 * tem ! (6 * j - 5)
     + 4 * tem ! (6 * j - 4) + 2 * tem ! (6 * j - 3) + tem ! (6 * j - 2)"

definition nibble_bits :: "nat \<Rightarrow> bits" where
  "nibble_bits v = [v div 8 mod 2, v div 4 mod 2, v div 2 mod 2, v mod 2]"

text \<open>\<open>des_f\<close> behind the key rotation: expansion, exclusive or with the permuted key, the eight boxes,
  the permutation P. \<open>r_f\<close> is returned as its 32 meaningful places.\<close>

definition des_core :: "bits \<Rightarrow> bits \<Rightarrow> bits" where
  "des_core key ri = (let tem_data = transpose_bits Etr 48 ri;
       tem_key = transpose_bits PC_2_Tr 48 key;
       tem = bits_xor (take 48 tem_data) (take 48 tem_key);
       r_f = concat (map (\<lambda>j. nibble_bits (SB ! (j - 1) ! sbox_index tem j)) [1..<9]) in
     transpose_bits P_Tr 32 r_f)"

definition move_key :: "nat \<Rightarrow> nat \<Rightarrow> bits \<Rightarrow> bits" where
  "move_key mode i key = (if mode = 1 then (leftmove ^^ (Left_move ! i)) key
     else (rightmove ^^ (right_move ! i)) key)"

definition des_f :: "nat \<Rightarrow> bits \<Rightarrow> bits \<Rightarrow> nat \<Rightarrow> bits \<times> bits" where
  "des_f i ri_1 key mode = (let key' = move_key mode i key in (des_core key' ri_1, key'))"

definition des_round :: "nat \<Rightarrow> nat \<Rightarrow> bits \<times> bits \<Rightarrow> bits \<times> bits" where
  "des_round mode i st = (let (tb, place_key) = st;
       ta = drop 32 tb @ drop 32 tb;
       (txx, place_key') = des_f i ta place_key mode in
     (drop 32 tb @ bits_xor (take 32 tb) txx, place_key'))"

definition des :: "bits \<Rightarrow> bits \<Rightarrow> nat \<Rightarrow> bits" where
  "des plaintext key mode = (let ta = transpose_bits IP_Tr 64 plaintext;
       place_key = transpose_bits PC_1_Tr 56 key;
       (ta, _) = fold (des_round mode) [0..<16] (ta, place_key) in
     transpose_bits IP_1_Tr 64 (transpose_bits swap_Tr 64 ta))"

section \<open>Text and bits\<close>

text \<open>\<open>inputtobin\<close>: the value \<open>k\<close> of a character that is neither a digit nor a letter is the one of the
  character before; at the first place it is uninitialised (\<open>None\<close>).\<close>

definition char_value :: "byte \<Rightarrow> nat option \<Rightarrow> nat option" where
  "char_value c k =
    (if c <=s 57 \<and> 48 <=s c then Some (unat c - 48)
     else if c <=s 90 \<and> 65 <=s c then Some (unat c - 55)
     else if c <=s 122 \<and> 97 <=s c then Some (unat c - 87)
     else k)"

fun bin_loop :: "bytes \<Rightarrow> nat option \<Rightarrow> bits option" where
  "bin_loop [] k = Some []"
| "bin_loop (c # r) k = (case char_value c k of None \<Rightarrow> None
     | Some v \<Rightarrow> map_option (\<lambda>d. nibble_bits v @ d) (bin_loop r (Some v)))"

definition inputtobin :: "bytes \<Rightarrow> bits option" where
  "inputtobin inputstr = do { s \<leftarrow> copy_at 0 16 inputstr; bin_loop s None }"

definition nibble_char :: "nat \<Rightarrow> byte" where
  "nibble_char vv = (if vv < 10 then word_of_nat (vv + 48) else word_of_nat (vv + 55))"

definition outtostr :: "bits \<Rightarrow> bytes" where
  "outtostr pin = map (\<lambda>i. nibble_char (8 * pin ! (4 * i) + 4 * pin ! (4 * i + 1)
     + 2 * pin ! (4 * i + 2) + pin ! (4 * i + 3))) [0..<16]"

text \<open>The final NUL of \<open>outtostr\<close> is not part of the value: every caller copies 16 characters or reads
  a buffer it has cleared.\<close>

definition GetDesOutput :: "bytes \<Rightarrow> bytes \<Rightarrow> bytes option" where
  "GetDesOutput data key = do {
     d \<leftarrow> inputtobin data; k \<leftarrow> inputtobin key; Some (outtostr (des d k 1)) }"

definition GetDesInput :: "bytes \<Rightarrow> bytes \<Rightarrow> bytes option" where
  "GetDesInput data key = do {
     d \<leftarrow> inputtobin data; k \<leftarrow> inputtobin key; Some (outtostr (des d k 0)) }"

section \<open>The triple constructions\<close>

text \<open>The result is \<open>Inl\<close> of the return value -1, or the text written; \<open>None\<close> is an access outside a
  buffer, e.g. a key of 16 characters, whose second half is read all the same.\<close>

definition key_parts :: "bytes \<Rightarrow> (bytes \<times> bytes \<times> bytes) option" where
  "key_parts key = do {
     key1 \<leftarrow> copy_at 0 16 key;
     key2 \<leftarrow> copy_at 16 16 key;
     key3 \<leftarrow> (if strlen key \<ge> 48 then copy_at 32 16 key else copy_at 0 16 key);
     Some (key1, key2, key3)
   }"

fun map_blocks :: "(bytes \<Rightarrow> bytes option) \<Rightarrow> nat \<Rightarrow> bytes \<Rightarrow> bytes option" where
  "map_blocks g 0 data = Some []"
| "map_blocks g (Suc n) data = do {
     b \<leftarrow> copy_at 0 16 data; c \<leftarrow> g b; r \<leftarrow> map_blocks g n (drop 16 data); Some (c @ r) }"

definition triple :: "(bytes \<Rightarrow> bytes \<Rightarrow> bytes \<Rightarrow> bytes \<Rightarrow> bytes option) \<Rightarrow> bytes \<Rightarrow> bytes \<Rightarrow> (int + bytes) option" where
  "triple g key data = (let data_len = strlen data in
     if data_len mod 16 \<noteq> 0 \<or> strlen key < 16 then Some (Inl (- 1))
     else do {
       (key1, key2, key3) \<leftarrow> key_parts key;
       out \<leftarrow> map_blocks (g key1 key2 key3) (data_len div 16) data;
       Some (Inr out)
     })"

definition TripleDesEncrypt :: "bytes \<Rightarrow> bytes \<Rightarrow> (int + bytes) option" where
  "TripleDesEncrypt = triple (\<lambda>key1 key2 key3 b. do {
     t1 \<leftarrow> GetDesOutput b key1; t2 \<leftarrow> GetDesInput t1 key2; GetDesOutput t2 key3 })"

definition TripleDesDec :: "bytes \<Rightarrow> bytes \<Rightarrow> (int + bytes) option" where
  "TripleDesDec = triple (\<lambda>key1 key2 key3 b. do {
     t1 \<leftarrow> GetDesInput b key1; t2 \<leftarrow> GetDesOutput t1 key2; GetDesInput t2 key3 })"

definition TripleDesDecrypt :: "bytes \<Rightarrow> bytes \<Rightarrow> (int + bytes) option" where
  "TripleDesDecrypt = triple (\<lambda>key1 key2 key3 b. do {
     t1 \<leftarrow> GetDesInput b key3; t2 \<leftarrow> GetDesOutput t1 key2; GetDesInput t2 key1 })"

section \<open>The permutations undo each other\<close>

lemma transpose_len [simp]: "length d = m \<Longrightarrow> n \<le> m \<Longrightarrow> length (transpose_bits t n d) = m"
  by (simp add: transpose_bits_def)

lemma transpose_nth: "i < n \<Longrightarrow> transpose_bits t n d ! i = d ! (t ! i - 1)"
  by (simp add: transpose_bits_def nth_append)

lemma transpose_full_bits:
  assumes "is_bits 64 d" "list_all (\<lambda>j. 0 < j \<and> j \<le> 64) t" "length t = 64"
  shows "is_bits 64 (transpose_bits t 64 d)"
proof -
  have "d ! (t ! i - 1) \<le> 1" if "i < 64" for i
    using assms that is_bits_nth [of 64 d "t ! i - 1"] by (auto simp: list_all_length)
  moreover have "drop 64 d = []" using assms(1) by (simp add: is_bits_len)
  ultimately show ?thesis by (simp add: transpose_bits_def is_bits_map)
qed

lemma transpose_compose:
  assumes "length d = 64" "list_all (\<lambda>i. t2 ! i - 1 < 64 \<and> t1 ! (t2 ! i - 1) - 1 = i) [0..<64]"
  shows "transpose_bits t2 64 (transpose_bits t1 64 d) = d"
proof (rule nth_equalityI)
  show "length (transpose_bits t2 64 (transpose_bits t1 64 d)) = length d" using assms(1) by simp
  fix i assume "i < length (transpose_bits t2 64 (transpose_bits t1 64 d))"
  then have "i < 64" using assms(1) by simp
  with assms(2) show "transpose_bits t2 64 (transpose_bits t1 64 d) ! i = d ! i"
    by (auto simp: transpose_nth list_all_iff)
qed

lemma IP_tables:
  "list_all (\<lambda>i. IP_1_Tr ! i - 1 < 64 \<and> IP_Tr ! (IP_1_Tr ! i - 1) - 1 = i) [0..<64]"
  "list_all (\<lambda>i. IP_Tr ! i - 1 < 64 \<and> IP_1_Tr ! (IP_Tr ! i - 1) - 1 = i) [0..<64]"
  "list_all (\<lambda>j. 0 < j \<and> j \<le> 64) IP_Tr \<and> length IP_Tr = 64"
  "list_all (\<lambda>j. 0 < j \<and> j \<le> 64) IP_1_Tr \<and> length IP_1_Tr = 64"
  by code_simp+

lemmas IP_1_IP = transpose_compose [OF _ IP_tables(1)]
lemmas IP_IP_1 = transpose_compose [OF _ IP_tables(2)]

lemma swap_table: "swap_Tr = map (\<lambda>i. i + 33) [0..<32] @ map (\<lambda>i. i + 1) [0..<32]"
  by code_simp

lemma swap_halves:
  assumes "length l = 32" "length r = 32"
  shows "transpose_bits swap_Tr 64 (l @ r) = r @ l"
proof (rule nth_equalityI)
  show "length (transpose_bits swap_Tr 64 (l @ r)) = length (r @ l)" using assms by simp
  fix i assume "i < length (transpose_bits swap_Tr 64 (l @ r))"
  then have "i < 64" using assms by simp
  then show "transpose_bits swap_Tr 64 (l @ r) ! i = (r @ l) ! i"
    using assms by (auto simp: transpose_nth swap_table nth_append)
qed

lemma leftmove_len [simp]: "length (leftmove k) = 64" by (simp add: leftmove_def)
lemma rightmove_len [simp]: "length (rightmove k) = 64" by (simp add: rightmove_def)

lemma leftmove_rotate:
  assumes "length c = 28" "length d = 28" "length t = 8"
  shows "leftmove (c @ d @ t) = rotate1 c @ rotate1 d @ t"
proof (rule nth_equalityI)
  fix i assume "i < length (leftmove (c @ d @ t))"
  then have i: "i < 64" by simp
  show "leftmove (c @ d @ t) ! i = (rotate1 c @ rotate1 d @ t) ! i"
  proof (cases "28 \<le> i \<and> i < 55")
    case True
    define j where "j = i - 28"
    then have "i = 28 + j" "j < 27" using True by linarith+
    then show ?thesis using assms by (simp add: leftmove_def nth_append nth_rotate1)
  next
    case False
    then consider "i < 27" | "i = 27" | "i = 55" | "56 \<le> i" by linarith
    then show ?thesis
      using i assms by cases (simp_all add: leftmove_def nth_append nth_rotate1)
  qed
qed (simp add: assms)

lemma leftmove_pow:
  assumes "length c = 28" "length d = 28" "length t = 8"
  shows "(leftmove ^^ n) (c @ d @ t) = rotate n c @ rotate n d @ t"
  using assms by (induction n) (simp_all add: leftmove_rotate)

lemma key_split: "length k = 64 \<Longrightarrow> \<exists>c d t. k = c @ d @ t \<and> length c = 28 \<and> length d = 28 \<and> length t = 8"
proof -
  assume k: "length k = 64"
  have "k = take 28 k @ drop 28 k" by simp
  also have "drop 28 k = take 28 (drop 28 k) @ drop 28 (drop 28 k)" by (rule append_take_drop_id [symmetric])
  finally have "k = take 28 k @ take 28 (drop 28 k) @ drop 28 (drop 28 k)" .
  then show ?thesis using k
    by (intro exI [of _ "take 28 k"] exI [of _ "take 28 (drop 28 k)"] exI [of _ "drop 28 (drop 28 k)"]) simp
qed

lemma leftmove_28: "length k = 64 \<Longrightarrow> (leftmove ^^ 28) k = k"
  using key_split [of k] by (auto simp: leftmove_pow rotate_id)

lemma right_left: "length k = 64 \<Longrightarrow> rightmove (leftmove k) = k"
proof (rule nth_equalityI)
  fix i assume k: "length k = 64" and "i < length (rightmove (leftmove k))"
  then have i: "i < 64" by simp
  consider "i = 0" | "0 < i \<and> i < 28" | "i = 28" | "28 < i \<and> i \<le> 55" | "56 \<le> i" by linarith
  then show "rightmove (leftmove k) ! i = k ! i"
    using i by cases (auto simp: leftmove_def rightmove_def)
qed simp

lemma left_pow_len: "length k = 64 \<Longrightarrow> length ((leftmove ^^ n) k) = 64"
  by (induction n) simp_all

lemma right_pow_len: "length k = 64 \<Longrightarrow> length ((rightmove ^^ n) k) = 64"
  by (induction n) simp_all

lemma right_left_pow: "length k = 64 \<Longrightarrow> m \<le> n \<Longrightarrow> (rightmove ^^ m) ((leftmove ^^ n) k) = (leftmove ^^ (n - m)) k"
proof (induction m)
  case (Suc m)
  then have "(rightmove ^^ Suc m) ((leftmove ^^ n) k) = rightmove ((leftmove ^^ Suc (n - Suc m)) k)"
    by (simp add: Suc_diff_Suc)
  with Suc show ?case by (simp add: right_left left_pow_len)
qed simp

section \<open>The key schedule\<close>

fun sched :: "nat \<Rightarrow> nat list \<Rightarrow> bits \<Rightarrow> bits list" where
  "sched mode [] key = []"
| "sched mode (i # is) key = (let key' = move_key mode i key in key' # sched mode is key')"

fun psums :: "nat \<Rightarrow> nat list \<Rightarrow> nat list" where
  "psums n [] = []"
| "psums n (x # xs) = (n + x) # psums (n + x) xs"

lemma sched_left: "sched 1 is ((leftmove ^^ n) k) = map (\<lambda>m. (leftmove ^^ m) k) (psums n (map (nth Left_move) is))"
  by (induction "is" arbitrary: n) (simp_all add: move_key_def Let_def funpow_add [symmetric, unfolded o_def, THEN fun_cong] add.commute)

lemma sched_right_from: "length k = 64 \<Longrightarrow> s + sum_list (map (nth right_move) is) \<le> n \<Longrightarrow>
    sched 0 is ((leftmove ^^ (n - s)) k)
      = map (\<lambda>m. (leftmove ^^ (n - m)) k) (psums s (map (nth right_move) is))"
proof (induction "is" arbitrary: s)
  case (Cons i "is")
  have "(rightmove ^^ (right_move ! i)) ((leftmove ^^ (n - s)) k) = (leftmove ^^ (n - (s + right_move ! i))) k"
    using right_left_pow [OF Cons.prems(1), of "right_move ! i" "n - s"] Cons.prems(2) by simp
  then show ?case using Cons.IH [of "s + right_move ! i"] Cons.prems
    by (simp add: move_key_def Let_def)
qed simp

lemma sched_right: "length k = 64 \<Longrightarrow> sum_list (map (nth right_move) is) \<le> n \<Longrightarrow>
    sched 0 is ((leftmove ^^ n) k) = map (\<lambda>m. (leftmove ^^ (n - m)) k) (psums 0 (map (nth right_move) is))"
  using sched_right_from [of k 0 "is" n] by simp

lemma moves: "map ((-) 28) (psums 0 (map (nth right_move) [0..<16])) = rev (psums 0 (map (nth Left_move) [0..<16]))"
  by code_simp

lemma sched_rev:
  assumes "length k = 64"
  shows "sched 0 [0..<16] k = rev (sched 1 [0..<16] k)"
proof -
  have "sum_list (map (nth right_move) [0..<16]) \<le> 28" by code_simp
  from sched_right [OF assms this] have "sched 0 [0..<16] k
      = map (\<lambda>m. (leftmove ^^ m) k) (map ((-) 28) (psums 0 (map (nth right_move) [0..<16])))"
    using leftmove_28 [OF assms] by (simp only: map_map o_def)
  also have "\<dots> = rev (sched 1 [0..<16] ((leftmove ^^ 0) k))"
    unfolding moves sched_left rev_map ..
  finally show ?thesis by simp
qed

section \<open>The cipher\<close>

interpretation cdes: feistel "\<lambda>k r. des_core k (r @ r)" bits_xor "is_bits 32" "\<lambda>k. length k = 64"
proof
  show "is_bits 32 (des_core k (r @ r))" for k r :: bits
  proof -
    let ?v = "\<lambda>j. SB ! (j - 1) ! sbox_index (bits_xor (take 48 (transpose_bits Etr 48 (r @ r))) (take 48 (transpose_bits PC_2_Tr 48 k))) j"
    have len: "length (concat (map (\<lambda>j. nibble_bits (v j)) js)) = 4 * length js" for v js
      by (induction js) (simp_all add: nibble_bits_def)
    have small: "b \<le> 1" if "b \<in> set (concat (map (\<lambda>j. nibble_bits (v j)) js))" for b v js
      using that by (auto simp: nibble_bits_def)
    have P: "list_all (\<lambda>j. 0 < j \<and> j \<le> 32) P_Tr \<and> length P_Tr = 32" by code_simp
    have "is_bits 32 (transpose_bits P_Tr 32 (concat (map (\<lambda>j. nibble_bits (v j)) [1..<9])))" for v
    proof -
      let ?d = "concat (map (\<lambda>j. nibble_bits (v j)) [1..<9])"
      have l: "length ?d = 32" using len [of v "[1..<9]"] by simp
      have "?d ! (P_Tr ! i - 1) \<le> 1" if "i < 32" for i
      proof -
        have "P_Tr ! i - 1 < length ?d" using P that unfolding l by (auto simp: list_all_length)
        from small [OF nth_mem [OF this]] show ?thesis .
      qed
      then have "is_bits 32 (map (\<lambda>i. ?d ! (P_Tr ! i - 1)) [0..<32])" by (rule is_bits_map)
      then show ?thesis using l unfolding transpose_bits_def by simp
    qed
    then show ?thesis unfolding des_core_def Let_def .
  qed
qed (rule bits_xor_ok bits_xor_undo; assumption)+

lemma des_round_feistel:
  assumes "length l = 32" "length r = 32"
  shows "des_round mode i (l @ r, k) = (case cdes.round (move_key mode i k) (l, r) of (l', r') \<Rightarrow> l' @ r', move_key mode i k)"
  using assms by (simp add: des_round_def Let_def des_f_def cdes.round_def)

lemma des_rounds_feistel:
  assumes "is_bits 32 l" "is_bits 32 r" "length k = 64"
  shows "fst (fold (des_round mode) is (l @ r, k)) = (case cdes.rounds (sched mode is k) (l, r) of (l', r') \<Rightarrow> l' @ r')"
  using assms
proof (induction "is" arbitrary: l r k)
  case (Cons i "is")
  let ?k = "move_key mode i k"
  obtain l' r' where lr: "cdes.round ?k (l, r) = (l', r')" by fastforce
  have k: "length ?k = 64" using Cons.prems(3) by (auto simp: move_key_def left_pow_len right_pow_len)
  with Cons.prems have "cdes.both (l', r')" using cdes.round_both [of ?k "(l, r)"] lr by (simp add: cdes.both_def)
  then have "fst (fold (des_round mode) is (l' @ r', ?k)) = (case cdes.rounds (sched mode is ?k) (l', r') of (l', r') \<Rightarrow> l' @ r')"
    using Cons.IH k by (simp add: cdes.both_def)
  then show ?case using Cons.prems lr
    by (simp add: des_round_feistel is_bits_len cdes.rounds_def Let_def)
qed (simp add: cdes.rounds_def)

lemma sched_len: "length k = 64 \<Longrightarrow> list_all (\<lambda>k. length k = 64) (sched mode is k)"
  by (induction "is" arbitrary: k) (simp_all add: Let_def move_key_def left_pow_len right_pow_len)

definition halves :: "bits \<Rightarrow> bits \<times> bits" where
  "halves d = (take 32 d, drop 32 d)"

definition join :: "bits \<times> bits \<Rightarrow> bits" where
  "join lr = fst lr @ snd lr"

lemma join_halves [simp]: "join (halves d) = d" by (simp add: join_def halves_def)

lemma halves_join [simp]: "cdes.both lr \<Longrightarrow> halves (join lr) = lr"
  by (cases lr) (simp add: join_def halves_def cdes.both_def is_bits_len [where n = 32])

lemma both_halves: "is_bits 64 d \<Longrightarrow> cdes.both (halves d)"
  using is_bits_take [of 64 d 32] is_bits_drop [of 64 d 32] by (simp add: cdes.both_def halves_def)

lemma join_bits: "cdes.both lr \<Longrightarrow> is_bits 64 (join lr)"
  using is_bits_append [of 32 "fst lr" 32 "snd lr"] by (simp add: cdes.both_def join_def)

lemma swap_join: "cdes.both lr \<Longrightarrow> transpose_bits swap_Tr 64 (join lr) = join (cdes.flip lr)"
  by (simp add: cdes.both_def join_def cdes.flip_def swap_halves is_bits_len [where n = 32])

lemma des_feistel:
  assumes "is_bits 64 d" "length k = 64"
  shows "des d k mode = transpose_bits IP_1_Tr 64 (join (cdes.flip (cdes.rounds
    (sched mode [0..<16] (transpose_bits PC_1_Tr 56 k)) (halves (transpose_bits IP_Tr 64 d)))))"
proof -
  let ?ip = "transpose_bits IP_Tr 64 d" and ?pk = "transpose_bits PC_1_Tr 56 k"
  have ip: "is_bits 64 ?ip" using assms(1) IP_tables(3) by (simp add: transpose_full_bits)
  have pk: "length ?pk = 64" using assms(2) by simp
  let ?lr = "cdes.rounds (sched mode [0..<16] ?pk) (halves ?ip)"
  have b: "cdes.both (halves ?ip)" by (rule both_halves [OF ip])
  have lr: "cdes.both ?lr" by (rule cdes.rounds_both [OF sched_len [OF pk] b])
  have "fst (fold (des_round mode) [0..<16] (join (halves ?ip), ?pk)) = join ?lr"
    using des_rounds_feistel [of "fst (halves ?ip)" "snd (halves ?ip)" ?pk mode "[0..<16]"] b pk
    by (simp add: cdes.both_def join_def split_beta)
  then have "fst (fold (des_round mode) [0..<16] (?ip, ?pk)) = join ?lr" by simp
  then show ?thesis using swap_join [OF lr] unfolding des_def Let_def by (simp add: split_beta)
qed

lemma des_bits: "is_bits 64 d \<Longrightarrow> length k = 64 \<Longrightarrow> is_bits 64 (des d k mode)"
  unfolding des_feistel
  by (intro transpose_full_bits join_bits)
    (simp_all add: IP_tables transpose_full_bits cdes.rounds_both sched_len both_halves)

lemma des_undo:
  assumes "is_bits 64 d" "length k = 64" "{m, m'} = {0, 1}"
  shows "des (des d k m) k m' = d"
proof -
  let ?ip = "transpose_bits IP_Tr 64 d" and ?pk = "transpose_bits PC_1_Tr 56 k"
  let ?ks = "\<lambda>m. sched m [0..<16] ?pk"
  have ip: "is_bits 64 ?ip" using assms(1) IP_tables(3) by (simp add: transpose_full_bits)
  have pk: "length ?pk = 64" using assms(2) by simp
  have rv: "?ks m' = rev (?ks m)" using sched_rev [OF pk] assms(3) by (auto simp: doubleton_eq_iff)
  let ?lr = "cdes.rounds (?ks m) (halves ?ip)"
  have b: "cdes.both (halves ?ip)" by (rule both_halves [OF ip])
  have lr: "cdes.both ?lr" by (rule cdes.rounds_both [OF sched_len [OF pk] b])
  have J: "is_bits 64 (join (cdes.flip ?lr))" by (intro join_bits) (simp add: lr)
  have "transpose_bits IP_Tr 64 (des d k m) = join (cdes.flip ?lr)"
    unfolding des_feistel [OF assms(1,2)] by (rule IP_IP_1) (rule is_bits_len [OF J])
  then have "des (des d k m) k m' = transpose_bits IP_1_Tr 64 (join (cdes.flip (cdes.rounds (rev (?ks m)) (cdes.flip ?lr))))"
    using des_feistel [OF des_bits [OF assms(1,2), of m] assms(2), of m'] lr rv by simp
  also have "\<dots> = transpose_bits IP_1_Tr 64 ?ip"
    using cdes.rounds_undo [OF sched_len [OF pk] b] by simp
  also have "\<dots> = d" by (rule IP_1_IP) (rule is_bits_len [OF assms(1)])
  finally show ?thesis .
qed
section \<open>Text and bits undo each other\<close>

definition is_upper_hex :: "byte \<Rightarrow> bool" where
  "is_upper_hex c \<longleftrightarrow> c \<in> set (map word_of_nat ([48..<58] @ [65..<71]))"

definition hex_block :: "bytes \<Rightarrow> bool" where
  "hex_block b \<longleftrightarrow> length b = 16 \<and> list_all is_upper_hex b"

definition alnum :: "byte \<Rightarrow> bool" where
  "alnum c \<longleftrightarrow> char_value c None \<noteq> None"

lemma upper_hex_nibble: "is_upper_hex c \<longleftrightarrow> (\<exists>v<16. c = nibble_char v)"
proof -
  have "(map word_of_nat ([48..<58] @ [65..<71]) :: bytes) = map nibble_char [0..<16]" by code_simp
  then show ?thesis unfolding is_upper_hex_def by auto
qed

lemma upper_hex_list: "list_all is_upper_hex s \<longleftrightarrow> (\<exists>vs. s = map nibble_char vs \<and> list_all (\<lambda>v. v < 16) vs)"
proof (induction s)
  case (Cons c s)
  show ?case
  proof
    assume "list_all is_upper_hex (c # s)"
    then have "is_upper_hex c" "list_all is_upper_hex s" by simp_all
    with Cons obtain v vs where "v < 16" "c = nibble_char v" "s = map nibble_char vs" "list_all (\<lambda>v. v < 16) vs"
      unfolding upper_hex_nibble [of c] by blast
    then show "\<exists>vs. c # s = map nibble_char vs \<and> list_all (\<lambda>v. v < 16) vs"
      by (intro exI [of _ "v # vs"]) simp
  next
    assume "\<exists>vs. c # s = map nibble_char vs \<and> list_all (\<lambda>v. v < 16) vs"
    then obtain v vs where "c = nibble_char v" "v < 16" "s = map nibble_char vs" "list_all (\<lambda>v. v < 16) vs"
      by (auto simp: Cons_eq_map_conv)
    with Cons have "is_upper_hex c" "list_all is_upper_hex s" unfolding upper_hex_nibble [of c] by blast+
    then show "list_all is_upper_hex (c # s)" by simp
  qed
qed simp

lemma char_value_nibble: "v < 16 \<Longrightarrow> char_value (nibble_char v) k = Some v"
proof -
  assume v: "v < 16"
  have "list_all (\<lambda>v. char_value (nibble_char v) None = Some v) [0..<16]" by code_simp
  with v have "char_value (nibble_char v) None = Some v" by (auto simp: list_all_iff)
  then show ?thesis by (auto simp: char_value_def split: if_splits)
qed

lemma bin_loop_nibbles: "list_all (\<lambda>v. v < 16) vs \<Longrightarrow>
    bin_loop (map nibble_char vs) k = Some (concat (map nibble_bits vs))"
  by (induction vs arbitrary: k) (simp_all add: char_value_nibble)

lemma bin_loop_alnum: "list_all alnum s \<Longrightarrow> \<exists>d. bin_loop s k = Some d \<and> length d = 4 * length s"
proof (induction s arbitrary: k)
  case (Cons c s)
  then obtain v where "char_value c k = Some v"
    by (auto simp: alnum_def char_value_def split: if_splits)
  with Cons show ?case by (fastforce simp: nibble_bits_def)
qed simp

lemma nibble_bits_value: "(v :: nat) < 16 \<Longrightarrow> 8 * (v div 8 mod 2) + 4 * (v div 4 mod 2) + 2 * (v div 2 mod 2) + v mod 2 = v"
proof -
  assume v: "v < 16"
  have "list_all (\<lambda>v :: nat. 8 * (v div 8 mod 2) + 4 * (v div 4 mod 2) + 2 * (v div 2 mod 2) + v mod 2 = v) [0..<16]"
    by code_simp
  with v show ?thesis by (auto simp: list_all_iff)
qed

lemma mod_2_le: "(v :: nat) mod 2 \<le> Suc 0" by simp

lemma concat_nibbles_nth: "i < length vs \<Longrightarrow> j < 4 \<Longrightarrow> concat (map nibble_bits vs) ! (4 * i + j) = nibble_bits (vs ! i) ! j"
proof (induction vs arbitrary: i)
  case (Cons v vs)
  have l: "length (nibble_bits v) = 4" by (simp add: nibble_bits_def)
  show ?case
  proof (cases i)
    case 0
    with Cons.prems l show ?thesis by (simp add: nth_append)
  next
    case (Suc i')
    with Cons l show ?thesis by (simp add: nth_append)
  qed
qed simp

lemma outtostr_nibbles: "length vs = 16 \<Longrightarrow> list_all (\<lambda>v. v < 16) vs \<Longrightarrow>
    outtostr (concat (map nibble_bits vs)) = map nibble_char vs"
proof (rule nth_equalityI)
  fix i assume vs: "length vs = 16" "list_all (\<lambda>v. v < 16) vs"
    and "i < length (outtostr (concat (map nibble_bits vs)))"
  then have i: "i < 16" by (simp add: outtostr_def)
  then have "concat (map nibble_bits vs) ! (4 * i + j) = nibble_bits (vs ! i) ! j" if "j < 4" for j
    using concat_nibbles_nth vs(1) that by simp
  from this [of 0] this [of 1] this [of 2] this [of 3] i vs
  show "outtostr (concat (map nibble_bits vs)) ! i = map nibble_char vs ! i"
    by (simp add: outtostr_def nibble_bits_def list_all_length nibble_bits_value)
qed (simp add: outtostr_def)

lemma bits_nibbles: "is_bits (4 * n) d \<Longrightarrow> \<exists>vs. d = concat (map nibble_bits vs) \<and> length vs = n \<and> list_all (\<lambda>v. v < 16) vs"
proof (induction n arbitrary: d)
  case 0
  then show ?case by (simp add: is_bits_def)
next
  case (Suc n)
  then obtain a b c e r where d: "d = a # b # c # e # r"
    by (auto simp: is_bits_def length_Suc_conv numeral_eq_Suc)
  with Suc.prems have abce: "a \<le> 1" "b \<le> 1" "c \<le> 1" "e \<le> 1" and r: "is_bits (4 * n) r"
    by (auto simp: is_bits_def)
  from Suc.IH [OF r] obtain vs where vs: "r = concat (map nibble_bits vs)" "length vs = n" "list_all (\<lambda>v. v < 16) vs" by blast
  have "nibble_bits (8 * a + 4 * b + 2 * c + e) = [a, b, c, e]" "8 * a + 4 * b + 2 * c + e < 16"
    using abce by (auto simp: nibble_bits_def le_Suc_eq)
  with vs d show ?case by (intro exI [of _ "(8 * a + 4 * b + 2 * c + e) # vs"]) simp
qed

definition bits_of :: "bytes \<Rightarrow> bits" where
  "bits_of b = (case inputtobin b of Some d \<Rightarrow> d | None \<Rightarrow> [])"

lemma hex_block_bits:
  assumes "hex_block b"
  shows "inputtobin b = Some (bits_of b) \<and> is_bits 64 (bits_of b) \<and> outtostr (bits_of b) = b"
proof -
  from assms obtain vs where vs: "b = map nibble_char vs" "list_all (\<lambda>v. v < 16) vs" and l: "length vs = 16"
    by (auto simp: hex_block_def upper_hex_list)
  have "inputtobin b = Some (concat (map nibble_bits vs))"
    using l by (simp add: inputtobin_def vs(1) bin_loop_nibbles [OF vs(2)])
  moreover have "is_bits 64 (concat (map nibble_bits vs))"
  proof -
    have "is_bits (4 * length vs) (concat (map nibble_bits vs))" for vs
      by (induction vs) (simp_all add: is_bits_def nibble_bits_def mod_2_le)
    from this [of vs] l show ?thesis by simp
  qed
  ultimately show ?thesis using outtostr_nibbles [OF l vs(2)] vs(1) by (simp add: bits_of_def)
qed

lemma outtostr_block:
  assumes "is_bits 64 d"
  shows "hex_block (outtostr d) \<and> bits_of (outtostr d) = d"
proof -
  from assms have "is_bits (4 * 16) d" by simp
  from bits_nibbles [OF this] obtain vs where vs: "d = concat (map nibble_bits vs)" "length vs = 16" "list_all (\<lambda>v. v < 16) vs" by blast
  then have o: "outtostr d = map nibble_char vs" by (simp add: outtostr_nibbles)
  then have "hex_block (outtostr d)" using vs by (auto simp: hex_block_def upper_hex_list)
  moreover have "inputtobin (outtostr d) = Some d"
    using vs unfolding o by (simp add: inputtobin_def bin_loop_nibbles)
  ultimately show ?thesis by (simp add: bits_of_def)
qed

definition des_enc :: "bits \<Rightarrow> bytes \<Rightarrow> bytes" where
  "des_enc k b = outtostr (des (bits_of b) k 1)"

definition des_dec :: "bits \<Rightarrow> bytes \<Rightarrow> bytes" where
  "des_dec k b = outtostr (des (bits_of b) k 0)"

interpretation cdes_text: ede des_enc des_dec "\<lambda>k. length k = 64" hex_block
proof
  show "hex_block (des_enc k b)" if "length k = 64" "hex_block b" for k b
    using that by (simp add: des_enc_def des_dec_def hex_block_bits outtostr_block des_bits)
  show "hex_block (des_dec k b)" if "length k = 64" "hex_block b" for k b
    using that by (simp add: des_enc_def des_dec_def hex_block_bits outtostr_block des_bits)
  show "des_dec k (des_enc k b) = b" if "length k = 64" "hex_block b" for k b
    using that des_undo [of "bits_of b" k 1 0] by (simp add: des_enc_def des_dec_def hex_block_bits outtostr_block des_bits insert_commute)
  show "des_enc k (des_dec k b) = b" if "length k = 64" "hex_block b" for k b
    using that des_undo [of "bits_of b" k 0 1] by (simp add: des_enc_def des_dec_def hex_block_bits outtostr_block des_bits)
qed

section \<open>Whole messages\<close>

lemma hex_no_nul: "list_all is_upper_hex s \<Longrightarrow> no_nul s"
proof -
  have "list_all (\<lambda>c. c \<noteq> 0) (map word_of_nat ([48..<58] @ [65..<71]) :: bytes)" by code_simp
  then show "list_all is_upper_hex s \<Longrightarrow> no_nul s"
    by (auto simp: no_nul_def list_all_iff is_upper_hex_def)
qed

lemma map_blocks_undo:
  assumes "\<And>b. hex_block b \<Longrightarrow> \<exists>c. g b = Some c \<and> hex_block c \<and> g' c = Some b"
    and "length data = 16 * n" "list_all is_upper_hex data"
  shows "\<exists>out. map_blocks g n (data @ r) = Some out \<and> length out = 16 * n \<and> list_all is_upper_hex out
    \<and> (\<forall>r'. map_blocks g' n (out @ r') = Some data)"
  using assms(2,3)
proof (induction n arbitrary: data)
  case (Suc n)
  let ?b = "take 16 data" and ?d = "drop 16 data"
  have b: "hex_block ?b" using Suc.prems by (auto simp: hex_block_def list_all_iff dest: in_set_takeD)
  from assms(1) [OF this] obtain c where c: "g ?b = Some c" "hex_block c" "g' c = Some ?b" by blast
  have "length ?d = 16 * n" "list_all is_upper_hex ?d"
    using Suc.prems by (auto simp: list_all_iff dest: in_set_dropD)
  from Suc.IH [OF this] obtain out where out: "map_blocks g n (?d @ r) = Some out" "length out = 16 * n"
    "list_all is_upper_hex out" "\<forall>r'. map_blocks g' n (out @ r') = Some ?d" by blast
  have l: "length c = 16" using c(2) by (simp add: hex_block_def)
  have "copy_at 0 16 (data @ r) = Some ?b" "drop 16 (data @ r) = ?d @ r"
    using Suc.prems(1) by (simp_all add: copy_at_def)
  then have "map_blocks g (Suc n) (data @ r) = Some (c @ out)" using c(1) out(1) by simp
  moreover have "map_blocks g' (Suc n) ((c @ out) @ r') = Some data" for r'
    using l c(3) out(4) by (simp add: copy_at_def)
  ultimately show ?case using l out c(2) by (intro exI [of _ "c @ out"]) (simp add: hex_block_def)
qed simp

definition good_key :: "bytes \<Rightarrow> bool" where
  "good_key key \<longleftrightarrow> length key \<ge> 32 \<and> no_nul key \<and> list_all alnum key"

lemma good_key_parts:
  assumes "good_key key"
  shows "\<exists>k1 k2 k3. key_parts key = Some (k1, k2, k3) \<and> (length key < 48 \<longrightarrow> k3 = k1)
    \<and> (\<forall>k \<in> {k1, k2, k3}. inputtobin k = Some (bits_of k) \<and> length (bits_of k) = 64)"
proof -
  have part: "inputtobin k = Some (bits_of k) \<and> length (bits_of k) = 64" if "copy_at off 16 key = Some k" for off k
  proof -
    from that have k: "length k = 16" "set k \<subseteq> set key"
      using set_take_subset set_drop_subset by (fastforce simp: copy_at_Some)+
    with assms have "list_all alnum k" by (auto simp: good_key_def list_all_iff)
    from bin_loop_alnum [OF this, of None] obtain d where "bin_loop k None = Some d" "length d = 64" using k by auto
    with k show ?thesis by (simp add: inputtobin_def bits_of_def)
  qed
  have s: "strlen key = length key" using assms by (simp add: good_key_def strlen_id)
  define k3off where "k3off = (if length key \<ge> 48 then 32 else 0 :: nat)"
  have "\<exists>k1 k2 k3. copy_at 0 16 key = Some k1 \<and> copy_at 16 16 key = Some k2 \<and> copy_at k3off 16 key = Some k3"
    using assms by (auto simp: copy_at_def good_key_def k3off_def)
  then obtain k1 k2 k3 where k: "copy_at 0 16 key = Some k1" "copy_at 16 16 key = Some k2" "copy_at k3off 16 key = Some k3"
    by blast
  then have "key_parts key = Some (k1, k2, k3)"
    by (auto simp: key_parts_def s k3off_def split: if_splits)
  moreover have "length key < 48 \<longrightarrow> k3 = k1" using k by (auto simp: k3off_def)
  ultimately show ?thesis using part k by blast
qed

lemma GetDes_text:
  assumes "inputtobin k = Some (bits_of k)" "hex_block b"
  shows "GetDesOutput b k = Some (des_enc (bits_of k) b)" "GetDesInput b k = Some (des_dec (bits_of k) b)"
  using hex_block_bits [OF assms(2)] assms(1) by (simp_all add: GetDesOutput_def GetDesInput_def des_enc_def des_dec_def)

text \<open>One block through the three stages, as the contract of the triple construction names it.\<close>

lemma triple_block:
  assumes "\<forall>k \<in> {k1, k2, k3}. inputtobin k = Some (bits_of k) \<and> length (bits_of k) = 64" "hex_block b"
  shows "do { t1 \<leftarrow> GetDesOutput b k1; t2 \<leftarrow> GetDesInput t1 k2; GetDesOutput t2 k3 }
      = Some (cdes_text.ede_enc (bits_of k1) (bits_of k2) (bits_of k3) b)"
    and "do { t1 \<leftarrow> GetDesInput b k3; t2 \<leftarrow> GetDesOutput t1 k2; GetDesInput t2 k1 }
      = Some (cdes_text.ede_dec (bits_of k1) (bits_of k2) (bits_of k3) b)"
  using assms by (simp_all add: GetDes_text cdes_text.enc_ok cdes_text.dec_ok cdes_text.ede_enc_def cdes_text.ede_dec_def)

lemma triple_roundtrip:
  assumes "good_key key" "list_all is_upper_hex s" "length s = 16 * n"
  shows "\<exists>out. TripleDesEncrypt key (s @ 0 # r) = Some (Inr out) \<and> length out = length s
    \<and> list_all is_upper_hex out \<and> TripleDesDecrypt key (out @ [0]) = Some (Inr s)"
proof -
  from good_key_parts [OF assms(1)] obtain k1 k2 k3 where k: "key_parts key = Some (k1, k2, k3)"
    "\<forall>k \<in> {k1, k2, k3}. inputtobin k = Some (bits_of k) \<and> length (bits_of k) = 64" by blast
  let ?g = "\<lambda>b. do { t1 \<leftarrow> GetDesOutput b k1; t2 \<leftarrow> GetDesInput t1 k2; GetDesOutput t2 k3 }"
  let ?g' = "\<lambda>b. do { t1 \<leftarrow> GetDesInput b k3; t2 \<leftarrow> GetDesOutput t1 k2; GetDesInput t2 k1 }"
  have "\<exists>c. ?g b = Some c \<and> hex_block c \<and> ?g' c = Some b" if "hex_block b" for b
    using that k(2) triple_block [OF k(2)] cdes_text.ede_ok cdes_text.ede_dec_enc by simp
  from map_blocks_undo [where g = ?g and g' = ?g', OF this assms(3,2)] obtain out where out:
    "map_blocks ?g n (s @ 0 # r) = Some out" "length out = 16 * n" "list_all is_upper_hex out"
    "map_blocks ?g' n (out @ [0]) = Some s" by blast
  have "strlen key \<ge> 16" using assms(1) by (simp add: good_key_def strlen_id)
  moreover have "strlen (s @ 0 # r) = 16 * n" "strlen (out @ [0]) = 16 * n"
    using assms(2,3) out(2,3) by (simp_all add: strlen_def cstr_term hex_no_nul)
  ultimately show ?thesis using k(1) out assms(3)
    by (simp add: TripleDesEncrypt_def TripleDesDecrypt_def triple_def)
qed
section \<open>The MAC\<close>

text \<open>The data is folded by exclusive or into eight bytes, as if padded with zeros.\<close>

definition mac_step :: "bytes \<Rightarrow> nat \<Rightarrow> bytes \<Rightarrow> bytes" where
  "mac_step data i mac = mac[i mod 8 := (mac ! (i mod 8)) XOR (data ! i)]"

definition mac_fold :: "bytes \<Rightarrow> nat \<Rightarrow> bytes" where
  "mac_fold data len = fold (mac_step data) [0..<len] (replicate 8 0)"

text \<open>\<open>hkey\<close>, \<open>in\<close> and \<open>out\<close> are 33-character buffers; the text of the key and of the folded data are
  written into the first two with their NUL.\<close>

definition makeMac :: "bytes \<Rightarrow> nat \<Rightarrow> bytes \<Rightarrow> bytes option" where
  "makeMac data len key = do {
     d \<leftarrow> copy_at 0 len data;
     hkey \<leftarrow> byte_to_hex key 16;
     inp \<leftarrow> byte_to_hex (mac_fold d len) 8;
     out \<leftarrow> TripleDesEncrypt hkey inp;
     case out of Inl e \<Rightarrow> None
     | Inr t \<Rightarrow> map_option fst (hex_to_byte (t @ [0]) 16 0)
   }"

section \<open>Passwords\<close>

definition CharToHex :: "byte \<Rightarrow> byte" where
  "CharToHex chr =
    (if 0x30 <=s chr \<and> chr <=s 0x39 then chr - 0x30
     else if 0x41 <=s chr \<and> chr <=s 0x46 then chr - 0x41 + 10
     else if 0x61 <=s chr \<and> chr <=s 0x66 then chr - 0x61 + 10
     else - 1)"

text \<open>The \<open>switch\<close> on the digits: the text \<open>3d\<close> for the digit \<open>d\<close>, nothing for another character.\<close>

definition digit_text :: "byte \<Rightarrow> bytes" where
  "digit_text c = (if is_digit c then [0x33, c] else [])"

definition digit_value :: "byte \<Rightarrow> byte" where
  "digit_value c = (if is_digit c then c - 0x30 else 0)"

definition CharToAsc :: "bytes \<Rightarrow> bytes" where
  "CharToAsc inputstr = (let s = cstr inputstr in
     concat (replicate (8 - length s) [0x30, 0x30])
     @ concat (map (\<lambda>c. if 0x30 \<le> c \<and> c \<le> 0x36 then [0x33, c] else []) s))"

text \<open>Two lower case hexadecimal digits of the exclusive or of the digits; it is below 16, and the
  first digit is 0.\<close>

definition MakeKey :: "bytes \<Rightarrow> bytes" where
  "MakeKey inputstr = (let s = cstr inputstr; x = foldl (\<lambda>a c. a XOR digit_value c) 0 s in
     [0x30, 0x30] @ concat (replicate (6 - length s) [0x30, 0x30]) @ concat (map digit_text s)
     @ [0x30, if x > 9 then x + 0x61 - 10 else x + 0x30])"

text \<open>\<open>MakePass\<close>: the password is extended to eight characters by the end of the card number.\<close>

definition MakePass :: "bytes \<Rightarrow> bytes \<Rightarrow> bytes option" where
  "MakePass DbPass CardNo = (let p = cstr DbPass; c = cstr CardNo; off = length c + length p in
     if length p > 8 \<or> off < 8 then None
     else Some (concat (map digit_text (p @ take (8 - length p) (drop (off - 8) c)))))"

definition hex_word :: "bytes \<Rightarrow> 32 word" where
  "hex_word s = foldl (\<lambda>a c. a * 16 + scast (CharToHex c)) 0 s"

text \<open>\<open>CheckPass\<close> compares the last characters of the decimal text of the two halves' exclusive or with
  the password sent; \<open>UpPass\<close> longer than that text makes it read before \<open>Temp\<close>, and \<open>EncryptedPass\<close>
  has nine places; a key text longer than 16 does not fit into \<open>k[17]\<close>. The result is the return value and \<open>EncryptedPass\<close>.\<close>

definition CheckPass :: "bytes \<Rightarrow> bytes \<Rightarrow> bytes \<Rightarrow> bytes \<Rightarrow> (int \<times> bytes) option" where
  "CheckPass DbPass CardNo key UpPass = do {
     OriPass \<leftarrow> MakePass DbPass CardNo;
     k \<leftarrow> (if length (MakeKey key) > 16 then None else Some (MakeKey key @ [0]));
     Temp \<leftarrow> GetDesOutput (OriPass @ [0]) k;
     let t = dec_digits (unat (hex_word (take 8 Temp) XOR hex_word (drop 8 Temp)));
     let len1 = strlen UpPass;
     if len1 > length t \<or> len1 > 8 then None
     else (let e = drop (length t - len1) t in
       Some (if e = cstr UpPass then 0 else 1, e))
   }"

text \<open>\<open>AsciiToBinary\<close>: -1 at the first character that is no hexadecimal digit, with the bytes stored up
  to there; for an odd length the second character of the last pair is the NUL, which is none.\<close>

fun ascii_pairs :: "bytes \<Rightarrow> (bool \<times> bytes)" where
  "ascii_pairs (a # b # r) =
     (if CharToHex a <s 0 \<or> CharToHex b <s 0 then (False, [])
      else (let (ok, out) = ascii_pairs r in
        (ok, ((push_bit 4 (CharToHex a) AND 0xF0) OR (CharToHex b AND 0x0F)) # out)))"
| "ascii_pairs [a] = (False, [])"
| "ascii_pairs [] = (True, [])"

definition AsciiToBinary :: "bytes \<Rightarrow> int \<times> bytes" where
  "AsciiToBinary asciistr = (let (ok, out) = ascii_pairs (cstr asciistr) in
     (if ok then int (length out) else - 1, out))"

lemma triple_some:
  assumes "key_parts key = Some (k1, k2, k3)" "strlen key \<ge> 16"
  shows "triple g key data = (if strlen data mod 16 \<noteq> 0 then Some (Inl (- 1))
    else map_option Inr (map_blocks (g k1 k2 k3) (strlen data div 16) data))"
  using assms by (cases "map_blocks (g k1 k2 k3) (strlen data div 16) data") (simp_all add: triple_def Let_def)

section \<open>Lemmas on the MAC\<close>

lemma mac_fold_len: "length m = 8 \<Longrightarrow> length (fold (mac_step d) is m) = 8"
  by (induction "is" arbitrary: m) (simp_all add: mac_step_def)

lemma mac_linear: "length m = 8 \<Longrightarrow> length m' = 8 \<Longrightarrow>
    fold (mac_step d) is (map2 (XOR) m m') = map2 (XOR) m (fold (mac_step d) is m')"
proof (induction "is" arbitrary: m m')
  case (Cons i "is")
  have "mac_step d i (map2 (XOR) m m') = map2 (XOR) m (mac_step d i m')"
    using Cons.prems by (intro nth_equalityI) (auto simp: mac_step_def nth_list_update xor.assoc)
  moreover have "length (mac_step d i m') = 8" using Cons.prems by (simp add: mac_step_def)
  ultimately show ?case using Cons by simp
qed simp

lemma mac_shift: "length a mod 8 = 0 \<Longrightarrow>
    fold (mac_step (a @ b)) [length a..<length a + n] m = fold (mac_step b) [0..<n] m"
proof -
  assume "length a mod 8 = 0"
  then have "mac_step (a @ b) (i + length a) = mac_step b i" for i
    by (intro ext) (simp add: mac_step_def nth_append mod_add_eq [symmetric])
  moreover have "[length a..<length a + n] = map (\<lambda>i. i + length a) [0..<n]"
    by (simp add: map_add_upt add.commute)
  ultimately show ?thesis by (simp add: fold_map o_def)
qed

lemma mac_prefix: "n \<le> length a \<Longrightarrow> fold (mac_step (a @ b)) [0..<n] m = fold (mac_step a) [0..<n] m"
  by (rule fold_cong) (auto simp: mac_step_def nth_append)

lemma mac_fold_append:
  assumes "length a mod 8 = 0"
  shows "mac_fold (a @ b) (length (a @ b)) = map2 (XOR) (mac_fold a (length a)) (mac_fold b (length b))"
proof -
  have z: "map2 (XOR) m (replicate 8 0) = m" if "length m = 8" for m :: bytes
    using that by (intro nth_equalityI) simp_all
  have l: "length (mac_fold a (length a)) = 8" unfolding mac_fold_def by (rule mac_fold_len) simp
  have "[0..<length (a @ b)] = [0..<length a] @ [length a..<length a + length b]"
    using upt_add_eq_append [of 0 "length a" "length b"] by simp
  then have "mac_fold (a @ b) (length (a @ b)) = fold (mac_step b) [0..<length b] (mac_fold a (length a))"
    unfolding mac_fold_def by (simp add: mac_shift [OF assms] mac_prefix)
  also have "\<dots> = fold (mac_step b) [0..<length b] (map2 (XOR) (mac_fold a (length a)) (replicate 8 0))"
    by (simp only: z [OF l])
  also have "\<dots> = map2 (XOR) (mac_fold a (length a)) (mac_fold b (length b))"
    unfolding mac_fold_def [of b] by (rule mac_linear) (simp_all add: l)
  finally show ?thesis .
qed

lemma mac_fold_swap:
  assumes "length a mod 8 = 0" "length b mod 8 = 0"
  shows "mac_fold (a @ b) (length (a @ b)) = mac_fold (b @ a) (length (b @ a))"
  unfolding mac_fold_append [OF assms(1)] mac_fold_append [OF assms(2)]
  by (intro nth_equalityI) (simp_all add: xor.commute)

section \<open>Properties\<close>

text \<open>C16: Three-key DES: for every key text of two or three halves of 16 hexadecimal digits or letters and
  every message of whole blocks of upper case hexadecimal digits, \<open>TripleDesEncrypt\<close> returns a message
  of the same length and alphabet, and \<open>TripleDesDecrypt\<close> with the same key returns the original.\<close>

theorem TripleDes_roundtrip:
  assumes "good_key key" "list_all is_upper_hex s" "length s mod 16 = 0"
  shows "\<exists>out. TripleDesEncrypt key (s @ [0]) = Some (Inr out) \<and> length out = length s
    \<and> list_all is_upper_hex out \<and> TripleDesDecrypt key (out @ [0]) = Some (Inr s)"
proof -
  have "length s = 16 * (length s div 16)" using mult_div_mod_eq [of 16 "length s"] assms(3) by simp
  from triple_roundtrip [OF assms(1,2) this, of "[]"] show ?thesis .
qed

theorem TripleDes_roundtrip_witness:
  "\<exists>out. TripleDesEncrypt (replicate 48 0x41) (replicate 32 0x37 @ [0]) = Some (Inr out)
    \<and> length out = length (replicate 32 0x37 :: bytes)
    \<and> list_all is_upper_hex out \<and> TripleDesDecrypt (replicate 48 0x41) (out @ [0]) = Some (Inr (replicate 32 0x37))"
proof (rule TripleDes_roundtrip)
  have "alnum 0x41" "is_upper_hex 0x37" by code_simp+
  then show "good_key (replicate 48 0x41)" "list_all is_upper_hex (replicate 32 0x37)"
    by (simp_all add: good_key_def list_all_iff)
qed simp

text \<open>C27: One DES: decryption with the same key undoes encryption and encryption undoes decryption, on
  every 64-place bit array and for every 64-place key array.\<close>

theorem des_inverse:
  assumes "is_bits 64 d" "length k = 64"
  shows "des (des d k 1) k 0 = d \<and> des (des d k 0) k 1 = d \<and> is_bits 64 (des d k mode)"
  using des_undo [OF assms, of 1 0] des_undo [OF assms, of 0 1] des_bits [OF assms] by (simp add: insert_commute)

theorem des_inverse_witness:
  "des (des (replicate 64 1) (replicate 64 0) 1) (replicate 64 0) 0 = replicate 64 1"
  using des_inverse [of "replicate 64 1" "replicate 64 0"] by (simp add: is_bits_def list_all_iff)

text \<open>\<open>TripleDesDec\<close> takes the keys in encryption order: on a key of three halves it is
  \<open>TripleDesDecrypt\<close> for the key with the outer halves exchanged (so the two differ as the outer halves
  do), and on a key of fewer than 48 characters, where the third half is the first, it is
  \<open>TripleDesDecrypt\<close>.\<close>

theorem TripleDesDec_order:
  assumes "length k1 = 16" "length k2 = 16" "length k3 = 16" "no_nul (k1 @ k2 @ k3)"
  shows "TripleDesDec (k1 @ k2 @ k3) data = TripleDesDecrypt (k3 @ k2 @ k1) data
    \<and> (strlen key < 48 \<longrightarrow> TripleDesDec key data = TripleDesDecrypt key data)"
proof (intro conjI impI)
  have parts: "key_parts (a @ b @ c) = Some (a, b, c) \<and> strlen (a @ b @ c) \<ge> 16"
    if "length a = 16" "length b = 16" "length c = 16" "no_nul (a @ b @ c)" for a b c
    using that by (simp add: key_parts_def copy_at_def strlen_id)
  note p1 = parts [of k1 k2 k3, OF assms] and p2 = parts [of k3 k2 k1, OF assms(3,2,1)]
  have n: "no_nul (k3 @ k2 @ k1)" using assms(4) by simp
  show "TripleDesDec (k1 @ k2 @ k3) data = TripleDesDecrypt (k3 @ k2 @ k1) data"
    unfolding TripleDesDec_def TripleDesDecrypt_def
      triple_some [OF conjunct1 [OF p1] conjunct2 [OF p1]] triple_some [OF conjunct1 [OF p2 [OF n]] conjunct2 [OF p2 [OF n]]] ..
next
  assume s: "strlen key < 48"
  show "TripleDesDec key data = TripleDesDecrypt key data"
  proof (cases "strlen key < 16 \<or> key_parts key = None")
    case True
    then show ?thesis by (auto simp: TripleDesDec_def TripleDesDecrypt_def triple_def Let_def)
  next
    case False
    then obtain a b c where k: "key_parts key = Some (a, b, c)" "strlen key \<ge> 16" by fastforce
    then have "c = a" using s by (auto simp: key_parts_def copy_at_Some split: Option.bind_splits if_splits)
    then show ?thesis unfolding TripleDesDec_def TripleDesDecrypt_def triple_some [OF k] by simp
  qed
qed

theorem TripleDesDec_order_witness:
  "TripleDesDec (replicate 16 0x31 @ replicate 16 0x32 @ replicate 16 0x33) [0x41, 0]
    = TripleDesDecrypt (replicate 16 0x33 @ replicate 16 0x32 @ replicate 16 0x31) [0x41, 0]"
  using TripleDesDec_order [of "replicate 16 0x31" "replicate 16 0x32" "replicate 16 0x33" "[0x41, 0]" "[]"] by simp

text \<open>What the three routines do with unusable input: a message that is not made of whole blocks or a
  key shorter than 16 characters returns -1; a key of 16 to 31 characters is accepted and its second half
  is read outside the buffer.\<close>

theorem TripleDes_errors:
  "(strlen data mod 16 \<noteq> 0 \<or> strlen key < 16 \<longrightarrow>
      (\<forall>op \<in> {TripleDesEncrypt, TripleDesDec, TripleDesDecrypt}. op key data = Some (Inl (- 1))))
   \<and> (strlen data mod 16 = 0 \<and> 16 \<le> strlen key \<and> length key < 32 \<longrightarrow>
      (\<forall>op \<in> {TripleDesEncrypt, TripleDesDec, TripleDesDecrypt}. op key data = None))"
proof -
  have "key_parts key = None" if "length key < 32"
    using that by (auto simp: key_parts_def copy_at_def split: Option.bind_splits)
  then show ?thesis
    by (auto simp: TripleDesEncrypt_def TripleDesDec_def TripleDesDecrypt_def triple_def Let_def)
qed


text \<open>The MAC does not depend on the order of the eight-byte blocks: data whose two parts are whole
  numbers of blocks has the same MAC with the parts exchanged, under every key.\<close>

theorem makeMac_block_order:
  assumes "length a mod 8 = 0" "length b mod 8 = 0"
  shows "makeMac (a @ b) (length (a @ b)) key = makeMac (b @ a) (length (b @ a)) key"
  unfolding makeMac_def copy_at_all [OF refl] Option.bind.bind_lunit mac_fold_swap [OF assms] ..

theorem makeMac_block_order_witness:
  "makeMac (replicate 8 1 @ replicate 16 2) 24 (replicate 16 0) = makeMac (replicate 16 2 @ replicate 8 1) 24 (replicate 16 0)"
  using makeMac_block_order [of "replicate 8 1" "replicate 16 2" "replicate 16 0"] by simp

end
