(* ===== verification/Base64.thy ===== *)
theory Base64
  imports Prelude
begin

text \<open>
  The two base 64 encoders of the repository, \<open>base64_encode\<close> of \<open>src/CTSI/base64.cpp\<close> and
  \<open>CDes::base64\<close> of \<open>src/CTSI/Des.cpp\<close>, and the decoder \<open>base64_decode\<close>. The loops over
  three (four) characters at a time are recursions over the list.
\<close>

unbundle bit_operations_syntax

definition base64_chars :: bytes where
  "base64_chars = map word_of_nat ([65..<91] @ [97..<123] @ [48..<58] @ [43, 47])"

definition b64_char :: "byte \<Rightarrow> byte" where
  "b64_char v = base64_chars ! unat v"

section \<open>base64.cpp\<close>

fun base64_encode :: "bytes \<Rightarrow> bytes" where
  "base64_encode (a # b # c # r) =
     [b64_char (drop_bit 2 (a AND 0xFC)),
      b64_char (push_bit 4 (a AND 0x03) + drop_bit 4 (b AND 0xF0)),
      b64_char (push_bit 2 (b AND 0x0F) + drop_bit 6 (c AND 0xC0)),
      b64_char (c AND 0x3F)] @ base64_encode r"
| "base64_encode [a, b] =
     [b64_char (drop_bit 2 (a AND 0xFC)),
      b64_char (push_bit 4 (a AND 0x03) + drop_bit 4 (b AND 0xF0)),
      b64_char (push_bit 2 (b AND 0x0F) + drop_bit 6 (0 AND 0xC0)), 0x3D]"
| "base64_encode [a] =
     [b64_char (drop_bit 2 (a AND 0xFC)),
      b64_char (push_bit 4 (a AND 0x03) + drop_bit 4 (0 AND 0xF0)), 0x3D, 0x3D]"
| "base64_encode [] = []"

text \<open>\<open>find\<close> gives \<open>npos\<close> for a character outside the alphabet, which is 255 in an unsigned char.\<close>

definition b64_index :: "byte \<Rightarrow> byte" where
  "b64_index c = (case find (\<lambda>i. base64_chars ! i = c) [0..<64] of
     Some i \<Rightarrow> word_of_nat i | None \<Rightarrow> 255)"

definition is_base64 :: "byte \<Rightarrow> bool" where
  "is_base64 c \<longleftrightarrow> (0x30 \<le> c \<and> c \<le> 0x39) \<or> (0x41 \<le> c \<and> c \<le> 0x5A) \<or> (0x61 \<le> c \<and> c \<le> 0x7A)
     \<or> c = 0x2B \<or> c = 0x2F"

definition b64_three :: "byte \<Rightarrow> byte \<Rightarrow> byte \<Rightarrow> byte \<Rightarrow> bytes" where
  "b64_three w x y z = [push_bit 2 w + drop_bit 4 (x AND 0x30),
     push_bit 4 (x AND 0x0F) + drop_bit 2 (y AND 0x3C), push_bit 6 (y AND 0x03) + z]"

fun decode_groups :: "bytes \<Rightarrow> bytes" where
  "decode_groups (a # b # c # d # r) =
     b64_three (b64_index a) (b64_index b) (b64_index c) (b64_index d) @ decode_groups r"
| "decode_groups [] = []"
| "decode_groups s = take (length s - 1) (case map b64_index (take 4 (s @ [0, 0, 0])) of
     [w, x, y, z] \<Rightarrow> b64_three w x y z | _ \<Rightarrow> [])"

definition base64_decode :: "bytes \<Rightarrow> bytes" where
  "base64_decode s = decode_groups (takeWhile (\<lambda>c. c \<noteq> 0x3D \<and> is_base64 c) s)"

section \<open>CDes::base64\<close>

fun cdes_base64 :: "bytes \<Rightarrow> bytes" where
  "cdes_base64 (a # b # c # r) =
     [b64_char (drop_bit 2 a),
      b64_char (push_bit 4 (a AND 0x03) + drop_bit 4 b),
      b64_char (push_bit 2 (b AND 0x0F) + drop_bit 6 c),
      b64_char (c AND 0x3F)] @ cdes_base64 r"
| "cdes_base64 [a, b] =
     [b64_char (drop_bit 2 a), b64_char (push_bit 4 (a AND 0x03) + drop_bit 4 b),
      b64_char (push_bit 2 (b AND 0x0F)), 0x3D]"
| "cdes_base64 [a] = [b64_char (drop_bit 2 a), b64_char (push_bit 4 (a AND 0x03)), 0x3D, 0x3D]"
| "cdes_base64 [] = []"

section \<open>Bytes as numbers\<close>

lemma unat_masks:
  fixes x :: byte
  shows "unat (x AND 0x03) = unat x mod 4" "unat (x AND 0x0F) = unat x mod 16" "unat (x AND 0x3F) = unat x mod 64"
    "unat (drop_bit 2 (x AND 0xFC)) = unat x div 4" "unat (drop_bit 4 (x AND 0xF0)) = unat x div 16"
    "unat (drop_bit 6 (x AND 0xC0)) = unat x div 64"
    "unat (drop_bit 4 (x AND 0x30)) = unat x div 16 mod 4" "unat (drop_bit 2 (x AND 0x3C)) = unat x div 4 mod 16"
proof -
  have m: "unat (y AND mask n) = unat y mod 2 ^ n" for y :: byte and n
  proof -
    have "unat (y AND mask n) = unat (take_bit n y)" by (simp only: take_bit_eq_mask)
    also have "\<dots> = take_bit n (unat y)" by (rule unsigned_take_bit_eq)
    finally show ?thesis by (simp only: take_bit_eq_mod)
  qed
  have d: "unat (drop_bit n y) = unat y div 2 ^ n" for y :: byte and n
    by (simp only: unat_drop_bit_eq) (simp only: drop_bit_eq_div)
  have small: "unat y div 2 ^ k mod 2 ^ (8 - k) = unat y div 2 ^ k" if "k \<le> 8" for y :: byte and k
  proof -
    have "unat y < 2 ^ k * 2 ^ (8 - k)" using that by (simp flip: power_add)
    then have "unat y div 2 ^ k < 2 ^ (8 - k)" by (simp add: less_mult_imp_div_less mult.commute)
    then show ?thesis by simp
  qed
  have md: "drop_bit n (y AND k) = drop_bit n y AND drop_bit n k" for y k :: byte and n by (rule drop_bit_and)
  show "unat (x AND 0x03) = unat x mod 4" using m [of x 2] by (simp add: mask_eq_exp_minus_1)
  show "unat (x AND 0x0F) = unat x mod 16" using m [of x 4] by (simp add: mask_eq_exp_minus_1)
  show "unat (x AND 0x3F) = unat x mod 64" using m [of x 6] by (simp add: mask_eq_exp_minus_1)
  have k: "drop_bit 2 (0xFC :: byte) = mask 6" "drop_bit 4 (0xF0 :: byte) = mask 4" "drop_bit 6 (0xC0 :: byte) = mask 2"
    "drop_bit 4 (0x30 :: byte) = mask 2" "drop_bit 2 (0x3C :: byte) = mask 4"
    by code_simp+
  show "unat (drop_bit 2 (x AND 0xFC)) = unat x div 4" using small [of 2 x] by (simp only: md k m d) simp
  show "unat (drop_bit 4 (x AND 0xF0)) = unat x div 16" using small [of 4 x] by (simp only: md k m d) simp
  show "unat (drop_bit 6 (x AND 0xC0)) = unat x div 64" using small [of 6 x] by (simp only: md k m d) simp
  show "unat (drop_bit 4 (x AND 0x30)) = unat x div 16 mod 4" by (simp only: md k m d) simp
  show "unat (drop_bit 2 (x AND 0x3C)) = unat x div 4 mod 16" by (simp only: md k m d) simp
qed

lemma unat_push: "unat (push_bit n (x :: byte)) = unat x * 2 ^ n mod 256"
  by (simp only: unsigned_push_bit_eq) (simp only: push_bit_eq_mult take_bit_eq_mod, simp)

lemma unat_sum: "unat (x + y :: byte) = (unat x + unat y) mod 256"
  by (simp add: unat_word_ariths)

lemma digit_arith:
  fixes A B :: nat
  assumes "A < 256" "B < 256"
  shows "A mod 4 * 16 mod 256 = A mod 4 * 16" "A mod 16 * 4 mod 256 = A mod 16 * 4"
    "A mod 4 * 16 + B div 16 < 64" "A mod 16 * 4 + B div 64 < 64"
    "(A mod 4 * 16 + B div 16) div 16 mod 4 = A mod 4" "(A mod 4 * 16 + B div 16) mod 16 = B div 16"
    "(A mod 16 * 4 + B div 64) div 4 mod 16 = A mod 16" "(A mod 16 * 4 + B div 64) mod 4 = B div 64"
    "A div 4 * 4 + A mod 4 = A" "A div 16 * 16 + A mod 16 = A" "A div 64 * 64 + A mod 64 = A"
  using assms by simp_all

definition v1 :: "byte \<Rightarrow> byte \<Rightarrow> byte" where
  "v1 a b = push_bit 4 (a AND 0x03) + drop_bit 4 (b AND 0xF0)"
definition v2 :: "byte \<Rightarrow> byte \<Rightarrow> byte" where
  "v2 b c = push_bit 2 (b AND 0x0F) + drop_bit 6 (c AND 0xC0)"

definition v0 :: "byte \<Rightarrow> byte" where
  "v0 a = drop_bit 2 (a AND 0xFC)"
definition v3 :: "byte \<Rightarrow> byte" where
  "v3 c = c AND 0x3F"

lemma unat_v: "unat (v1 a b) = unat a mod 4 * 16 + unat b div 16" "unat (v2 b c) = unat b mod 16 * 4 + unat c div 64"
proof -
  note da = digit_arith [OF unat_byte_less [of a] unat_byte_less [of b]]
  note db = digit_arith [OF unat_byte_less [of b] unat_byte_less [of c]]
  have "(2 :: nat) ^ 4 = 16" "(2 :: nat) ^ 2 = 4" by simp_all
  then show "unat (v1 a b) = unat a mod 4 * 16 + unat b div 16"
    "unat (v2 b c) = unat b mod 16 * 4 + unat c div 64"
    unfolding v1_def v2_def unat_sum unat_push unat_masks da(1) db(2)
    using da(1,3) db(2,4) by simp_all
qed

lemma three_bytes:
  "b64_three (drop_bit 2 (a AND 0xFC)) (v1 a b) y z ! 0 = a"
  "b64_three w (v1 a b) (v2 b c) z ! 1 = b"
  "b64_three w x (v2 b c) (c AND 0x3F) ! 2 = c"
proof -
  note dab = digit_arith [OF unat_byte_less [of a] unat_byte_less [of b]]
  note dbc = digit_arith [OF unat_byte_less [of b] unat_byte_less [of c]]
  note dc = digit_arith [OF unat_byte_less [of c] unat_byte_less [of c]]
  have p: "(2 :: nat) ^ 4 = 16" "(2 :: nat) ^ 2 = 4" "(2 :: nat) ^ 6 = 64" by simp_all
  have "unat (push_bit 2 (drop_bit 2 (a AND 0xFC)) + drop_bit 4 (v1 a b AND 0x30)) = unat a"
    unfolding unat_sum unat_push unat_masks unat_v p dab(5) mod_add_left_eq dab(9) by simp
  then show "b64_three (drop_bit 2 (a AND 0xFC)) (v1 a b) y z ! 0 = a"
    unfolding b64_three_def by (simp add: unsigned_word_eqI)
  have "unat (push_bit 4 (v1 a b AND 0x0F) + drop_bit 2 (v2 b c AND 0x3C)) = unat b"
    unfolding unat_sum unat_push unat_masks unat_v p dab(6) dbc(7) mod_add_left_eq dbc(10) by simp
  then show "b64_three w (v1 a b) (v2 b c) z ! 1 = b"
    unfolding b64_three_def by (simp add: unsigned_word_eqI)
  have "unat (push_bit 6 (v2 b c AND 0x03) + (c AND 0x3F)) = unat c"
    unfolding unat_sum unat_push unat_masks unat_v p dbc(8) mod_add_left_eq dc(11) by simp
  then show "b64_three w x (v2 b c) (c AND 0x3F) ! 2 = c"
    unfolding b64_three_def by (simp add: unsigned_word_eqI)
qed

lemma base64_chars_distinct: "distinct base64_chars"
proof -
  have "inj_on (word_of_nat :: nat \<Rightarrow> byte) {0..<256}"
    by (rule inj_onI) (simp add: word_of_nat_eq_iff take_bit_nat_eq_self)
  moreover have "set ([65..<91] @ [97..<123] @ [48..<58] @ [43, 47]) \<subseteq> {0..<256 :: nat}" by auto
  ultimately have "inj_on (word_of_nat :: nat \<Rightarrow> byte) (set ([65..<91] @ [97..<123] @ [48..<58] @ [43, 47]))"
    by (rule inj_on_subset)
  moreover have "distinct ([65..<91] @ [97..<123] @ [48..<58] @ [43, 47 :: nat])" by code_simp
  ultimately show ?thesis unfolding base64_chars_def distinct_map by blast
qed

lemma base64_chars_len: "length base64_chars = 64"
  unfolding base64_chars_def by simp

lemma base64_chars_all: "list_all (\<lambda>c. is_base64 c \<and> c \<noteq> 0x3D) base64_chars"
proof -
  have u: "unat (word_of_nat n :: byte) = n" if "n < 256" for n
    using that by (simp add: unsigned_of_nat take_bit_nat_eq_self)
  have "is_base64 (word_of_nat n) \<and> (word_of_nat n :: byte) \<noteq> 0x3D"
    if "n \<in> {65..<91} \<union> ({97..<123} \<union> ({48..<58} \<union> {43, 47}))" for n
  proof -
    have n: "n < 256" "n \<noteq> 61" using that by auto
    have ne: "(word_of_nat n :: byte) \<noteq> word_of_nat 61" using u [OF n(1)] u [of 61] n(2) by auto
    have "n = 43 \<or> n = 47 \<or> (48 \<le> n \<and> n \<le> 57) \<or> (65 \<le> n \<and> n \<le> 90) \<or> (97 \<le> n \<and> n \<le> 122)"
      using that by auto
    then have "is_base64 (word_of_nat n)"
      unfolding is_base64_def word_le_nat_alt u [OF n(1)] by auto
    with ne show ?thesis by simp
  qed
  note all = this
  have S: "set ([65..<91] @ [97..<123] @ [48..<58] @ [43, 47])
      = {65..<91} \<union> ({97..<123} \<union> ({48..<58} \<union> {43, 47 :: nat}))"
    by (simp only: set_append set_upt list.set)
  show ?thesis unfolding base64_chars_def list_all_iff set_map S ball_simps by (rule ballI, rule all)
qed

lemma b64_char_back: "unat v < 64 \<Longrightarrow> b64_index (b64_char v) = v \<and> is_base64 (b64_char v) \<and> b64_char v \<noteq> 0x3D"
proof -
  assume v: "unat v < 64"
  then have "find (\<lambda>i. base64_chars ! i = base64_chars ! unat v) [0..<64] = Some (unat v)"
    using base64_chars_distinct base64_chars_len by (auto simp: find_Some_iff nth_eq_iff_index_eq intro!: exI [of _ "unat v"])
  moreover have "is_base64 (b64_char v) \<and> b64_char v \<noteq> 0x3D"
    using base64_chars_all v base64_chars_len by (auto simp: list_all_length b64_char_def)
  ultimately show ?thesis by (simp add: b64_index_def b64_char_def)
qed

lemma v_less: "unat (v0 a) < 64" "unat (v1 a b) < 64" "unat (v2 b c) < 64" "unat (v3 c) < 64"
proof -
  have "unat a div 4 < 64" by (rule less_mult_imp_div_less) (use unat_byte_less [of a] in simp)
  then show "unat (v0 a) < 64" unfolding v0_def unat_masks .
  show "unat (v1 a b) < 64" unfolding unat_v by (rule digit_arith(3)) (rule unat_byte_less)+
  show "unat (v2 b c) < 64" unfolding unat_v by (rule digit_arith(4)) (rule unat_byte_less)+
  show "unat (v3 c) < 64" unfolding v3_def unat_masks by simp
qed

lemmas v_folds = v0_def [symmetric] v1_def [symmetric] v2_def [symmetric] v3_def [symmetric]

lemma three_list: "b64_three w x y z = [b64_three w x y z ! 0, b64_three w x y z ! 1, b64_three w x y z ! 2]"
  by (simp add: b64_three_def)

definition b64_text :: "bytes \<Rightarrow> bytes" where
  "b64_text s = takeWhile (\<lambda>c. c \<noteq> 0x3D \<and> is_base64 c) s"

lemma decode_encode: "decode_groups (b64_text (base64_encode s)) = s"
proof (induction s rule: base64_encode.induct)
  case (1 a b c r)
  have "b64_three (v0 a) (v1 a b) (v2 b c) (v3 c) = [a, b, c]"
    by (subst three_list) (simp only: three_bytes [folded v0_def v3_def])
  then show ?case using 1
    by (simp only: base64_encode.simps v_folds) (simp add: b64_text_def b64_char_back v_less)
next
  case (2 a b)
  have "take 2 (b64_three (v0 a) (v1 a b) (v2 b 0) z) = [a, b]" for z
    by (subst three_list) (simp only: three_bytes [folded v0_def v3_def], simp)
  then show ?case
    by (simp only: base64_encode.simps v_folds) (simp add: b64_text_def b64_char_back v_less numeral_2_eq_2)
next
  case (3 a)
  have "take 1 (b64_three (v0 a) (v1 a 0) y z) = [a]" for y z
    by (subst three_list) (simp only: three_bytes [folded v0_def v3_def], simp)
  then show ?case
    by (simp only: base64_encode.simps v_folds) (simp add: b64_text_def b64_char_back v_less)
qed (simp add: b64_text_def)

lemma high_bits: "drop_bit 2 (x AND 0xFC) = drop_bit 2 (x :: byte)" "drop_bit 4 (x AND 0xF0) = drop_bit 4 (x :: byte)"
  "drop_bit 6 (x AND 0xC0) = drop_bit 6 (x :: byte)"
proof -
  have d: "unat (drop_bit n y) = unat y div 2 ^ n" for y :: byte and n
    by (simp only: unat_drop_bit_eq) (simp only: drop_bit_eq_div)
  show "drop_bit 2 (x AND 0xFC) = drop_bit 2 x" "drop_bit 4 (x AND 0xF0) = drop_bit 4 x"
    "drop_bit 6 (x AND 0xC0) = drop_bit 6 x"
    by (rule unsigned_word_eqI [where 'a = nat], unfold unat_masks(4-6), unfold d, simp)+
qed

lemma encoders: "cdes_base64 s = base64_encode s"
  by (induction s rule: cdes_base64.induct) (simp_all only: cdes_base64.simps base64_encode.simps high_bits, simp_all)
section \<open>Properties\<close>

text \<open>C30: Decoding what either encoder writes gives the bytes back, for every byte string, and the two
  encoders write the same text.\<close>

theorem base64_roundtrip:
  "base64_decode (base64_encode s) = s \<and> base64_decode (cdes_base64 s) = s \<and> cdes_base64 s = base64_encode s"
  using decode_encode [of s] by (simp add: encoders base64_decode_def b64_text_def)

end
