(* ===== verification/TriDes.thy ===== *)
theory TriDes
  imports Des
begin

text \<open>
  The DES of \<open>src/CTSI/3DES.cpp\<close>: one byte per bit, tables counted from 0, a key state of twice 28
  places that shifts left to encrypt and right to decrypt, and the message authentication codes and
  key derivation built on it. A byte with the bit field \<open>BYTEStruct\<close> over it is a word and its bits.
  \<open>DesAlgo\<close> also fills arrays it never uses (one of them from beyond the end of \<open>tempA\<close>); they are left
  out. The theorems relate it to \<open>CDes\<close>.
\<close>

unbundle bit_operations_syntax

section \<open>Tables\<close>

definition TABLE_shift :: "nat list" where
  "TABLE_shift =
     [1, 1, 2, 2, 2, 2, 2, 2, 1, 2, 2, 2, 2, 2, 2, 1]"

definition TABLE_ip :: "nat list" where
  "TABLE_ip =
     [57, 49, 41, 33, 25, 17, 9, 1, 59, 51, 43, 35, 27, 19, 11, 3, 61, 53, 45, 37, 29, 21,
       13, 5, 63, 55, 47, 39, 31, 23, 15, 7, 56, 48, 40, 32, 24, 16, 8, 0, 58, 50, 42, 34,
       26, 18, 10, 2, 60, 52, 44, 36, 28, 20, 12, 4, 62, 54, 46, 38, 30, 22, 14, 6]"

definition TABLE_ip_1 :: "nat list" where
  "TABLE_ip_1 =
     [39, 7, 47, 15, 55, 23, 63, 31, 38, 6, 46, 14, 54, 22, 62, 30, 37, 5, 45, 13, 53, 21,
       61, 29, 36, 4, 44, 12, 52, 20, 60, 28, 35, 3, 43, 11, 51, 19, 59, 27, 34, 2, 42, 10,
       50, 18, 58, 26, 33, 1, 41, 9, 49, 17, 57, 25, 32, 0, 40, 8, 48, 16, 56, 24]"

definition TABLE_p :: "nat list" where
  "TABLE_p =
     [15, 6, 19, 20, 28, 11, 27, 16, 0, 14, 22, 25, 4, 17, 30, 9, 1, 7, 23, 13, 31, 26, 2,
       8, 18, 12, 29, 5, 21, 10, 3, 24]"

definition TABLE_pc_1 :: "nat list" where
  "TABLE_pc_1 =
     [56, 48, 40, 32, 24, 16, 8, 0, 57, 49, 41, 33, 25, 17, 9, 1, 58, 50, 42, 34, 26, 18,
       10, 2, 59, 51, 43, 35, 62, 54, 46, 38, 30, 22, 14, 6, 61, 53, 45, 37, 29, 21, 13, 5,
       60, 52, 44, 36, 28, 20, 12, 4, 27, 19, 11, 3]"

definition TABLE_ePro :: "nat list" where
  "TABLE_ePro =
     [31, 4, 0, 1, 2, 3, 3, 8, 4, 5, 6, 7, 7, 12, 8, 9, 10, 11, 11, 16, 12, 13, 14, 15, 15,
       20, 16, 17, 18, 19, 19, 24, 20, 21, 22, 23, 23, 28, 24, 25, 26, 27, 27, 0, 28, 29, 30,
       31]"

definition TABLE_pc_2Pro :: "nat list" where
  "TABLE_pc_2Pro =
     [13, 4, 16, 10, 23, 0, 2, 9, 27, 14, 5, 20, 22, 7, 18, 11, 3, 25, 15, 1, 6, 26, 19, 12,
       40, 54, 51, 30, 36, 46, 29, 47, 39, 50, 44, 32, 43, 52, 48, 38, 55, 33, 45, 31, 41,
       49, 35, 28]"

definition TABLE_s :: "nat list list" where
  "TABLE_s =
    [[14, 4, 13, 1, 2, 15, 11, 8, 3, 10, 6, 12, 5, 9, 0, 7, 0, 15, 7, 4, 14, 2, 13, 1, 10,
       6, 12, 11, 9, 5, 3, 8, 4, 1, 14, 8, 13, 6, 2, 11, 15, 12, 9, 7, 3, 10, 5, 0, 15, 12,
       8, 2, 4, 9, 1, 7, 5, 11, 3, 14, 10, 0, 6, 13],
     [15, 1, 8, 14, 6, 11, 3, 4, 9, 7, 2, 13, 12, 0, 5, 10, 3, 13, 4, 7, 15, 2, 8, 14, 12,
       0, 1, 10, 6, 9, 11, 5, 0, 14, 7, 11, 10, 4, 13, 1, 5, 8, 12, 6, 9, 3, 2, 15, 13, 8,
       10, 1, 3, 15, 4, 2, 11, 6, 7, 12, 0, 5, 14, 9],
     [10, 0, 9, 14, 6, 3, 15, 5, 1, 13, 12, 7, 11, 4, 2, 8, 13, 7, 0, 9, 3, 4, 6, 10, 2, 8,
       5, 14, 12, 11, 15, 1, 13, 6, 4, 9, 8, 15, 3, 0, 11, 1, 2, 12, 5, 10, 14, 7, 1, 10, 13,
       0, 6, 9, 8, 7, 4, 15, 14, 3, 11, 5, 2, 12],
     [7, 13, 14, 3, 0, 6, 9, 10, 1, 2, 8, 5, 11, 12, 4, 15, 13, 8, 11, 5, 6, 15, 0, 3, 4, 7,
       2, 12, 1, 10, 14, 9, 10, 6, 9, 0, 12, 11, 7, 13, 15, 1, 3, 14, 5, 2, 8, 4, 3, 15, 0,
       6, 10, 1, 13, 8, 9, 4, 5, 11, 12, 7, 2, 14],
     [2, 12, 4, 1, 7, 10, 11, 6, 8, 5, 3, 15, 13, 0, 14, 9, 14, 11, 2, 12, 4, 7, 13, 1, 5,
       0, 15, 10, 3, 9, 8, 6, 4, 2, 1, 11, 10, 13, 7, 8, 15, 9, 12, 5, 6, 3, 0, 14, 11, 8,
       12, 7, 1, 14, 2, 13, 6, 15, 0, 9, 10, 4, 5, 3],
     [12, 1, 10, 15, 9, 2, 6, 8, 0, 13, 3, 4, 14, 7, 5, 11, 10, 15, 4, 2, 7, 12, 9, 5, 6, 1,
       13, 14, 0, 11, 3, 8, 9, 14, 15, 5, 2, 8, 12, 3, 7, 0, 4, 10, 1, 13, 11, 6, 4, 3, 2,
       12, 9, 5, 15, 10, 11, 14, 1, 7, 6, 0, 8, 13],
     [4, 11, 2, 14, 15, 0, 8, 13, 3, 12, 9, 7, 5, 10, 6, 1, 13, 0, 11, 7, 4, 9, 1, 10, 14,
       3, 5, 12, 2, 15, 8, 6, 1, 4, 11, 13, 12, 3, 7, 14, 10, 15, 6, 8, 0, 5, 9, 2, 6, 11,
       13, 8, 1, 4, 10, 7, 9, 5, 0, 15, 14, 2, 3, 12],
     [13, 2, 8, 4, 6, 15, 11, 1, 10, 9, 3, 14, 5, 0, 12, 7, 1, 15, 13, 8, 10, 3, 7, 4, 12,
       5, 6, 11, 0, 14, 9, 2, 7, 11, 4, 1, 9, 12, 14, 2, 0, 6, 10, 13, 15, 3, 5, 8, 2, 1, 14,
       7, 4, 10, 8, 13, 15, 12, 9, 0, 3, 5, 6, 11]]"

section \<open>Bits\<close>

definition bit_of :: "byte \<Rightarrow> nat \<Rightarrow> nat" where
  "bit_of c i = (if bit c i then 1 else 0)"

text \<open>\<open>BitToByte\<close> and \<open>ByteToBit\<close> for the array they are given.\<close>

definition BitToByte :: "bytes \<Rightarrow> bits" where
  "BitToByte src = concat (map (\<lambda>c. [bit_of c 7, bit_of c 6, bit_of c 5, bit_of c 4, bit_of c 3, bit_of c 2, bit_of c 1, bit_of c 0]) src)"

definition byte_from :: "bits \<Rightarrow> byte" where
  "byte_from d = word_of_nat (128 * (d ! 0) + 64 * (d ! 1) + 32 * (d ! 2) + 16 * (d ! 3) + 8 * (d ! 4)
     + 4 * (d ! 5) + 2 * (d ! 6) + d ! 7)"

definition ByteToBit :: "bits \<Rightarrow> nat \<Rightarrow> bytes" where
  "ByteToBit src n = map (\<lambda>i. byte_from (take 8 (drop (8 * i) src))) [0..<n]"

definition BitXor :: "bytes \<Rightarrow> bytes \<Rightarrow> bytes" where
  "BitXor a b = map2 (\<lambda>x y. x XOR y) a b"

definition SelectExchangeFromTable :: "nat list \<Rightarrow> bits \<Rightarrow> bits" where
  "SelectExchangeFromTable table src = map (nth src) table"

section \<open>Key shifts and the round function\<close>

definition LShift :: "nat \<Rightarrow> bits \<Rightarrow> bits" where
  "LShift n buf28 = drop n buf28 @ take n buf28"

definition RShift :: "nat \<Rightarrow> bits \<Rightarrow> bits" where
  "RShift n buf28 = drop (28 - n) buf28 @ take (28 - n) buf28"

definition Shift :: "nat \<Rightarrow> bool \<Rightarrow> bits \<times> bits \<Rightarrow> bits \<times> bits" where
  "Shift iCircle bEncrypt CD =
     (if \<not> bEncrypt
      then (if iCircle \<noteq> 0 then (RShift (TABLE_shift ! iCircle) (fst CD), RShift (TABLE_shift ! iCircle) (snd CD)) else CD)
      else (LShift (TABLE_shift ! iCircle) (fst CD), LShift (TABLE_shift ! iCircle) (snd CD)))"

definition S_Change :: "bits \<Rightarrow> bits" where
  "S_Change src = concat (map (\<lambda>i. nibble_bits (TABLE_s ! i ! (32 * src ! (6 * i) + 16 * src ! (6 * i + 1)
     + 8 * src ! (6 * i + 2) + 4 * src ! (6 * i + 3) + 2 * src ! (6 * i + 4) + src ! (6 * i + 5)))) [0..<8])"

definition fFunction :: "bits \<Rightarrow> bits \<Rightarrow> bits" where
  "fFunction R K = SelectExchangeFromTable TABLE_p
     (S_Change (bits_xor K (SelectExchangeFromTable TABLE_ePro R)))"

definition algo_round :: "bool \<Rightarrow> nat \<Rightarrow> (bits \<times> bits) \<times> (bits \<times> bits) \<Rightarrow> (bits \<times> bits) \<times> (bits \<times> bits)" where
  "algo_round bEncrypt i st = (let ((L, R), CD) = st;
       CD' = Shift i bEncrypt CD;
       K = SelectExchangeFromTable TABLE_pc_2Pro (fst CD' @ snd CD') in
     ((R, bits_xor L (fFunction R K)), CD'))"

definition DesAlgo :: "bytes \<Rightarrow> bytes \<Rightarrow> bool \<Rightarrow> bytes" where
  "DesAlgo key src bEncrypt = (let
       LR = SelectExchangeFromTable TABLE_ip (BitToByte src);
       CD = SelectExchangeFromTable TABLE_pc_1 (BitToByte key);
       ((L, R), _) = fold (algo_round bEncrypt) [0..<16] ((take 32 LR, drop 32 LR), (take 28 CD, drop 28 CD)) in
     ByteToBit (SelectExchangeFromTable TABLE_ip_1 (R @ L)) 8)"

text \<open>A key and a block are the eight bytes the pointers lead to; \<open>None\<close> when they are not there.\<close>

definition EnDES :: "bytes \<Rightarrow> bytes \<Rightarrow> bytes option" where
  "EnDES pbyKey pbySrc = do { k \<leftarrow> copy_at 0 8 pbyKey; s \<leftarrow> copy_at 0 8 pbySrc; Some (DesAlgo k s True) }"

definition DeDES :: "bytes \<Rightarrow> bytes \<Rightarrow> bytes option" where
  "DeDES pbyKey pbySrc = do { k \<leftarrow> copy_at 0 8 pbyKey; s \<leftarrow> copy_at 0 8 pbySrc; Some (DesAlgo k s False) }"

definition En3DES :: "bytes \<Rightarrow> bytes \<Rightarrow> bytes option" where
  "En3DES pbyKey pbySrc = do {
     LKey \<leftarrow> copy_at 0 8 pbyKey; RKey \<leftarrow> copy_at 8 8 pbyKey;
     d1 \<leftarrow> EnDES LKey pbySrc; t \<leftarrow> DeDES RKey d1; EnDES LKey t }"

definition De3DES :: "bytes \<Rightarrow> bytes \<Rightarrow> bytes option" where
  "De3DES pbyKey pbySrc = do {
     LKey \<leftarrow> copy_at 0 8 pbyKey; RKey \<leftarrow> copy_at 8 8 pbyKey;
     d1 \<leftarrow> DeDES LKey pbySrc; t \<leftarrow> EnDES RKey d1; DeDES LKey t }"

section \<open>Message authentication codes\<close>

text \<open>\<open>n\<close> blocks from position \<open>i\<close> on; \<open>full\<close> blocks are copied, the last one of the padded codes has
  \<open>iAppend\<close> bytes, 0x80 and zeros.\<close>

fun cbc :: "bytes \<Rightarrow> bytes list \<Rightarrow> bytes \<Rightarrow> bytes option" where
  "cbc key [] v = Some v"
| "cbc key (b # bs) v = do { v' \<leftarrow> EnDES key (BitXor b v); cbc key bs v' }"

definition full_blocks :: "bytes \<Rightarrow> nat \<Rightarrow> bytes list option" where
  "full_blocks src n = those (map (\<lambda>i. copy_at (8 * i) 8 src) [0..<n])"

definition padded_blocks :: "bytes \<Rightarrow> nat \<Rightarrow> bytes list option" where
  "padded_blocks src iSrcLen = (let n = iSrcLen div 8 + 1; iAppend = 8 - (n * 8 - iSrcLen) in do {
     bs \<leftarrow> full_blocks src (n - 1);
     l \<leftarrow> copy_at (8 * (n - 1)) iAppend src;
     Some (bs @ [l @ [0x80] @ replicate (8 - (iAppend + 1)) 0]) })"

definition MAC :: "bytes \<Rightarrow> bytes \<Rightarrow> nat \<Rightarrow> bytes \<Rightarrow> bytes option" where
  "MAC pbyKey pbySrc iSrcLen pbyInit = do {
     v \<leftarrow> copy_at 0 8 pbyInit;
     bs \<leftarrow> padded_blocks pbySrc iSrcLen;
     r \<leftarrow> cbc pbyKey bs v;
     Some (take 4 r) }"

definition DES3MAC :: "bytes \<Rightarrow> bytes \<Rightarrow> nat \<Rightarrow> bytes \<Rightarrow> bytes option" where
  "DES3MAC pbyKey pbySrc iSrcLen pbyInit = do {
     v \<leftarrow> copy_at 0 8 pbyInit;
     bs \<leftarrow> full_blocks pbySrc (iSrcLen div 8);
     r \<leftarrow> cbc pbyKey bs v;
     Some (take 4 r) }"

definition MAC16 :: "bytes \<Rightarrow> bytes \<Rightarrow> nat \<Rightarrow> bytes \<Rightarrow> bytes option" where
  "MAC16 pbyKey pbySrc iSrcLen pbyInit = do {
     v \<leftarrow> copy_at 0 8 pbyInit;
     KeyA \<leftarrow> copy_at 0 8 pbyKey;
     KeyB \<leftarrow> copy_at 8 8 pbyKey;
     bs \<leftarrow> padded_blocks pbySrc iSrcLen;
     r \<leftarrow> cbc KeyA bs v;
     t \<leftarrow> DeDES KeyB r;
     r' \<leftarrow> EnDES KeyA t;
     Some (take 4 r') }"

definition DefuseKey :: "bytes \<Rightarrow> bytes \<Rightarrow> bytes option" where
  "DefuseKey key factor = do {
     d1 \<leftarrow> En3DES key factor;
     f \<leftarrow> copy_at 0 8 factor;
     d2 \<leftarrow> En3DES key (BitXor f (replicate 8 0xFF));
     Some (d1 @ d2) }"

section \<open>The same cipher as \<open>CDes\<close>\<close>

lemma tables:
  "map Suc TABLE_ip = IP_Tr" "map Suc TABLE_ip_1 = IP_1_Tr" "map Suc TABLE_p = P_Tr" "map Suc TABLE_pc_1 = PC_1_Tr"
  "TABLE_s = SB" "TABLE_shift = Left_move" "list_all (\<lambda>i. i \<noteq> 0 \<longrightarrow> TABLE_shift ! i = right_move ! i) [0..<16]"
  by code_simp+

lemma grouped_tables:
  "list_all (\<lambda>i. map (\<lambda>k. TABLE_ePro ! (6 * i + k) + 1) [0, 2, 3, 4, 5, 1] = map (\<lambda>k. Etr ! (6 * i + k)) [0..<6]) [0..<8]"
  "list_all (\<lambda>i. map (\<lambda>k. TABLE_pc_2Pro ! (6 * i + k) + 1) [0, 2, 3, 4, 5, 1] = map (\<lambda>k. PC_2_Tr ! (6 * i + k)) [0..<6]) [0..<8]"
  by code_simp+

lemma select_transpose: "length t = n \<Longrightarrow> SelectExchangeFromTable t d = take n (transpose_bits (map Suc t) n d)"
  by (rule nth_equalityI) (simp_all add: SelectExchangeFromTable_def transpose_bits_def)

lemma select_full: "length t = 64 \<Longrightarrow> length d = 64 \<Longrightarrow> SelectExchangeFromTable t d = transpose_bits (map Suc t) 64 d"
  using select_transpose [of t 64 d] by simp

lemma table_lengths: "length TABLE_ip = 64" "length TABLE_ip_1 = 64" "length TABLE_p = 32" "length TABLE_pc_1 = 56"
  "length TABLE_ePro = 48" "length TABLE_pc_2Pro = 48" "length TABLE_shift = 16"
  "list_all (\<lambda>n. n \<le> 2) TABLE_shift" "list_all (\<lambda>i. i < 56) TABLE_pc_2Pro" "list_all (\<lambda>i. i < 32) TABLE_ePro"
  by code_simp+

lemma table_shift_small: "i < 16 \<Longrightarrow> TABLE_shift ! i \<le> 28"
  using table_lengths(7,8) by (force simp: list_all_length)

lemma LShift_rotate: "length c = 28 \<Longrightarrow> n \<le> 28 \<Longrightarrow> LShift n c = rotate n c"
  by (cases "n = 28") (simp_all add: LShift_def rotate_drop_take)

lemma RShift_len [simp]: "length c = 28 \<Longrightarrow> length (RShift n c) = 28"
  by (simp add: RShift_def)

lemma rotate_RShift: "length c = 28 \<Longrightarrow> n \<le> 28 \<Longrightarrow> rotate n (RShift n c) = c"
proof -
  assume c: "length c = 28" "n \<le> 28"
  have "LShift n (RShift n c) = take (28 - n) c @ drop (28 - n) c" using c by (simp add: LShift_def RShift_def)
  then show ?thesis using LShift_rotate [of "RShift n c" n] c by simp
qed

lemma right_RShift:
  assumes "length c = 28" "length d = 28" "length t = 8" "n \<le> 28"
  shows "(rightmove ^^ n) (c @ d @ t) = RShift n c @ RShift n d @ t"
proof -
  have "(leftmove ^^ n) (RShift n c @ RShift n d @ t) = c @ d @ t"
    using assms leftmove_pow [of "RShift n c" "RShift n d" t n] by (simp add: rotate_RShift)
  moreover have "(rightmove ^^ n) ((leftmove ^^ n) (RShift n c @ RShift n d @ t)) = RShift n c @ RShift n d @ t"
    using assms right_left_pow [of "RShift n c @ RShift n d @ t" n n] by simp
  ultimately show ?thesis by simp
qed

definition mode_of :: "bool \<Rightarrow> nat" where "mode_of e = (if e then 1 else 0)"

lemma Shift_move_key:
  assumes "length c = 28" "length d = 28" "length t = 8" "i < 16"
  shows "move_key (mode_of e) i (c @ d @ t) = fst (Shift i e (c, d)) @ snd (Shift i e (c, d)) @ t"
    and "length (fst (Shift i e (c, d))) = 28" "length (snd (Shift i e (c, d))) = 28"
proof -
  have n: "TABLE_shift ! i \<le> 28" using assms(4) by (rule table_shift_small)
  have r: "i \<noteq> 0 \<Longrightarrow> right_move ! i = TABLE_shift ! i" using tables(7) assms(4) by (auto simp: list_all_iff)
  have r0: "right_move ! 0 = 0" by code_simp
  show "move_key (mode_of e) i (c @ d @ t) = fst (Shift i e (c, d)) @ snd (Shift i e (c, d)) @ t"
  proof (cases e)
    case True
    then show ?thesis using assms n by (simp add: mode_of_def move_key_def Shift_def tables(6) [symmetric] leftmove_pow LShift_rotate)
  next
    case False
    then show ?thesis using assms n r r0
      by (cases "i = 0") (simp_all add: mode_of_def move_key_def Shift_def right_RShift)
  qed
  show "length (fst (Shift i e (c, d))) = 28" "length (snd (Shift i e (c, d))) = 28"
    using assms n by (simp_all add: Shift_def LShift_rotate)
qed

lemma bit_xor_commute: "bit_xor a b = bit_xor b a"
  by (simp add: bit_xor_def add.commute)

lemma group6:
  fixes t t' :: "nat list"
  assumes "i < 8" "k < 6"
    and "list_all (\<lambda>i. map (\<lambda>k. t' ! (6 * i + k) + 1) [0, 2, 3, 4, 5, 1] = map (\<lambda>k. t ! (6 * i + k)) [0..<6]) [0..<8]"
  shows "t ! (6 * i + k) - 1 = t' ! (6 * i + [0, 2, 3, 4, 5, 1] ! k)"
proof -
  have e: "map (\<lambda>k. t' ! (6 * i + k) + 1) [0, 2, 3, 4, 5, 1] = map (\<lambda>k. t ! (6 * i + k)) [0..<6]"
    using assms(1,3) by (simp add: list_all_iff)
  have "map (\<lambda>k. t ! (6 * i + k)) [0..<6] ! k = t ! (6 * i + k)" using assms(2) by simp
  moreover have "map (\<lambda>k. t' ! (6 * i + k) + 1) [0, 2, 3, 4, 5, 1] ! k = t' ! (6 * i + [0, 2, 3, 4, 5, 1] ! k) + 1"
    using assms(2) by (subst nth_map) simp_all
  ultimately show ?thesis using e by simp
qed

lemma fFunction_core:
  assumes "length r = 32" "length c = 28" "length d = 28" "length t = 8"
  shows "fFunction r (SelectExchangeFromTable TABLE_pc_2Pro (c @ d)) = des_core (c @ d @ t) (r @ r)"
proof -
  let ?K = "SelectExchangeFromTable TABLE_pc_2Pro (c @ d)" and ?E = "SelectExchangeFromTable TABLE_ePro r"
  let ?src = "bits_xor ?K ?E"
  let ?tem = "bits_xor (take 48 (transpose_bits Etr 48 (r @ r))) (take 48 (transpose_bits PC_2_Tr 48 (c @ d @ t)))"
  have perm: "[0, 2, 3, 4, 5, 1 :: nat] ! k < 6" if "k < 6" for k
    using that by (auto simp: less_Suc_eq numeral_eq_Suc)
  have src: "?src ! m = bit_xor ((c @ d) ! (TABLE_pc_2Pro ! m)) (r ! (TABLE_ePro ! m))" if "m < 48" for m
    using that table_lengths by (simp add: bits_xor_def SelectExchangeFromTable_def)
  have tem: "?tem ! m = bit_xor ((r @ r) ! (Etr ! m - 1)) ((c @ d @ t) ! (PC_2_Tr ! m - 1))" if "m < 48" for m
    using that assms by (simp add: bits_xor_def transpose_bits_def nth_append)
  have b: "?tem ! (6 * i + k) = ?src ! (6 * i + [0, 2, 3, 4, 5, 1] ! k)" if "i < 8" "k < 6" for i k
  proof -
    let ?m = "6 * i + [0, 2, 3, 4, 5, 1] ! k"
    have m: "?m < 48" "6 * i + k < 48" using that perm [OF that(2)] by linarith+
    have "TABLE_pc_2Pro ! ?m < 56" "TABLE_ePro ! ?m < 32" using m(1) table_lengths by (simp_all add: list_all_length)
    then have "(c @ d @ t) ! (TABLE_pc_2Pro ! ?m) = (c @ d) ! (TABLE_pc_2Pro ! ?m)"
        "(r @ r) ! (TABLE_ePro ! ?m) = r ! (TABLE_ePro ! ?m)"
      using assms by (simp_all only: append_assoc [symmetric] nth_append length_append if_True) simp_all
    then show ?thesis
      unfolding src [OF m(1)] tem [OF m(2)] group6 [OF that grouped_tables(1)] group6 [OF that grouped_tables(2)]
      by (simp only: bit_xor_commute)
  qed
  have ix: "6 * (i + 1) - 6 = 6 * i + 0" "6 * (i + 1) - 1 = 6 * i + 5" "6 * (i + 1) - 5 = 6 * i + 1"
    "6 * (i + 1) - 4 = 6 * i + 2" "6 * (i + 1) - 3 = 6 * i + 3" "6 * (i + 1) - 2 = 6 * i + 4" for i :: nat
    by simp_all
  have idx: "sbox_index ?tem (i + 1) = 32 * ?src ! (6 * i) + 16 * ?src ! (6 * i + 1)
     + 8 * ?src ! (6 * i + 2) + 4 * ?src ! (6 * i + 3) + 2 * ?src ! (6 * i + 4) + ?src ! (6 * i + 5)" if "i < 8" for i
    using b [OF that, of 0] b [OF that, of 1] b [OF that, of 2] b [OF that, of 3] b [OF that, of 4] b [OF that, of 5]
    unfolding sbox_index_def ix by (simp del: One_nat_def)
  have up: "[1..<9] = map Suc [0..<8]" by code_simp
  have "map (\<lambda>j. nibble_bits (SB ! (j - 1) ! sbox_index ?tem j)) [1..<9]
      = map (\<lambda>i. nibble_bits (SB ! i ! sbox_index ?tem (i + 1))) [0..<8]"
    unfolding up by (simp del: upt_Suc)
  also have "\<dots> = map (\<lambda>i. nibble_bits (TABLE_s ! i ! (32 * ?src ! (6 * i) + 16 * ?src ! (6 * i + 1)
     + 8 * ?src ! (6 * i + 2) + 4 * ?src ! (6 * i + 3) + 2 * ?src ! (6 * i + 4) + ?src ! (6 * i + 5)))) [0..<8]"
    by (rule map_cong [OF refl]) (simp only: set_upt atLeastLessThan_iff idx tables(5))
  finally have "S_Change ?src = concat (map (\<lambda>j. nibble_bits (SB ! (j - 1) ! sbox_index ?tem j)) [1..<9])"
    unfolding S_Change_def by simp
  moreover have "length (concat (map (\<lambda>j. nibble_bits (v j)) js)) = 4 * length js" for v and js :: "nat list"
    by (induction js) (simp_all add: nibble_bits_def)
  then have "length (concat (map (\<lambda>j. nibble_bits (SB ! (j - 1) ! sbox_index ?tem j)) [1..<9])) = 32" by simp
  ultimately show ?thesis
    unfolding fFunction_def des_core_def Let_def select_transpose [OF table_lengths(3)] tables(3) by simp
qed

lemma algo_round_des:
  assumes "is_bits 32 l" "is_bits 32 r" "length c = 28" "length d = 28" "length t = 8" "i < 16"
  obtains l' r' c' d' where "algo_round e i ((l, r), (c, d)) = ((l', r'), (c', d'))"
    "des_round (mode_of e) i (l @ r, c @ d @ t) = (l' @ r', c' @ d' @ t)"
    "is_bits 32 l'" "is_bits 32 r'" "length c' = 28" "length d' = 28"
proof -
  let ?c = "fst (Shift i e (c, d))" and ?d = "snd (Shift i e (c, d))"
  let ?r = "bits_xor l (des_core (?c @ ?d @ t) (r @ r))"
  note s = Shift_move_key [OF assms(3-6), of e]
  have len: "length l = 32" "length r = 32" using assms by (simp_all add: is_bits_len)
  have k: "length (?c @ ?d @ t) = 64" using s assms(5) by simp
  note f = fFunction_core [OF len(2) s(2,3) assms(5)]
  have a: "algo_round e i ((l, r), (c, d)) = ((r, ?r), (?c, ?d))"
    by (simp add: algo_round_def Let_def f)
  have b: "des_round (mode_of e) i (l @ r, c @ d @ t) = (r @ ?r, ?c @ ?d @ t)"
    using len s(1) by (simp add: des_round_def Let_def des_f_def)
  from cdes.f_ok [OF k assms(2)] have "is_bits 32 ?r" by (rule bits_xor_ok [OF assms(1)])
  from that [OF a b assms(2) this s(2,3)] show thesis .
qed

lemma algo_rounds_des:
  assumes "is_bits 32 l" "is_bits 32 r" "length c = 28" "length d = 28" "length t = 8" "list_all (\<lambda>i. i < 16) is"
  shows "\<exists>l' r' cd k'. fold (algo_round e) is ((l, r), (c, d)) = ((l', r'), cd)
    \<and> fold (des_round (mode_of e)) is (l @ r, c @ d @ t) = (l' @ r', k') \<and> is_bits 32 l' \<and> is_bits 32 r'"
  using assms
proof (induction "is" arbitrary: l r c d)
  case (Cons i "is")
  then have i: "i < 16" by simp
  from algo_round_des [OF Cons.prems(1-5) i, of e] obtain l' r' c' d' where
    "algo_round e i ((l, r), (c, d)) = ((l', r'), (c', d'))"
    "des_round (mode_of e) i (l @ r, c @ d @ t) = (l' @ r', c' @ d' @ t)"
    "is_bits 32 l'" "is_bits 32 r'" "length c' = 28" "length d' = 28" by blast
  then show ?case using Cons.IH [of l' r' c' d'] Cons.prems(5,6) by simp
qed simp

lemma DesAlgo_bits:
  assumes "is_bits 64 (BitToByte src)" "length (BitToByte key) = 64"
  shows "DesAlgo key src e = ByteToBit (des (BitToByte src) (BitToByte key) (mode_of e)) 8"
proof -
  let ?s = "BitToByte src" and ?k = "BitToByte key"
  let ?ip = "transpose_bits IP_Tr 64 ?s" and ?pk = "transpose_bits PC_1_Tr 56 ?k"
  have ip: "SelectExchangeFromTable TABLE_ip ?s = ?ip"
    using assms(1) table_lengths(1) by (simp add: select_full is_bits_len tables)
  have b: "is_bits 64 ?ip" using assms(1) IP_tables(3) by (simp add: transpose_full_bits)
  have lr: "is_bits 32 (take 32 ?ip)" "is_bits 32 (drop 32 ?ip)"
    using is_bits_take [OF b] is_bits_drop [OF b, of 32] by simp_all
  have cd: "SelectExchangeFromTable TABLE_pc_1 ?k = take 56 ?pk"
    using table_lengths(4) by (simp add: select_transpose [of _ 56] tables)
  have pl: "length ?pk = 64" using assms(2) by simp
  have pk: "take 28 (take 56 ?pk) @ drop 28 (take 56 ?pk) @ drop 56 ?pk = ?pk"
    by (simp only: append_take_drop_id append_assoc [symmetric])
  have len: "length (take 28 (take 56 ?pk)) = 28" "length (drop 28 (take 56 ?pk)) = 28" "length (drop 56 ?pk) = 8"
    unfolding length_take length_drop pl by simp_all
  have "list_all (\<lambda>i. i < 16) [0..<16]" by (simp add: list_all_iff)
  from algo_rounds_des [OF lr len this, of e] obtain l' r' cd' k' where
    r: "fold (algo_round e) [0..<16] ((take 32 ?ip, drop 32 ?ip), (take 28 (take 56 ?pk), drop 28 (take 56 ?pk))) = ((l', r'), cd')"
      "fold (des_round (mode_of e)) [0..<16] (?ip, ?pk) = (l' @ r', k')" "is_bits 32 l'" "is_bits 32 r'"
    unfolding pk append_take_drop_id by blast
  have len': "length (r' @ l') = 64" using r by (simp add: is_bits_len)
  have "DesAlgo key src e = ByteToBit (SelectExchangeFromTable TABLE_ip_1 (r' @ l')) 8"
    unfolding DesAlgo_def Let_def ip cd r(1) by simp
  also have "SelectExchangeFromTable TABLE_ip_1 (r' @ l') = transpose_bits IP_1_Tr 64 (r' @ l')"
    using len' table_lengths(2) by (simp add: select_full tables)
  also have "\<dots> = des ?s ?k (mode_of e)"
    unfolding des_def Let_def r(2) using r by (simp add: swap_halves is_bits_len)
  finally show ?thesis .
qed

section \<open>Bytes and bits undo each other\<close>

lemma byte_bits_len [simp]: "length (BitToByte s) = 8 * length s"
  unfolding BitToByte_def by (induction s) simp_all

lemma BitToByte_bits: "is_bits (8 * length s) (BitToByte s)"
  unfolding is_bits_def byte_bits_len unfolding BitToByte_def
  by (induction s) (simp_all add: bit_of_def)

lemma BitToByte_append: "BitToByte (a @ b) = BitToByte a @ BitToByte b"
  by (simp add: BitToByte_def)

lemma bit_of_unat: "bit_of c i = unat c div 2 ^ i mod 2"
proof -
  have "bit c i = bit (unat c) i" by (simp add: bit_unsigned_iff)
  then show ?thesis by (simp add: bit_of_def bit_iff_odd odd_iff_mod_2_eq_one)
qed

lemma div_2_step: "(n :: nat) div k = 2 * (n div (k * 2)) + n div k mod 2"
  by (simp add: div_mult2_eq)

lemma byte_from_bits: "byte_from (BitToByte [c]) = c"
proof -
  let ?n = "unat c"
  have z: "?n div 256 = 0" by simp
  have "128 * (?n div 128 mod 2) + 64 * (?n div 64 mod 2) + 32 * (?n div 32 mod 2) + 16 * (?n div 16 mod 2)
     + 8 * (?n div 8 mod 2) + 4 * (?n div 4 mod 2) + 2 * (?n div 2 mod 2) + ?n mod 2 = ?n"
    using mult_div_mod_eq [of 2 ?n] div_2_step [of ?n 2] div_2_step [of ?n 4] div_2_step [of ?n 8]
      div_2_step [of ?n 16] div_2_step [of ?n 32] div_2_step [of ?n 64] div_2_step [of ?n 128] z by (simp only: mult_numeral_1 arith_simps)
  then show ?thesis by (simp add: byte_from_def BitToByte_def bit_of_unat)
qed

lemma bits_from_byte: "is_bits 8 d \<Longrightarrow> BitToByte [byte_from d] = d"
proof -
  assume d: "is_bits 8 d"
  let ?L = "{xs :: bits. set xs \<subseteq> {0, 1} \<and> length xs = 8}" and ?f = "\<lambda>c. BitToByte [c]"
  have inj: "inj ?f" by (rule inj_on_inverseI [where g = byte_from]) (rule byte_from_bits)
  have "range ?f \<subseteq> ?L" by (auto simp: BitToByte_def bit_of_def split: if_splits)
  moreover have "card ?L = 256" by (subst card_lists_length_eq) (simp_all add: numeral_eq_Suc)
  moreover have "card (range ?f) = 256" using inj by (simp add: card_image card_word)
  ultimately have "range ?f = ?L" by (intro card_subset_eq) (auto simp: finite_lists_length_eq)
  moreover have "d \<in> ?L" using d by (auto simp: is_bits_def list_all_iff le_Suc_eq)
  ultimately obtain c where "d = BitToByte [c]" by blast
  then show ?thesis by (simp add: byte_from_bits)
qed

lemma BitToByte_Cons: "BitToByte (c # s) = BitToByte [c] @ BitToByte s"
  by (simp add: BitToByte_def)

lemma ByteToBit_Suc: "length b = 8 \<Longrightarrow> ByteToBit (b @ d) (Suc n) = byte_from b # ByteToBit d n"
  unfolding ByteToBit_def by (simp add: upt_rec [of 0] map_Suc_upt [symmetric] del: upt_Suc)

lemma byte_bits_inverse: "ByteToBit (BitToByte s) (length s) = s"
proof (induction s)
  case (Cons c s)
  have "length (BitToByte [c]) = 8" by simp
  then show ?case using Cons byte_from_bits [of c]
    by (subst BitToByte_Cons) (simp only: length_Cons ByteToBit_Suc)
qed (simp add: ByteToBit_def)

lemma bits_byte_inverse: "is_bits (8 * n) d \<Longrightarrow> BitToByte (ByteToBit d n) = d \<and> length (ByteToBit d n) = n"
proof (induction n arbitrary: d)
  case 0
  then show ?case by (simp add: is_bits_def ByteToBit_def BitToByte_def)
next
  case (Suc n)
  have l: "length (take 8 d) = 8" using is_bits_len [OF Suc.prems] by simp
  have b: "is_bits 8 (take 8 d)" "is_bits (8 * n) (drop 8 d)"
    using is_bits_take [OF Suc.prems, of 8] is_bits_drop [OF Suc.prems, of 8] by simp_all
  have "ByteToBit d (Suc n) = byte_from (take 8 d) # ByteToBit (drop 8 d) n"
    using ByteToBit_Suc [OF l, of "drop 8 d" n] by simp
  then show ?case using Suc.IH [OF b(2)] bits_from_byte [OF b(1)] by (simp add: BitToByte_Cons [of "byte_from (take 8 d)" "ByteToBit (drop 8 d) n"])
qed

lemma nibble_hex_char: "unat c < 16 \<Longrightarrow> nibble_hex c = nibble_char (unat c)"
proof -
  assume c: "unat c < 16"
  have "list_all (\<lambda>v. nibble_hex (word_of_nat v) = nibble_char v) [0..<16]" by code_simp
  with c have "nibble_hex (word_of_nat (unat c)) = nibble_char (unat c)" unfolding list_all_iff set_upt by (metis atLeastLessThan_iff zero_le)
  then show ?thesis by simp
qed

lemma nibble_bits_bit: "nibble_bits v = [of_bool (bit v 3), of_bool (bit v 2), of_bool (bit v 1), of_bool (bit v 0)]"
  by (simp add: nibble_bits_def bit_iff_odd mod_2_eq_odd)

lemma byte_nibbles: "BitToByte [c] = nibble_bits (unat (drop_bit 4 c AND 0x0F)) @ nibble_bits (unat (c AND 0x0F))"
proof -
  have m: "0x0F = (mask 4 :: byte)" by (simp add: mask_eq_exp_minus_1)
  show ?thesis
    unfolding nibble_bits_bit BitToByte_def m
    by (simp add: bit_of_def bit_unsigned_iff bit_simps del: One_nat_def)
qed

lemma nibble_small: "unat (c AND 0x0F :: byte) < 16"
  using nibble_less [of c] by (simp add: take_bit_eq_mask mask_eq_exp_minus_1)

lemma hex_chars_nibbles: "\<exists>vs. hex_chars s = map nibble_char vs \<and> list_all (\<lambda>v. v < 16) vs
    \<and> concat (map nibble_bits vs) = BitToByte s \<and> length vs = 2 * length s"
proof (induction s)
  case (Cons c s)
  then obtain vs where vs: "hex_chars s = map nibble_char vs" "list_all (\<lambda>v. v < 16) vs"
    "concat (map nibble_bits vs) = BitToByte s" "length vs = 2 * length s" by blast
  let ?h = "unat (drop_bit 4 c AND 0x0F)" and ?l = "unat (c AND 0x0F)"
  have "hex_chars (c # s) = map nibble_char (?h # ?l # vs)"
    using vs(1) by (simp add: nibble_hex_char nibble_small)
  moreover have "concat (map nibble_bits (?h # ?l # vs)) = BitToByte (c # s)"
    using vs(3) by (simp add: BitToByte_Cons [of c s] byte_nibbles [of c])
  ultimately show ?case using vs(2,4) nibble_small [of c] nibble_small [of "drop_bit 4 c"]
    by (intro exI [of _ "?h # ?l # vs"]) simp
qed (simp add: BitToByte_def)

lemma hex_text:
  assumes "length s = 8"
  shows "hex_block (hex_chars s) \<and> inputtobin (hex_chars s) = Some (BitToByte s) \<and> outtostr (BitToByte s) = hex_chars s"
proof -
  from hex_chars_nibbles [of s] obtain vs where vs: "hex_chars s = map nibble_char vs" "list_all (\<lambda>v. v < 16) vs"
    "concat (map nibble_bits vs) = BitToByte s" "length vs = 16" using assms by auto
  then show ?thesis using outtostr_nibbles [OF vs(4,2)]
    by (auto simp: hex_block_def upper_hex_list inputtobin_def bin_loop_nibbles)
qed

section \<open>Properties\<close>

lemma DesAlgo_spec:
  assumes "length key = 8" "length src = 8"
  shows "length (DesAlgo key src e) = 8" "BitToByte (DesAlgo key src e) = des (BitToByte src) (BitToByte key) (mode_of e)"
proof -
  have b: "is_bits 64 (BitToByte src)" "length (BitToByte key) = 64"
    using BitToByte_bits [of src] assms by simp_all
  from des_bits [OF b] have "is_bits (8 * 8) (des (BitToByte src) (BitToByte key) (mode_of e))" by simp
  from bits_byte_inverse [OF this] DesAlgo_bits [OF b, of e]
  show "length (DesAlgo key src e) = 8" "BitToByte (DesAlgo key src e) = des (BitToByte src) (BitToByte key) (mode_of e)"
    by simp_all
qed

lemma BitToByte_inject: "BitToByte a = BitToByte b \<Longrightarrow> length a = length b \<Longrightarrow> a = b"
  by (metis byte_bits_inverse)

lemma DesAlgo_undo:
  assumes "length key = 8" "length src = 8"
  shows "DesAlgo key (DesAlgo key src e) (\<not> e) = src"
proof (rule BitToByte_inject)
  have b: "is_bits 64 (BitToByte src)" "length (BitToByte key) = 64"
    using BitToByte_bits [of src] assms by simp_all
  have "{mode_of (\<not> e), mode_of e} = {0, 1}" by (auto simp: mode_of_def)
  then show "BitToByte (DesAlgo key (DesAlgo key src e) (\<not> e)) = BitToByte src"
    using des_undo [OF b, of "mode_of e" "mode_of (\<not> e)"] assms by (simp add: DesAlgo_spec insert_commute)
qed (simp add: DesAlgo_spec assms)

interpretation tri: ede "\<lambda>k s. DesAlgo k s True" "\<lambda>k s. DesAlgo k s False" "\<lambda>k. length k = 8" "\<lambda>s. length s = 8"
  using DesAlgo_undo [where e = True] DesAlgo_undo [where e = False] by unfold_locales (simp_all add: DesAlgo_spec)

lemma copy_at_part: "off + n \<le> length b \<Longrightarrow> copy_at off n b = Some (take n (drop off b))"
  by (simp add: copy_at_def)

lemma EnDES_8: "length k = 8 \<Longrightarrow> length s \<ge> 8 \<Longrightarrow> EnDES k s = Some (DesAlgo k (take 8 s) True)"
  and DeDES_8: "length k = 8 \<Longrightarrow> length s \<ge> 8 \<Longrightarrow> DeDES k s = Some (DesAlgo k (take 8 s) False)"
  by (simp_all add: EnDES_def DeDES_def copy_at_part)

lemma En3DES_ede:
  assumes "length k1 = 8" "length k2 = 8" "length s = 8"
  shows "En3DES (k1 @ k2) s = Some (tri.ede_enc k1 k2 k1 s)" "De3DES (k1 @ k2) s = Some (tri.ede_dec k1 k2 k1 s)"
  using assms by (simp_all add: En3DES_def De3DES_def copy_at_part EnDES_8 DeDES_8 DesAlgo_spec tri.ede_enc_def tri.ede_dec_def)

text \<open>C14: The byte and the text implementation of DES agree: for every key and block of eight bytes, the hexadecimal
  text of what \<open>EnDES\<close> returns is what \<open>CDes::GetDesOutput\<close> returns for their hexadecimal texts, and the same
  for \<open>DeDES\<close> and \<open>GetDesInput\<close>.\<close>

theorem EnDES_is_CDes:
  assumes "length key = 8" "length src = 8"
  shows "GetDesOutput (hex_chars src) (hex_chars key) = map_option hex_chars (EnDES key src)
    \<and> GetDesInput (hex_chars src) (hex_chars key) = map_option hex_chars (DeDES key src)"
proof -
  have "outtostr (des (BitToByte src) (BitToByte key) (mode_of e)) = hex_chars (DesAlgo key src e)" for e
    using hex_text [of "DesAlgo key src e"] DesAlgo_spec [OF assms, of e] by simp
  from this [of True] this [of False] show ?thesis
    using hex_text [OF assms(1)] hex_text [OF assms(2)] assms
    by (simp add: GetDesOutput_def GetDesInput_def EnDES_8 DeDES_8 mode_of_def)
qed

theorem EnDES_is_CDes_witness:
  "GetDesOutput (hex_chars [1, 2, 3, 4, 5, 6, 7, 8]) (hex_chars (replicate 8 0xA5)) = map_option hex_chars (EnDES (replicate 8 0xA5) [1, 2, 3, 4, 5, 6, 7, 8])"
  using EnDES_is_CDes [of "replicate 8 0xA5" "[1, 2, 3, 4, 5, 6, 7, 8]"] by simp

text \<open>Two-key DES on bytes: \<open>De3DES\<close> undoes \<open>En3DES\<close> for every key of 16 bytes and block of 8; with two equal
  halves it is \<open>EnDES\<close>; a key or a block that is shorter is read outside its array.\<close>

theorem En3DES_roundtrip:
  assumes "length key = 16" "length src = 8"
  shows "\<exists>out. En3DES key src = Some out \<and> length out = 8 \<and> De3DES key out = Some src
    \<and> (take 8 key = drop 8 key \<longrightarrow> EnDES (take 8 key) src = Some out)"
proof -
  let ?a = "take 8 key" and ?b = "drop 8 key"
  have k: "key = ?a @ ?b" "length ?a = 8" "length ?b = 8" using assms by simp_all
  let ?out = "tri.ede_enc ?a ?b ?a src"
  have l: "length ?out = 8" using tri.ede_ok k assms by blast
  have "En3DES key src = Some ?out" using En3DES_ede(1) [OF k(2,3) assms(2)] k(1) by simp
  moreover have "De3DES key ?out = Some src"
    using En3DES_ede(2) [OF k(2,3) l] tri.ede_dec_enc [OF k(2,3,2) assms(2)] k(1) by simp
  moreover have "?a = ?b \<longrightarrow> EnDES ?a src = Some ?out"
    using tri.ede_single [OF k(2) assms(2)] EnDES_8 [OF k(2), of src] assms(2) by auto
  ultimately show ?thesis using l by blast
qed


end
