(* ===== verification/SsmDes.thy ===== *)
theory SsmDes
  imports TriDes
begin

text \<open>
  The DES of the other program, \<open>src/ssmapp\<close>: \<open>Des.cpp\<close>, with its message authentication code, its triple
  construction for keys of 8, 16 and 24 bytes and the conversions between bytes and hexadecimal text.
  \<open>sMethod\<close> is one of the two macros of \<open>Des.h\<close>. The theorems relate it to the ciphers of \<open>src/CTSI\<close>.
\<close>

unbundle bit_operations_syntax

section \<open>Tables\<close>

definition InitPermut :: "nat list" where
  "InitPermut =
     [58, 50, 42, 34, 26, 18, 10, 2, 60, 52, 44, 36, 28, 20, 12, 4, 62, 54, 46, 38, 30, 22,
       14, 6, 64, 56, 48, 40, 32, 24, 16, 8, 57, 49, 41, 33, 25, 17, 9, 1, 59, 51, 43, 35,
       27, 19, 11, 3, 61, 53, 45, 37, 29, 21, 13, 5, 63, 55, 47, 39, 31, 23, 15, 7]"

definition FinPermut :: "nat list" where
  "FinPermut =
     [8, 40, 16, 48, 24, 56, 32, 64, 7, 39, 15, 47, 23, 55, 31, 63, 6, 38, 14, 46, 22, 54,
       30, 62, 5, 37, 13, 45, 21, 53, 29, 61, 4, 36, 12, 44, 20, 52, 28, 60, 3, 35, 11, 43,
       19, 51, 27, 59, 2, 34, 10, 42, 18, 50, 26, 58, 1, 33, 9, 41, 17, 49, 25, 57]"

definition KeyPermut :: "nat list" where
  "KeyPermut =
     [57, 49, 41, 33, 25, 17, 9, 1, 58, 50, 42, 34, 26, 18, 10, 2, 59, 51, 43, 35, 27, 19,
       11, 3, 60, 52, 44, 36, 63, 55, 47, 39, 31, 23, 15, 7, 62, 54, 46, 38, 30, 22, 14, 6,
       61, 53, 45, 37, 29, 21, 13, 5, 28, 20, 12, 4]"

definition TmpKeyPermut :: "nat list" where
  "TmpKeyPermut =
     [14, 17, 11, 24, 1, 5, 3, 28, 15, 6, 21, 10, 23, 19, 12, 4, 26, 8, 16, 7, 27, 20, 13,
       2, 41, 52, 31, 37, 47, 55, 30, 40, 51, 45, 33, 48, 44, 49, 39, 56, 34, 53, 46, 42,
       50, 36, 29, 32]"

definition Tmp1Permut :: "nat list" where
  "Tmp1Permut =
     [32, 1, 2, 3, 4, 5, 4, 5, 6, 7, 8, 9, 8, 9, 10, 11, 12, 13, 12, 13, 14, 15, 16, 17, 16,
       17, 18, 19, 20, 21, 20, 21, 22, 23, 24, 25, 24, 25, 26, 27, 28, 29, 28, 29, 30, 31,
       32, 1]"

definition Tmp2Permut :: "nat list" where
  "Tmp2Permut =
     [16, 7, 20, 21, 29, 12, 28, 17, 1, 15, 23, 26, 5, 18, 31, 10, 2, 8, 24, 14, 32, 27, 3,
       9, 19, 13, 30, 6, 22, 11, 4, 25]"

definition NumRotations :: "nat list list" where
  "NumRotations =
    [[1, 1, 2, 2, 2, 2, 2, 2, 1, 2, 2, 2, 2, 2, 2, 1],
     [0, 1, 2, 2, 2, 2, 2, 2, 1, 2, 2, 2, 2, 2, 2, 1]]"

definition ConvBits :: "nat list list" where
  "ConvBits =
    [[14, 4, 13, 1, 2, 15, 11, 8, 3, 10, 6, 12, 5, 9, 0, 7, 0, 15, 7, 4, 14, 2, 13, 1, 10,
       6, 12, 11, 9, 5, 3, 8, 4, 1, 14, 8, 13, 6, 2, 11, 15, 12, 9, 7, 3, 10, 5, 0, 15, 12,
       8, 2, 4, 9, 1, 7, 5, 11, 3, 14, 10, 0, 6, 13],
     [15, 1, 8, 14, 6, 11, 3, 4, 9, 7, 2, 13, 12, 0, 5, 10, 3, 13, 4, 7, 15, 2, 8, 14, 12,
       0, 1, 10, 6, 9, 11, 5, 0, 14, 7, 11, 10, 4, 13, 1, 5, 8, 12, 6, 9, 3, 2, 15, 13, 8,
       10, 1, 3, 15, 4, 2, 11, 6, 7, 12, 0, 5, 14, 9],
     [10, 0, 9, 14, 6, 3, 15, 5, 1, 13, 12, 7, 11, 4, 2, 8, 13, 7, 0, 9, 3, 4, 6, 10, 2, 8,
       5, 14, 12, 11, 15, 1, 13, 6, 4, 9, 8, 15, 3, 0, 11, 1, 2, 12, 5, 10, 14, 7, 1, 10,
       13, 0, 6, 9, 8, 7, 4, 15, 14, 3, 11, 5, 2, 12],
     [7, 13, 14, 3, 0, 6, 9, 10, 1, 2, 8, 5, 11, 12, 4, 15, 13, 8, 11, 5, 6, 15, 0, 3, 4, 7,
       2, 12, 1, 10, 14, 9, 10, 6, 9, 0, 12, 11, 7, 13, 15, 1, 3, 14, 5, 2, 8, 4, 3, 15, 0,
       6, 10, 1, 13, 8, 9, 4, 5, 11, 12, 7, 2, 14],
     [2, 12, 4, 1, 7, 10, 11, 6, 8, 5, 3, 15, 13, 0, 14, 9, 14, 11, 2, 12, 4, 7, 13, 1, 5,
       0, 15, 10, 3, 9, 8, 6, 4, 2, 1, 11, 10, 13, 7, 8, 15, 9, 12, 5, 6, 3, 0, 14, 11, 8,
       12, 7, 1, 14, 2, 13, 6, 15, 0, 9, 10, 4, 5, 3],
     [12, 1, 10, 15, 9, 2, 6, 8, 0, 13, 3, 4, 14, 7, 5, 11, 10, 15, 4, 2, 7, 12, 9, 5, 6, 1,
       13, 14, 0, 11, 3, 8, 9, 14, 15, 5, 2, 8, 12, 3, 7, 0, 4, 10, 1, 13, 11, 6, 4, 3, 2,
       12, 9, 5, 15, 10, 11, 14, 1, 7, 6, 0, 8, 13],
     [4, 11, 2, 14, 15, 0, 8, 13, 3, 12, 9, 7, 5, 10, 6, 1, 13, 0, 11, 7, 4, 9, 1, 10, 14,
       3, 5, 12, 2, 15, 8, 6, 1, 4, 11, 13, 12, 3, 7, 14, 10, 15, 6, 8, 0, 5, 9, 2, 6, 11,
       13, 8, 1, 4, 10, 7, 9, 5, 0, 15, 14, 2, 3, 12],
     [13, 2, 8, 4, 6, 15, 11, 1, 10, 9, 3, 14, 5, 0, 12, 7, 1, 15, 13, 8, 10, 3, 7, 4, 12,
       5, 6, 11, 0, 14, 9, 2, 7, 11, 4, 1, 9, 12, 14, 2, 0, 6, 10, 13, 15, 3, 5, 8, 2, 1,
       14, 7, 4, 10, 8, 13, 15, 12, 9, 0, 3, 5, 6, 11]]"

section \<open>One block\<close>

datatype des_method = DES_ENCRYPT | DES_DECRYPT

fun other_method :: "des_method \<Rightarrow> des_method" where
  "other_method DES_ENCRYPT = DES_DECRYPT"
| "other_method DES_DECRYPT = DES_ENCRYPT"

definition method_index :: "des_method \<Rightarrow> nat" where
  "method_index m = (case m of DES_ENCRYPT \<Rightarrow> 0 | DES_DECRYPT \<Rightarrow> 1)"

definition DesPermut :: "nat list \<Rightarrow> nat \<Rightarrow> bits \<Rightarrow> bits" where
  "DesPermut PermutTable sNumEntries OutData = (let TmpBlock = 0 # take 64 OutData in
     map (\<lambda>ii. TmpBlock ! (PermutTable ! ii)) [0..<sNumEntries] @ drop sNumEntries OutData)"

definition DesRotate :: "des_method \<Rightarrow> bits \<Rightarrow> bits" where
  "DesRotate sMethod OutBlock = (case sMethod of
     DES_ENCRYPT \<Rightarrow> (take 55 (drop 1 OutBlock) @ drop 55 OutBlock)[27 := OutBlock ! 0, 55 := OutBlock ! 28]
   | DES_DECRYPT \<Rightarrow> (take 1 OutBlock @ take 55 OutBlock @ drop 56 OutBlock)[0 := OutBlock ! 27, 28 := OutBlock ! 55])"

definition conv_bits :: "nat \<Rightarrow> bits" where
  "conv_bits jj = [jj div 2 div 2 div 2 mod 2, jj div 2 div 2 mod 2, jj div 2 mod 2, jj mod 2]"

definition DesConvert :: "bits \<Rightarrow> bits" where
  "DesConvert InBlock = concat (map (\<lambda>ii. conv_bits (ConvBits ! ii ! (
       0x20 * InBlock ! (6 * ii) + 0x10 * InBlock ! (6 * ii + 5) + 0x08 * InBlock ! (6 * ii + 1)
       + 0x04 * InBlock ! (6 * ii + 2) + 0x02 * InBlock ! (6 * ii + 3) + InBlock ! (6 * ii + 4)))) [0..<8])"

definition DesHexToBlock :: "bytes \<Rightarrow> bits" where
  "DesHexToBlock auchInHex = concat (map (\<lambda>uchByte. map (\<lambda>m. if uchByte AND m \<noteq> 0 then 1 else 0)
     [0x80, 0x40, 0x20, 0x10, 0x08, 0x04, 0x02, 0x01]) auchInHex)"

definition BYTEToHex :: "bits \<Rightarrow> bytes" where
  "BYTEToHex InBlock = map (\<lambda>ii. let b = drop (8 * ii) InBlock in
     word_of_nat (0x80 * b ! 0 + 0x40 * b ! 1 + 0x20 * b ! 2 + 0x10 * b ! 3 + 0x08 * b ! 4 + 0x04 * b ! 5
       + 0x02 * b ! 6 + b ! 7)) [0..<8]"

definition ssm_round :: "des_method \<Rightarrow> nat \<Rightarrow> bits \<times> bits \<Rightarrow> bits \<times> bits" where
  "ssm_round sMethod sCount st = (let (WorkBlock, KeyBlock) = st;
     TmpWorkBlock = take 32 WorkBlock;
     WorkBlock = drop 32 WorkBlock @ drop 32 WorkBlock;
     KeyBlock = (DesRotate sMethod ^^ (NumRotations ! method_index sMethod ! sCount)) KeyBlock;
     TmpBlock = DesPermut Tmp1Permut 48 WorkBlock;
     TmpKeyBlock = DesPermut TmpKeyPermut 48 KeyBlock;
     HlpBlock = bits_xor (take 48 TmpBlock) (take 48 TmpKeyBlock);
     TmpBlock = DesPermut Tmp2Permut 32 (DesConvert HlpBlock @ drop 32 TmpBlock) in
   (take 32 WorkBlock @ bits_xor TmpWorkBlock (take 32 TmpBlock), KeyBlock))"

definition DesDes :: "bytes \<Rightarrow> bytes \<Rightarrow> des_method \<Rightarrow> bytes" where
  "DesDes auchInput auchKey sMethod = (let
     WorkBlock = DesPermut InitPermut 64 (DesHexToBlock auchInput);
     KeyBlock = DesPermut KeyPermut 56 (DesHexToBlock auchKey);
     (WorkBlock, _) = fold (ssm_round sMethod) [0..<16] (WorkBlock, KeyBlock) in
   BYTEToHex (DesPermut FinPermut 64 WorkBlock))"

definition DesEncrypt :: "bytes \<Rightarrow> bytes \<Rightarrow> bytes" where
  "DesEncrypt auchInput auchKey = DesDes auchInput auchKey DES_ENCRYPT"

definition DesDecrypt :: "bytes \<Rightarrow> bytes \<Rightarrow> bytes" where
  "DesDecrypt auchInput auchKey = DesDes auchInput auchKey DES_DECRYPT"

section \<open>Messages\<close>

text \<open>\<open>sscanf\<close> with \<open>%02X\<close> on two characters: it stops at the first that is no digit. A pair that does not
  start with a hexadecimal digit (a space, a sign) or starts with the prefix \<open>0x\<close> is \<open>None\<close>.\<close>

definition hex_digit_value :: "byte \<Rightarrow> nat option" where
  "hex_digit_value c = (if 0x30 \<le> c \<and> c \<le> 0x39 then Some (unat c - 0x30)
     else if 0x41 \<le> c \<and> c \<le> 0x46 then Some (unat c - 0x37)
     else if 0x61 \<le> c \<and> c \<le> 0x66 then Some (unat c - 0x57) else None)"

definition scan_02X :: "byte \<Rightarrow> byte \<Rightarrow> byte option" where
  "scan_02X a b = (case hex_digit_value a of None \<Rightarrow> None
     | Some v \<Rightarrow> (case hex_digit_value b of
         None \<Rightarrow> if a = 0x30 \<and> (b = 0x58 \<or> b = 0x78) then None else Some (word_of_nat v)
       | Some w \<Rightarrow> Some (word_of_nat (16 * v + w))))"

fun scan_pairs :: "bytes \<Rightarrow> bytes option" where
  "scan_pairs (a # b # r) = do { c \<leftarrow> scan_02X a b; s \<leftarrow> scan_pairs r; Some (c # s) }"
| "scan_pairs _ = Some []"

definition ASCII2BCD :: "bytes \<Rightarrow> nat \<Rightarrow> bytes option" where
  "ASCII2BCD szInput iInputLen = do { s \<leftarrow> copy_at 0 (2 * (iInputLen div 2)) szInput; scan_pairs s }"

definition fmt_02X :: "byte \<Rightarrow> bytes" where
  "fmt_02X c = [nibble_char (unat c div 16), nibble_char (unat c mod 16)]"

definition BCD2ASCII :: "bytes \<Rightarrow> nat \<Rightarrow> bytes option" where
  "BCD2ASCII auchInput iInputlen = do {
     s \<leftarrow> copy_at 0 iInputlen auchInput;
     Some (if iInputlen = 0 then [] else concat (map fmt_02X s) @ [0]) }"

definition ssm_XOR :: "bytes \<Rightarrow> bytes \<Rightarrow> nat \<Rightarrow> bytes option" where
  "ssm_XOR auchInput1 auchInput2 iInputLen = do {
     a \<leftarrow> copy_at 0 iInputLen auchInput1; b \<leftarrow> copy_at 0 iInputLen auchInput2; Some (map2 (\<lambda>x y. x XOR y) a b) }"

text \<open>Eight bytes from position \<open>i\<close> on, zeros behind the end.\<close>

definition block_at :: "bytes \<Rightarrow> nat \<Rightarrow> bytes" where
  "block_at s i = (let b = take 8 (drop i s) in b @ replicate (8 - length b) 0)"

definition block_starts :: "nat \<Rightarrow> nat list" where
  "block_starts n = map (\<lambda>i. 8 * i) [0..<(n + 7) div 8]"

definition mac_chain :: "bytes \<Rightarrow> bytes \<Rightarrow> bytes" where
  "mac_chain auchKey s = fold (\<lambda>n auchTemp2. DesDes (BitXor auchTemp2 (block_at s n)) auchKey DES_ENCRYPT)
     (drop 1 (block_starts (length s))) (DesDes (block_at s 0) auchKey DES_ENCRYPT)"

text \<open>For a key length that is none of the three nothing is written.\<close>

definition ssm_MAC :: "bytes \<Rightarrow> nat \<Rightarrow> bytes \<Rightarrow> nat \<Rightarrow> bytes option" where
  "ssm_MAC auchInput iInputLen auchKey iKeyLen = do {
     s \<leftarrow> copy_at 0 iInputLen auchInput;
     k1 \<leftarrow> copy_at 0 8 auchKey;
     let auchTemp2 = mac_chain k1 s;
     if iKeyLen = 8 then Some auchTemp2
     else if iKeyLen = 16 then do {
       k2 \<leftarrow> copy_at 8 8 auchKey;
       Some (DesDes (DesDes auchTemp2 k2 DES_DECRYPT) k1 DES_ENCRYPT) }
     else if iKeyLen = 24 then do {
       k2 \<leftarrow> copy_at 8 8 auchKey;
       k3 \<leftarrow> copy_at 16 8 auchKey;
       Some (DesDes (DesDes auchTemp2 k2 DES_DECRYPT) k3 DES_ENCRYPT) }
     else Some [] }"

definition des_blocks :: "(bytes \<Rightarrow> bytes) \<Rightarrow> bytes \<Rightarrow> bytes" where
  "des_blocks g s = concat (map (\<lambda>i. g (block_at s i)) (block_starts (length s)))"

definition Des3 :: "bytes \<Rightarrow> nat \<Rightarrow> bytes \<Rightarrow> nat \<Rightarrow> des_method \<Rightarrow> bytes option" where
  "Des3 auchInput iInputLen auchKey iKeyLen sMethod = do {
     s \<leftarrow> copy_at 0 iInputLen auchInput;
     if iKeyLen = 8 then do {
       k \<leftarrow> copy_at 0 8 auchKey;
       Some (des_blocks (\<lambda>b. DesDes b k sMethod) s) }
     else if iKeyLen = 16 then do {
       k1 \<leftarrow> copy_at 0 8 auchKey;
       k2 \<leftarrow> copy_at 8 8 auchKey;
       Some (des_blocks (\<lambda>b. DesDes (DesDes (DesDes b k1 sMethod) k2 (other_method sMethod)) k1 sMethod) s) }
     else if iKeyLen = 24 then do {
       k1 \<leftarrow> copy_at 0 8 auchKey;
       k2 \<leftarrow> copy_at 8 8 auchKey;
       k3 \<leftarrow> copy_at 16 8 auchKey;
       Some (des_blocks (\<lambda>b. DesDes (DesDes (DesDes b k1 sMethod) k2 (other_method sMethod)) k3 sMethod) s) }
     else Some [] }"

section \<open>The same cipher as the others\<close>

lemma ssm_tables:
  "InitPermut = IP_Tr" "KeyPermut = PC_1_Tr" "TmpKeyPermut = PC_2_Tr" "Tmp1Permut = Etr" "Tmp2Permut = P_Tr"
  "ConvBits = SB" "NumRotations = [Left_move, right_move]"
  by code_simp+

lemma FinPermut_swap: "list_all (\<lambda>i. FinPermut ! i = swap_Tr ! (IP_1_Tr ! i - 1) \<and> FinPermut ! i \<noteq> 0 \<and> IP_1_Tr ! i \<noteq> 0 \<and> IP_1_Tr ! i - 1 < 64) [0..<64]"
  by code_simp

lemma DesPermut_transpose:
  assumes "length d = 64" "list_all (\<lambda>i. i \<noteq> 0 \<and> i \<le> 64) t" "n \<le> length t"
  shows "DesPermut t n d = transpose_bits t n d"
proof -
  have "(0 # take 64 d) ! (t ! i) = d ! (t ! i - 1)" if "i < n" for i
  proof -
    have "t ! i \<noteq> 0" "t ! i \<le> 64" using that assms(2,3) by (simp_all add: list_all_length)
    then show ?thesis using assms(1) by (cases "t ! i") simp_all
  qed
  then show ?thesis by (simp add: DesPermut_def transpose_bits_def Let_def)
qed

lemma DesRotate_move:
  assumes "length k = 64"
  shows "DesRotate DES_ENCRYPT k = leftmove k" "DesRotate DES_DECRYPT k = rightmove k"
proof -
  show "DesRotate DES_ENCRYPT k = leftmove k"
  proof (rule nth_equalityI)
    show "length (DesRotate DES_ENCRYPT k) = length (leftmove k)" using assms by (simp add: DesRotate_def)
    fix i assume "i < length (DesRotate DES_ENCRYPT k)"
    then have "i < 64" using assms by (simp add: DesRotate_def)
    then show "DesRotate DES_ENCRYPT k ! i = leftmove k ! i"
      using assms by (auto simp: DesRotate_def leftmove_def nth_list_update nth_append)
  qed
  show "DesRotate DES_DECRYPT k = rightmove k"
  proof (rule nth_equalityI)
    show "length (DesRotate DES_DECRYPT k) = length (rightmove k)" using assms by (simp add: DesRotate_def)
    fix i assume "i < length (DesRotate DES_DECRYPT k)"
    then have "i < 64" using assms by (simp add: DesRotate_def)
    then show "DesRotate DES_DECRYPT k ! i = rightmove k ! i"
      using assms by (auto simp: DesRotate_def rightmove_def nth_list_update nth_append nth_Cons')
  qed
qed

lemma rotate_pow:
  assumes "length k = 64" "i < 16"
  shows "(DesRotate m ^^ (NumRotations ! method_index m ! i)) k = move_key (mode_of (m = DES_ENCRYPT)) i k"
proof -
  have e: "(DesRotate DES_ENCRYPT ^^ n) k = (leftmove ^^ n) k" for n
    using assms(1) by (induction n) (simp_all add: DesRotate_move left_pow_len)
  have d: "(DesRotate DES_DECRYPT ^^ n) k = (rightmove ^^ n) k" for n
    using assms(1) by (induction n) (simp_all add: DesRotate_move right_pow_len)
  show ?thesis by (cases m) (simp_all add: ssm_tables method_index_def mode_of_def move_key_def e d)
qed

lemma conv_nibble: "conv_bits = nibble_bits"
  by (intro ext) (simp add: conv_bits_def nibble_bits_def div_mult2_eq [symmetric])

lemma DesConvert_boxes: "DesConvert tem = concat (map (\<lambda>j. nibble_bits (SB ! (j - 1) ! sbox_index tem j)) [1..<9])"
proof -
  have up: "[1..<9] = map Suc [0..<8]" by code_simp
  have ix: "6 * Suc i - 6 = 6 * i" "6 * Suc i - 1 = 6 * i + 5" "6 * Suc i - 5 = 6 * i + 1"
    "6 * Suc i - 4 = 6 * i + 2" "6 * Suc i - 3 = 6 * i + 3" "6 * Suc i - 2 = 6 * i + 4" for i :: nat
    by simp_all
  show ?thesis
    unfolding DesConvert_def up map_map o_def sbox_index_def ix ssm_tables(6) conv_nibble diff_Suc_1 ..
qed

lemma transpose_part: "list_all (\<lambda>i. i \<noteq> 0 \<and> i \<le> length a) t \<Longrightarrow> n \<le> length t \<Longrightarrow> n \<le> length a \<Longrightarrow>
    take n (transpose_bits t n (a @ b)) = take n (transpose_bits t n a)"
proof -
  assume t: "list_all (\<lambda>i. i \<noteq> 0 \<and> i \<le> length a) t" "n \<le> length t" and n: "n \<le> length a"
  have "(a @ b) ! (t ! i - 1) = a ! (t ! i - 1)" if "i < n" for i
  proof -
    have "t ! i \<noteq> 0" "t ! i \<le> length a" using t that by (simp_all add: list_all_length)
    then have "t ! i - 1 < length a" by linarith
    then show ?thesis by (simp add: nth_append)
  qed
  then show ?thesis by (simp add: transpose_bits_def)
qed

lemma boxes_len: "length (concat (map (\<lambda>j. nibble_bits (v j)) js)) = 4 * length js"
  by (induction js) (simp_all add: nibble_bits_def)

lemma ssm_round_des:
  assumes "length w = 64" "length k = 64" "i < 16"
  shows "ssm_round m i (w, k) = des_round (mode_of (m = DES_ENCRYPT)) i (w, k)"
    and "length (fst (des_round (mode_of (m = DES_ENCRYPT)) i (w, k))) = 64"
    and "length (snd (des_round (mode_of (m = DES_ENCRYPT)) i (w, k))) = 64"
proof -
  let ?r = "drop 32 w" and ?mode = "mode_of (m = DES_ENCRYPT)"
  let ?k = "move_key ?mode i k"
  let ?tem = "bits_xor (take 48 (transpose_bits Etr 48 (?r @ ?r))) (take 48 (transpose_bits PC_2_Tr 48 ?k))"
  let ?rf = "concat (map (\<lambda>j. nibble_bits (SB ! (j - 1) ! sbox_index ?tem j)) [1..<9])"
  have len: "length (?r @ ?r) = 64" "length ?k = 64"
    using assms by (simp_all add: move_key_def left_pow_len right_pow_len)
  have nz: "list_all (\<lambda>i. i \<noteq> 0 \<and> i \<le> 64) Etr" "list_all (\<lambda>i. i \<noteq> 0 \<and> i \<le> 64) PC_2_Tr"
    "list_all (\<lambda>i. i \<noteq> 0 \<and> i \<le> 64) P_Tr" "list_all (\<lambda>i. i \<noteq> 0 \<and> i \<le> 32) P_Tr"
    "length Etr = 48" "length PC_2_Tr = 48" "length P_Tr = 32" by code_simp+
  have rf: "length ?rf = 32" using boxes_len [of _ "[1..<9]"] by simp
  have tb: "length (?rf @ drop 32 (transpose_bits Etr 48 (?r @ ?r))) = 64"
    using rf len(1) by simp
  have p: "DesPermut Etr 48 (?r @ ?r) = transpose_bits Etr 48 (?r @ ?r)"
    "DesPermut PC_2_Tr 48 ?k = transpose_bits PC_2_Tr 48 ?k"
    "DesPermut P_Tr 32 (?rf @ drop 32 (transpose_bits Etr 48 (?r @ ?r))) = transpose_bits P_Tr 32 (?rf @ drop 32 (transpose_bits Etr 48 (?r @ ?r)))"
    using nz(5-7) by (simp_all only: DesPermut_transpose [OF len(1) nz(1)] DesPermut_transpose [OF len(2) nz(2)]
      DesPermut_transpose [OF tb nz(3)] order_refl)
  have q: "take 32 (transpose_bits P_Tr 32 (?rf @ drop 32 (transpose_bits Etr 48 (?r @ ?r)))) = des_core ?k (?r @ ?r)"
  proof -
    have "take 32 (transpose_bits P_Tr 32 (?rf @ x)) = transpose_bits P_Tr 32 ?rf" for x
      using transpose_part [of ?rf P_Tr 32 x] nz(4,7) rf by simp
    then show ?thesis unfolding des_core_def Let_def .
  qed
  show "ssm_round m i (w, k) = des_round ?mode i (w, k)"
    unfolding ssm_round_def des_round_def des_f_def Let_def prod.case rotate_pow [OF assms(2,3)] ssm_tables(1-5) p DesConvert_boxes q
    using assms(1) by simp
  have "length (des_core ?k (?r @ ?r)) = 32" unfolding des_core_def Let_def using rf by simp
  then show "length (fst (des_round ?mode i (w, k))) = 64" "length (snd (des_round ?mode i (w, k))) = 64"
    using assms(1) len(2) by (simp_all add: des_round_def Let_def des_f_def bits_xor_def)
qed

lemma ssm_rounds_des:
  assumes "length w = 64" "length k = 64" "list_all (\<lambda>i. i < 16) is"
  shows "fold (ssm_round m) is (w, k) = fold (des_round (mode_of (m = DES_ENCRYPT))) is (w, k)"
  using assms
proof (induction "is" arbitrary: w k)
  case (Cons i "is")
  then have i: "i < 16" by simp
  note s = ssm_round_des [OF Cons.prems(1,2) i, of m]
  obtain w' k' where "des_round (mode_of (m = DES_ENCRYPT)) i (w, k) = (w', k')" by fastforce
  with s Cons show ?case by simp
qed simp

lemma des_rounds_len:
  assumes "length w = 64" "length k = 64" "list_all (\<lambda>i. i < 16) is"
  shows "length (fst (fold (des_round (mode_of (m = DES_ENCRYPT))) is (w, k))) = 64"
  using assms
proof (induction "is" arbitrary: w k)
  case (Cons i "is")
  then have i: "i < 16" by simp
  note s = ssm_round_des [OF Cons.prems(1,2) i, of m]
  obtain w' k' where "des_round (mode_of (m = DES_ENCRYPT)) i (w, k) = (w', k')" by fastforce
  with s Cons show ?case by simp
qed simp

lemma DesHexToBlock_bits: "DesHexToBlock s = BitToByte s"
proof -
  have "c AND 2 ^ i \<noteq> 0 \<longleftrightarrow> bit c i" for c :: byte and i by (simp add: and_exp_eq_0_iff_not_bit)
  from this [of _ 7] this [of _ 6] this [of _ 5] this [of _ 4] this [of _ 3] this [of _ 2] this [of _ 1] this [of _ 0]
  show ?thesis by (simp add: DesHexToBlock_def BitToByte_def bit_of_def)
qed

lemma BYTEToHex_byte: "BYTEToHex d = ByteToBit d 8"
  by (simp add: BYTEToHex_def ByteToBit_def byte_from_def Let_def)

lemma DesDes_DesAlgo:
  assumes "length s = 8" "length k = 8"
  shows "DesDes s k m = DesAlgo k s (m = DES_ENCRYPT)"
proof -
  let ?s = "BitToByte s" and ?k = "BitToByte k" and ?mode = "mode_of (m = DES_ENCRYPT)"
  let ?w = "transpose_bits IP_Tr 64 ?s" and ?pk = "transpose_bits PC_1_Tr 56 ?k"
  let ?r = "fst (fold (des_round ?mode) [0..<16] (?w, ?pk))"
  have b: "is_bits 64 ?s" "length ?s = 64" "length ?k = 64" using BitToByte_bits [of s] assms by simp_all
  have len: "length ?w = 64" "length ?pk = 64" using b by simp_all
  have all: "list_all (\<lambda>i. i < 16) [0..<16]" by (simp add: list_all_iff)
  have t: "list_all (\<lambda>i. i \<noteq> 0 \<and> i \<le> 64) IP_Tr" "list_all (\<lambda>i. i \<noteq> 0 \<and> i \<le> 64) PC_1_Tr" "list_all (\<lambda>i. i \<noteq> 0 \<and> i \<le> 64) FinPermut"
    "64 \<le> length IP_Tr" "56 \<le> length PC_1_Tr" "64 \<le> length FinPermut" by code_simp+
  have r: "length ?r = 64" by (rule des_rounds_len [OF len all])
  have fin: "transpose_bits FinPermut 64 ?r = transpose_bits IP_1_Tr 64 (transpose_bits swap_Tr 64 ?r)"
  proof (rule nth_equalityI)
    show "length (transpose_bits FinPermut 64 ?r) = length (transpose_bits IP_1_Tr 64 (transpose_bits swap_Tr 64 ?r))" using r by simp
    fix i assume "i < length (transpose_bits FinPermut 64 ?r)"
    then have "i < 64" using r by simp
    then have "FinPermut ! i = swap_Tr ! (IP_1_Tr ! i - 1)" "IP_1_Tr ! i - 1 < 64" "i < 64"
      using FinPermut_swap unfolding list_all_iff set_upt by auto
    then show "transpose_bits FinPermut 64 ?r ! i = transpose_bits IP_1_Tr 64 (transpose_bits swap_Tr 64 ?r) ! i"
      by (simp add: transpose_nth)
  qed
  have "DesDes s k m = ByteToBit (transpose_bits FinPermut 64 ?r) 8"
    unfolding DesDes_def Let_def DesHexToBlock_bits ssm_tables DesPermut_transpose [OF b(2) t(1,4)]
      DesPermut_transpose [OF b(3) t(2,5)] ssm_rounds_des [OF len all] BYTEToHex_byte
    using DesPermut_transpose [OF r t(3,6)] by (simp add: case_prod_beta)
  also have "\<dots> = ByteToBit (des ?s ?k ?mode) 8"
    unfolding fin des_def Let_def by (simp add: case_prod_beta)
  also have "\<dots> = DesAlgo k s (m = DES_ENCRYPT)" using DesAlgo_bits [OF b(1,3)] by simp
  finally show ?thesis .
qed

lemma DesDes_len: "length (DesDes s k m) = 8"
  by (simp add: DesDes_def BYTEToHex_def case_prod_beta Let_def)

interpretation ssm: ede "\<lambda>k s. DesDes s k DES_ENCRYPT" "\<lambda>k s. DesDes s k DES_DECRYPT" "\<lambda>k. length k = 8" "\<lambda>s. length s = 8"
  using DesAlgo_undo [where e = True] DesAlgo_undo [where e = False]
  by unfold_locales (simp_all add: DesDes_len DesDes_DesAlgo DesAlgo_spec)

lemma DesDes_undo: "length s = 8 \<Longrightarrow> length k = 8 \<Longrightarrow> DesDes (DesDes s k m) k (other_method m) = s"
  by (cases m) (simp_all add: ssm.dec_enc ssm.enc_dec)

section \<open>Blocks\<close>

lemma block_at_len [simp]: "length (block_at s i) = 8"
  by (simp add: block_at_def Let_def)

lemma block_at_full: "i + 8 \<le> length s \<Longrightarrow> block_at s i = take 8 (drop i s)"
  by (simp add: block_at_def Let_def)

lemma block_starts_Suc: "block_starts (8 + n) = 0 # map (\<lambda>i. 8 + i) (block_starts n)"
proof -
  have "(8 + n + 7) div 8 = Suc ((n + 7) div 8)" by simp
  then show ?thesis by (simp add: block_starts_def upt_rec [of 0] map_Suc_upt [symmetric] del: upt_Suc)
qed

lemma block_at_append: "length b = 8 \<Longrightarrow> block_at (b @ s) 0 = b" "length b = 8 \<Longrightarrow> block_at (b @ s) (8 + i) = block_at s i"
  by (simp_all add: block_at_def Let_def)

lemma des_blocks_append: "length b = 8 \<Longrightarrow> des_blocks g (b @ s) = g b @ des_blocks g s"
  by (simp add: des_blocks_def block_starts_Suc block_at_append o_def)

lemma des_blocks_Nil [simp]: "des_blocks g [] = []"
  by (simp add: des_blocks_def block_starts_def)

lemma des_blocks_undo:
  assumes "\<And>b. length b = 8 \<Longrightarrow> length (g b) = 8 \<and> g' (g b) = b" "length s = 8 * n"
  shows "length (des_blocks g s) = length s \<and> des_blocks g' (des_blocks g s) = s"
  using assms(2)
proof (induction n arbitrary: s)
  case (Suc n)
  have b: "length (take 8 s) = 8" "length (drop 8 s) = 8 * n" "s = take 8 s @ drop 8 s" using Suc.prems by simp_all
  have e: "des_blocks g s = g (take 8 s) @ des_blocks g (drop 8 s)"
    using des_blocks_append [OF b(1), of g "drop 8 s"] by simp
  from assms(1) [OF b(1)] Suc.IH [OF b(2)] show ?case
    unfolding e using Suc.prems by (simp add: des_blocks_append)
qed simp

lemma Des3_parts:
  assumes "length k1 = 8" "length k2 = 8" "length k3 = 8"
  shows "Des3 s (length s) k1 8 m = Some (des_blocks (\<lambda>b. DesDes b k1 m) s)"
    "Des3 s (length s) (k1 @ k2) 16 m = Some (des_blocks (\<lambda>b. DesDes (DesDes (DesDes b k1 m) k2 (other_method m)) k1 m) s)"
    "Des3 s (length s) (k1 @ k2 @ k3) 24 m = Some (des_blocks (\<lambda>b. DesDes (DesDes (DesDes b k1 m) k2 (other_method m)) k3 m) s)"
  using assms by (simp_all add: Des3_def copy_at_def)

text \<open>C15: \<open>DesDes\<close> is the DES of \<open>src/CTSI\<close>: \<open>DesEncrypt\<close> and \<open>DesDecrypt\<close> return, for every key and block of eight
  bytes, what \<open>EnDES\<close> and \<open>DeDES\<close> of \<open>3DES.cpp\<close> return, although the one keeps a 64-place key and exchanges the halves
  through its last table and the other keeps two 28-place halves.\<close>

theorem DesDes_is_EnDES:
  assumes "length s = 8" "length k = 8"
  shows "EnDES k s = Some (DesEncrypt s k) \<and> DeDES k s = Some (DesDecrypt s k)"
  using assms by (simp add: EnDES_8 DeDES_8 DesEncrypt_def DesDecrypt_def DesDes_DesAlgo)

theorem DesDes_is_EnDES_witness: "EnDES (replicate 8 7) [1, 2, 3, 4, 5, 6, 7, 8] = Some (DesEncrypt [1, 2, 3, 4, 5, 6, 7, 8] (replicate 8 7))"
  using DesDes_is_EnDES [of "[1, 2, 3, 4, 5, 6, 7, 8]" "replicate 8 7"] by simp

text \<open>C36: Messages of whole blocks: for a key of 8 or 16 bytes \<open>Des3\<close> with the other method and the same key returns
  the message; for a key of 24 bytes it is the key with its outer parts exchanged that returns it, because the parts
  are used in the same order in both directions.\<close>

theorem Des3_roundtrip:
  assumes "length k1 = 8" "length k2 = 8" "length k3 = 8" "length s mod 8 = 0"
  shows "\<exists>o8 o16 o24. Des3 s (length s) k1 8 m = Some o8 \<and> Des3 o8 (length s) k1 8 (other_method m) = Some s
    \<and> Des3 s (length s) (k1 @ k2) 16 m = Some o16 \<and> Des3 o16 (length s) (k1 @ k2) 16 (other_method m) = Some s
    \<and> Des3 s (length s) (k1 @ k2 @ k3) 24 m = Some o24 \<and> Des3 o24 (length s) (k3 @ k2 @ k1) 24 (other_method m) = Some s"
proof -
  have s: "length s = 8 * (length s div 8)" using mult_div_mod_eq [of 8 "length s"] assms(4) by simp
  have oo: "other_method (other_method m) = m" by (cases m) simp_all
  note u = DesDes_undo [OF _ assms(1)] DesDes_undo [OF _ assms(2)] DesDes_undo [OF _ assms(3)]
    DesDes_undo [OF _ assms(2), where m = "other_method m", unfolded oo]
  let ?g8 = "\<lambda>b. DesDes b k1 m" and ?h8 = "\<lambda>b. DesDes b k1 (other_method m)"
  let ?g = "\<lambda>k b. DesDes (DesDes (DesDes b k1 m) k2 (other_method m)) k m"
  let ?h = "\<lambda>k b. DesDes (DesDes (DesDes b k (other_method m)) k2 m) k1 (other_method m)"
  have "length (des_blocks ?g8 s) = length s \<and> des_blocks ?h8 (des_blocks ?g8 s) = s"
    by (rule des_blocks_undo [OF _ s]) (simp add: DesDes_len u)
  moreover have g: "length (des_blocks (?g k) s) = length s \<and> des_blocks (?h k) (des_blocks (?g k) s) = s" if "length k = 8" for k
    by (rule des_blocks_undo [OF _ s]) (use that in \<open>simp add: DesDes_len u DesDes_undo\<close>)
  ultimately show ?thesis
    using g [OF assms(1)] g [OF assms(3)] Des3_parts(1) [OF assms(1-3)] Des3_parts(2) [OF assms(1-3)]
      Des3_parts(3) [OF assms(1-3)] Des3_parts(3) [OF assms(3,2,1)]
    by (metis oo)
qed

theorem Des3_roundtrip_witness:
  "\<exists>out. Des3 (replicate 16 5) 16 (replicate 8 1 @ replicate 8 2 @ replicate 8 3) 24 DES_ENCRYPT = Some out
    \<and> Des3 out 16 (replicate 8 3 @ replicate 8 2 @ replicate 8 1) 24 DES_DECRYPT = Some (replicate 16 5)"
  using Des3_roundtrip [of "replicate 8 1" "replicate 8 2" "replicate 8 3" "replicate 16 5" DES_ENCRYPT] by auto

section \<open>MAC\<close>

lemma cbc_fold: "list_all (\<lambda>b. length b = 8) bs \<Longrightarrow> length k = 8 \<Longrightarrow> length v = 8 \<Longrightarrow>
    cbc k bs v = Some (fold (\<lambda>b v. DesAlgo k (BitXor b v) True) bs v)"
  by (induction bs arbitrary: v) (simp_all add: EnDES_8 BitXor_def DesAlgo_spec)

lemma BitXor_zero: "length b = 8 \<Longrightarrow> BitXor b (replicate 8 0) = b"
  by (intro nth_equalityI) (simp_all add: BitXor_def)

lemma BitXor_commute: "BitXor a b = BitXor b a"
  unfolding BitXor_def by (subst zip_commute) (simp add: xor.commute case_prod_beta)

lemma BitXor_len: "length a = n \<Longrightarrow> length b = n \<Longrightarrow> length (BitXor a b) = n"
  by (simp add: BitXor_def)

lemma mac_chain_len: "length (mac_chain k s) = 8"
proof -
  have "length t = 8 \<Longrightarrow> length (fold (\<lambda>n t. DesDes (BitXor t (block_at s n)) k DES_ENCRYPT) ns t) = 8" for ns t
    by (induction ns arbitrary: t) (simp_all add: DesDes_len)
  then show ?thesis by (simp add: mac_chain_def DesDes_len)
qed

lemma mac_chain_cbc:
  assumes "s \<noteq> []" "length k = 8"
  shows "cbc k (map (block_at s) (block_starts (length s))) (replicate 8 0) = Some (mac_chain k s)"
proof -
  have "0 < (length s + 7) div 8" using assms(1) by (cases s) simp_all
  then have st: "block_starts (length s) = 0 # drop 1 (block_starts (length s))"
    by (simp add: block_starts_def upt_rec [of 0])
  have e: "fold (\<lambda>b v. DesAlgo k (BitXor b v) True) (map (block_at s) ns) t
      = fold (\<lambda>n t. DesDes (BitXor t (block_at s n)) k DES_ENCRYPT) ns t" if "length t = 8" for ns t
    using that
  proof (induction ns arbitrary: t)
    case (Cons n ns)
    then show ?case using assms(2)
      by (simp add: DesDes_DesAlgo BitXor_commute [of "block_at s n" t] BitXor_len DesAlgo_spec)
  qed simp
  have "cbc k (map (block_at s) (block_starts (length s))) (replicate 8 0)
      = Some (fold (\<lambda>b v. DesAlgo k (BitXor b v) True) (map (block_at s) (block_starts (length s))) (replicate 8 0))"
    using assms(2) by (intro cbc_fold) (simp_all add: list_all_iff)
  also have "\<dots> = Some (fold (\<lambda>n t. DesDes (BitXor t (block_at s n)) k DES_ENCRYPT) (drop 1 (block_starts (length s)))
      (DesAlgo k (block_at s 0) True))"
    by (subst st) (simp add: BitXor_zero e DesAlgo_spec assms(2) del: drop_Suc)
  finally show ?thesis using assms(2) by (simp add: mac_chain_def DesDes_DesAlgo)
qed

lemma those_Some: "those (map (\<lambda>i. Some (f i)) xs) = Some (map f xs)"
  by (induction xs) simp_all

lemma full_blocks_at:
  assumes "8 * n \<le> length s"
  shows "full_blocks s n = Some (map (\<lambda>i. block_at s (8 * i)) [0..<n])"
proof -
  have "map (\<lambda>i. copy_at (8 * i) 8 s) [0..<n] = map (\<lambda>i. Some (block_at s (8 * i))) [0..<n]"
    using assms by (auto simp: copy_at_def block_at_full)
  then show ?thesis unfolding full_blocks_def by (simp only: those_Some)
qed

definition pad_80 :: "bytes \<Rightarrow> bytes" where
  "pad_80 s = s @ [0x80] @ replicate (7 - length s mod 8) 0"

lemma pad_80_len: "length (pad_80 s) = 8 * (length s div 8 + 1)"
proof -
  obtain q r where l: "length s = 8 * q + r" "r < 8" "length s div 8 = q" "length s mod 8 = r"
    using div_mod_8 [of "length s"] by blast
  then have "length (pad_80 s) = 8 * q + r + (1 + (7 - r))" unfolding pad_80_def by simp
  then show ?thesis unfolding l(3) using l(2) by presburger
qed

lemma block_starts_mult: "block_starts (8 * n) = map ((*) 8) [0..<n]"
  by (simp add: block_starts_def)

lemma padded_blocks_at:
  "padded_blocks s (length s) = Some (map (block_at (pad_80 s)) (block_starts (length (pad_80 s))))"
proof -
  obtain q r where l: "length s = 8 * q + r" "r < 8" "length s div 8 = q" "length s mod 8 = r"
    using div_mod_8 [of "length s"] by blast
  have a: "8 - ((q + 1) * 8 - length s) = r" unfolding l(1) using l(2) by presburger
  have c: "copy_at (8 * q) r s = Some (drop (8 * q) s)" using l(1) by (simp add: copy_at_def)
  have last: "drop (8 * q) s @ [0x80] @ replicate (8 - (r + 1)) 0 = block_at (pad_80 s) (8 * q)"
  proof -
    have "drop (8 * q) (pad_80 s) = drop (8 * q) s @ [0x80] @ replicate (7 - r) 0"
      using l(1,4) by (simp add: pad_80_def)
    then show ?thesis using pad_80_len [of s] l by (simp add: block_at_def Let_def)
  qed
  have "block_at (pad_80 s) (8 * i) = block_at s (8 * i)" if "i < q" for i
  proof -
    have "8 * i + 8 \<le> length s" using that l(1) by linarith
    then show ?thesis by (simp add: block_at_full pad_80_def)
  qed
  then have "map (\<lambda>i. block_at s (8 * i)) [0..<q] = map (\<lambda>i. block_at (pad_80 s) (8 * i)) [0..<q]" by simp
  moreover have "full_blocks s q = Some (map (\<lambda>i. block_at s (8 * i)) [0..<q])"
    using l(1) by (intro full_blocks_at) simp
  ultimately show ?thesis
    unfolding padded_blocks_def Let_def l(3) a pad_80_len block_starts_mult add_diff_cancel_right' c last Option.bind.bind_lunit
    by (simp add: o_def)
qed

section \<open>Properties of the codes\<close>

lemma retail: "length ka = 8 \<Longrightarrow> length kb = 8 \<Longrightarrow> length m = 8 \<Longrightarrow>
    do { t \<leftarrow> DeDES kb m; r' \<leftarrow> EnDES ka t; Some (take 4 r') }
      = Some (take 4 (DesDes (DesDes m kb DES_DECRYPT) ka DES_ENCRYPT))"
  by (simp add: DeDES_8 EnDES_8 DesAlgo_spec DesDes_DesAlgo)

text \<open>C35: \<open>MAC16\<close> of \<open>3DES.cpp\<close> started with zeros is the first half of the other program's \<open>MAC\<close> under the same
  16-byte key of the data with 0x80 and zeros appended up to a whole block.\<close>

theorem MAC16_is_ssm_MAC:
  assumes "length key = 16"
  shows "MAC16 key s (length s) (replicate 8 0)
    = map_option (take 4) (ssm_MAC (pad_80 s) (length (pad_80 s)) key 16)"
proof -
  have k: "copy_at 0 8 key = Some (take 8 key)" "copy_at 8 8 key = Some (drop 8 key)" "length (take 8 key) = 8" "length (drop 8 key) = 8"
    using assms by (simp_all add: copy_at_def)
  have "pad_80 s \<noteq> []" by (simp add: pad_80_def)
  note c = mac_chain_cbc [OF this k(3)]
  have z: "copy_at 0 8 (replicate 8 (0 :: byte)) = Some (replicate 8 0)" by (rule copy_at_all) simp
  have n: "(16 :: nat) \<noteq> 8" by simp
  show ?thesis
    unfolding MAC16_def ssm_MAC_def padded_blocks_at copy_at_all [OF refl] k(1,2) Let_def Option.bind.bind_lunit z c
      retail [OF k(3,4) mac_chain_len] if_not_P [OF n] if_P [OF refl] option.map ..
qed

theorem MAC16_is_ssm_MAC_witness:
  "MAC16 (replicate 16 9) [1, 2, 3] (length [1, 2, 3 :: byte]) (replicate 8 0)
    = map_option (take 4) (ssm_MAC (pad_80 [1, 2, 3]) (length (pad_80 [1, 2, 3])) (replicate 16 9) 16)"
  by (rule MAC16_is_ssm_MAC) simp

text \<open>\<open>DES3MAC\<close> uses one DES key and leaves out an incomplete last block: started with zeros it is the first half of
  the other program's \<open>MAC\<close> of the whole blocks under the first eight bytes of the key, whatever follows them, and of
  data shorter than a block it is zero.\<close>

theorem DES3MAC_whole_blocks:
  assumes "length key \<ge> 8"
  shows "DES3MAC key s (length s) (replicate 8 0) = (if length s < 8 then Some (replicate 4 0)
    else map_option (take 4) (ssm_MAC s (8 * (length s div 8)) (take 8 key) 8))"
proof -
  let ?q = "length s div 8" and ?k = "take 8 key"
  let ?s = "take (8 * ?q) s"
  have q: "8 * ?q \<le> length s" by simp
  have k: "length ?k = 8" using assms by simp
  have "EnDES key v = EnDES ?k v" for v using assms by (simp add: EnDES_def copy_at_def)
  then have "cbc key bs v = cbc ?k bs v" for bs v by (induction bs arbitrary: v) (simp_all cong: Option.bind_cong)
  then have m: "DES3MAC key s (length s) (replicate 8 0)
      = map_option (take 4) (cbc ?k (map (\<lambda>i. block_at s (8 * i)) [0..<?q]) (replicate 8 0))"
    unfolding DES3MAC_def full_blocks_at [OF q]
    by (cases "cbc ?k (map (\<lambda>i. block_at s (8 * i)) [0..<?q]) (replicate 8 0)") (simp_all add: copy_at_all)
  show ?thesis
  proof (cases "length s < 8")
    case True
    then show ?thesis unfolding m by simp
  next
    case False
    have "block_at ?s (8 * i) = block_at s (8 * i)" if "i < ?q" for i
    proof -
      have "8 * i + 8 \<le> 8 * ?q" using that by linarith
      then have "8 * i + 8 \<le> length ?s" "8 * i + 8 \<le> length s" using q by simp_all
      then show ?thesis using \<open>8 * i + 8 \<le> 8 * ?q\<close> by (simp add: block_at_full drop_take min_def)
    qed
    moreover have ls: "length ?s = 8 * ?q" using q by simp
    ultimately have e: "map (block_at ?s) (block_starts (length ?s)) = map (\<lambda>i. block_at s (8 * i)) [0..<?q]"
      unfolding ls block_starts_mult by simp
    have "?s \<noteq> []" using False by (cases s) (simp_all add: not_less div_greater_zero_iff)
    from mac_chain_cbc [OF this k] have "cbc ?k (map (\<lambda>i. block_at s (8 * i)) [0..<?q]) (replicate 8 0) = Some (mac_chain ?k ?s)"
      unfolding e .
    then show ?thesis unfolding m using False k q by (simp add: ssm_MAC_def copy_at_def Let_def)
  qed
qed

theorem DES3MAC_whole_blocks_witness:
  "DES3MAC (replicate 16 1) [1, 2, 3] (length [1, 2, 3 :: byte]) (replicate 8 0) = Some (replicate 4 0)"
  using DES3MAC_whole_blocks [of "replicate 16 1" "[1, 2, 3]"] by simp

text \<open>The zero padding of the other program's \<open>MAC\<close> is not told from data: data whose length is not a multiple of
  eight has, under every key, the code of the same data with a zero byte behind.\<close>

theorem ssm_MAC_zero_padding:
  assumes "length s mod 8 \<noteq> 0"
  shows "ssm_MAC (s @ [0]) (length (s @ [0])) key n = ssm_MAC s (length s) key n"
proof -
  obtain q r where l: "length s = 8 * q + r" "r < 8" "0 < r"
    using div_mod_8 [of "length s"] assms by (metis gr0I)
  have st: "block_starts (length (s @ [0])) = map ((*) 8) [0..<q + 1]" "block_starts (length s) = map ((*) 8) [0..<q + 1]"
  proof -
    have "length (s @ [0]) + 7 = 8 * q + (r + 8)" "length s + 7 = 8 * q + (r + 7)" using l(1) by simp_all
    moreover have "(r + 8) div 8 = 1" "(r + 7) div 8 = 1" using l by auto
    ultimately show "block_starts (length (s @ [0])) = map ((*) 8) [0..<q + 1]" "block_starts (length s) = map ((*) 8) [0..<q + 1]"
      unfolding block_starts_def by (simp_all only: div_mult_self4 [of 8] zero_neq_numeral not_False_eq_True)
  qed
  have b: "block_at (s @ [0]) (8 * i) = block_at s (8 * i)" if "i < q + 1" for i
  proof (cases "i = q")
    case True
    obtain x where x: "drop (8 * q) s = x" "length x = r" using l(1) by simp
    have "8 - r = Suc (7 - r)" using l(2) by simp
    then show ?thesis using True x l by (simp add: block_at_def Let_def)
  next
    case False
    then have "8 * i + 8 \<le> length s" using that l(1) by linarith
    then show ?thesis by (simp add: block_at_full)
  qed
  have "mac_chain k (s @ [0]) = mac_chain k s" for k
  proof -
    have "fold (\<lambda>n t. DesDes (BitXor t (block_at (s @ [0]) n)) k DES_ENCRYPT) (drop 1 (map ((*) 8) [0..<q + 1])) t
        = fold (\<lambda>n t. DesDes (BitXor t (block_at s n)) k DES_ENCRYPT) (drop 1 (map ((*) 8) [0..<q + 1])) t" for t
      using b by (intro fold_cong) (auto dest!: in_set_dropD)
    moreover have "block_at (s @ [0]) 0 = block_at s 0" using b [of 0] by simp
    ultimately show ?thesis unfolding mac_chain_def st by simp
  qed
  then show ?thesis unfolding ssm_MAC_def copy_at_all [OF refl] by simp
qed


end
