(* ===== verification/MyDes.thy ===== *)
theory MyDes
  imports TriDes
begin

text \<open>
  The cipher of \<open>src/CTSI/MyDes.cpp\<close>: DES on bit arrays whose bytes are taken lowest bit first, with the 16
  round keys kept in \<open>SubKey\<close> and decryption running the rounds backwards in place. It is not the DES of
  the other files (the bits of a byte are in the other order and the halves are not exchanged at the end).
\<close>

unbundle bit_operations_syntax

section \<open>Tables\<close>

text \<open>\<open>S_Box\<close> is \<open>[8][4][16]\<close> in the source: the entry \<open>[i][j][k]\<close> is the entry \<open>16 j + k\<close> of its row \<open>i\<close>.\<close>

definition IP_Table :: "nat list" where
  "IP_Table =
     [58, 50, 42, 34, 26, 18, 10, 2, 60, 52, 44, 36, 28, 20, 12, 4, 62, 54, 46, 38, 30, 22,
       14, 6, 64, 56, 48, 40, 32, 24, 16, 8, 57, 49, 41, 33, 25, 17, 9, 1, 59, 51, 43, 35,
       27, 19, 11, 3, 61, 53, 45, 37, 29, 21, 13, 5, 63, 55, 47, 39, 31, 23, 15, 7]"

definition IPR_Table :: "nat list" where
  "IPR_Table =
     [40, 8, 48, 16, 56, 24, 64, 32, 39, 7, 47, 15, 55, 23, 63, 31, 38, 6, 46, 14, 54, 22,
       62, 30, 37, 5, 45, 13, 53, 21, 61, 29, 36, 4, 44, 12, 52, 20, 60, 28, 35, 3, 43, 11,
       51, 19, 59, 27, 34, 2, 42, 10, 50, 18, 58, 26, 33, 1, 41, 9, 49, 17, 57, 25]"

definition E_Table :: "nat list" where
  "E_Table =
     [32, 1, 2, 3, 4, 5, 4, 5, 6, 7, 8, 9, 8, 9, 10, 11, 12, 13, 12, 13, 14, 15, 16, 17, 16,
       17, 18, 19, 20, 21, 20, 21, 22, 23, 24, 25, 24, 25, 26, 27, 28, 29, 28, 29, 30, 31,
       32, 1]"

definition P_Table :: "nat list" where
  "P_Table =
     [16, 7, 20, 21, 29, 12, 28, 17, 1, 15, 23, 26, 5, 18, 31, 10, 2, 8, 24, 14, 32, 27, 3,
       9, 19, 13, 30, 6, 22, 11, 4, 25]"

definition PC1_Table :: "nat list" where
  "PC1_Table =
     [57, 49, 41, 33, 25, 17, 9, 1, 58, 50, 42, 34, 26, 18, 10, 2, 59, 51, 43, 35, 27, 19,
       11, 3, 60, 52, 44, 36, 63, 55, 47, 39, 31, 23, 15, 7, 62, 54, 46, 38, 30, 22, 14, 6,
       61, 53, 45, 37, 29, 21, 13, 5, 28, 20, 12, 4]"

definition PC2_Table :: "nat list" where
  "PC2_Table =
     [14, 17, 11, 24, 1, 5, 3, 28, 15, 6, 21, 10, 23, 19, 12, 4, 26, 8, 16, 7, 27, 20, 13,
       2, 41, 52, 31, 37, 47, 55, 30, 40, 51, 45, 33, 48, 44, 49, 39, 56, 34, 53, 46, 42,
       50, 36, 29, 32]"

definition LOOP_Table :: "nat list" where
  "LOOP_Table =
     [1, 1, 2, 2, 2, 2, 2, 2, 1, 2, 2, 2, 2, 2, 2, 1]"

definition S_Box :: "nat list list" where
  "S_Box =
    [[14, 4, 13, 1, 2, 15, 11, 8, 3, 10, 6, 12, 5, 9, 0, 7, 0, 15, 7, 4, 14, 2, 13, 1, 10,
       6, 12, 11, 9, 5, 3, 8, 4, 1, 14, 8, 13, 6, 2, 11, 15, 12, 9, 7, 3, 10, 5, 0, 15, 12,
       8, 2, 4, 9, 1, 7, 5, 11, 3, 14, 10, 0, 6, 13],
     [15, 1, 8, 14, 6, 11, 3, 4, 9, 7, 2, 13, 12, 0, 5, 10, 3, 13, 4, 7, 15, 2, 8, 14, 12,
       0, 1, 10, 6, 9, 11, 5, 0, 14, 7, 11, 10, 4, 13, 1, 5, 8, 12, 6, 9, 3, 2, 15, 13, 8,
       10, 1, 3, 15, 4, 2, 11, 6, 7, 12, 0, 5, 14, 9],
     [10, 0, 9, 14, 6, 3, 15, 5, 1, 13, 12, 7, 11, 4, 2, 8, 13, 7, 0, 9, 3, 4, 6, 10, 2, 8,
       5, 14, 12, 11, 15, 1, 13, 6, 4, 9, 8, 15, 3, 0, 11, 1, 2, 12, 5, 10, 14, 7, 1, 10,
       13, 0, 6, 9, 8, 7, 4, 15, 14, 3, 11, 5, 2, 12],
     [7, 13, 14, 3, 0, 6, 9, 10, 1, 2, 8, 5, 11, 12, 4, 15, 13, 8, 11, 5, 6, 15, 0, 3, 4, 7,
       2, 12, 1, 10, 14, 9, 10, 6, 9, 0, 12, 11, 7, 13, 15, 1, 3, 14, 5, 2, 8, 4, 3, 15, 0,
       6, 10, 1, 13, 8, 9, 4, 5, 11, 12, 7, 2, 14],
     [2, 12, 4, 1, 7, 10, 11, 6, 8, 5, 3, 15, 13, 0, 14, 9, 14, 11, 2, 12, 4, 7, 13, 1, 5,
       0, 15, 10, 3, 9, 8, 6, 4, 2, 1, 11, 10, 13, 7, 8, 15, 9, 12, 5, 6, 3, 0, 14, 11, 8,
       12, 7, 1, 14, 2, 13, 6, 15, 0, 9, 10, 4, 5, 3],
     [12, 1, 10, 15, 9, 2, 6, 8, 0, 13, 3, 4, 14, 7, 5, 11, 10, 15, 4, 2, 7, 12, 9, 5, 6, 1,
       13, 14, 0, 11, 3, 8, 9, 14, 15, 5, 2, 8, 12, 3, 7, 0, 4, 10, 1, 13, 11, 6, 4, 3, 2,
       12, 9, 5, 15, 10, 11, 14, 1, 7, 6, 0, 8, 13],
     [4, 11, 2, 14, 15, 0, 8, 13, 3, 12, 9, 7, 5, 10, 6, 1, 13, 0, 11, 7, 4, 9, 1, 10, 14,
       3, 5, 12, 2, 15, 8, 6, 1, 4, 11, 13, 12, 3, 7, 14, 10, 15, 6, 8, 0, 5, 9, 2, 6, 11,
       13, 8, 1, 4, 10, 7, 9, 5, 0, 15, 14, 2, 3, 12],
     [13, 2, 8, 4, 6, 15, 11, 1, 10, 9, 3, 14, 5, 0, 12, 7, 1, 15, 13, 8, 10, 3, 7, 4, 12,
       5, 6, 11, 0, 14, 9, 2, 7, 11, 4, 1, 9, 12, 14, 2, 0, 6, 10, 13, 15, 3, 5, 8, 2, 1,
       14, 7, 4, 10, 8, 13, 15, 12, 9, 0, 3, 5, 6, 11]]"

section \<open>Bits\<close>

definition low_bits :: "bytes \<Rightarrow> nat \<Rightarrow> bits" where
  "low_bits In n = map (\<lambda>i. if bit (In ! (i div 8)) (i mod 8) then 1 else 0) [0..<n]"

definition low_bytes :: "bits \<Rightarrow> nat \<Rightarrow> bytes" where
  "low_bytes In n = map (\<lambda>j. fold (\<lambda>i b. b OR push_bit i (word_of_nat (In ! (8 * j + i)))) [0..<min 8 (n - 8 * j)] 0)
     [0..<(n + 7) div 8]"

definition Transform :: "nat list \<Rightarrow> nat \<Rightarrow> bits \<Rightarrow> bits" where
  "Transform Table len In = map (\<lambda>i. In ! (Table ! i - 1)) [0..<len]"

definition RotateL :: "nat \<Rightarrow> bits \<Rightarrow> bits" where
  "RotateL loop In = drop loop In @ take loop In"

section \<open>The rounds\<close>

definition S_func :: "bits \<Rightarrow> bits" where
  "S_func In = concat (map (\<lambda>i. let b = drop (6 * i) In; j = 2 * b ! 0 + b ! 5;
       k = 8 * b ! 1 + 4 * b ! 2 + 2 * b ! 3 + b ! 4 in
     low_bits [word_of_nat (S_Box ! i ! (16 * j + k))] 4) [0..<8])"

definition F_func :: "bits \<Rightarrow> bits \<Rightarrow> bits" where
  "F_func In Ki = Transform P_Table 32 (S_func (bits_xor (Transform E_Table 48 In) Ki))"

text \<open>The keys of the rounds in \<open>is\<close> from the key state on.\<close>

fun sub_keys :: "nat list \<Rightarrow> bits \<Rightarrow> bits list" where
  "sub_keys [] K = []"
| "sub_keys (i # is) K = (let K' = RotateL (LOOP_Table ! i) (take 28 K)
       @ RotateL (LOOP_Table ! i) (take 28 (drop 28 K)) @ drop 56 K in
     Transform PC2_Table 48 K' # sub_keys is K')"

definition Des_SetKey :: "bytes \<Rightarrow> bits list" where
  "Des_SetKey Key = (let K = low_bits Key 64 in sub_keys [0..<16] (Transform PC1_Table 56 K @ drop 56 K))"

definition enc_round :: "bits \<Rightarrow> bits \<times> bits \<Rightarrow> bits \<times> bits" where
  "enc_round Ki M = (case M of (Li, Ri) \<Rightarrow> (Ri, bits_xor (F_func Ri Ki) Li))"

definition dec_round :: "bits \<Rightarrow> bits \<times> bits \<Rightarrow> bits \<times> bits" where
  "dec_round Ki M = (case M of (Li, Ri) \<Rightarrow> (bits_xor (F_func Li Ki) Ri, Li))"

datatype run_type = ENCRYPT | DECRYPT

definition Des_Run :: "bits list \<Rightarrow> bytes \<Rightarrow> run_type \<Rightarrow> bytes" where
  "Des_Run SubKey In Type = (let M = Transform IP_Table 64 (low_bits In 64);
     (Li, Ri) = (case Type of
         ENCRYPT \<Rightarrow> fold (\<lambda>i. enc_round (SubKey ! i)) [0..<16] (take 32 M, drop 32 M)
       | DECRYPT \<Rightarrow> fold (\<lambda>i. dec_round (SubKey ! i)) (rev [0..<16]) (take 32 M, drop 32 M)) in
   low_bytes (Transform IPR_Table 64 (Li @ Ri)) 64)"

section \<open>The rounds backwards undo the rounds\<close>

lemma S_func_bits: "is_bits 32 (S_func d)"
proof -
  have "length (S_func d) = sum_list (map (\<lambda>i. 4) [0..<8 :: nat])"
    unfolding S_func_def length_concat map_map by (simp add: Let_def low_bits_def o_def)
  moreover have "b \<le> 1" if "b \<in> set (S_func d)" for b
    using that by (auto simp: S_func_def low_bits_def Let_def split: if_splits)
  ultimately show ?thesis by (simp add: is_bits_def list_all_iff sum_list_triv)
qed

lemma Transform_bits:
  assumes "is_bits m d" "list_all (\<lambda>j. j - 1 < m) t" "n \<le> length t"
  shows "is_bits n (Transform t n d)"
  unfolding Transform_def using assms is_bits_nth by (intro is_bits_map) (auto simp: list_all_length)

interpretation my: feistel "\<lambda>k r. F_func r k" "\<lambda>l f. bits_xor f l" "is_bits 32" "\<lambda>_. True"
proof
  have "list_all (\<lambda>j. j - 1 < 32) P_Table" "32 \<le> length P_Table" by code_simp+
  then show "is_bits 32 (F_func r k)" for r k unfolding F_func_def by (rule Transform_bits [OF S_func_bits])
  show "is_bits 32 (bits_xor b a)" if "is_bits 32 a" "is_bits 32 b" for a b using that by (simp add: bits_xor_ok)
  have c: "bits_xor b a = bits_xor a b" for a b
    unfolding bits_xor_def by (subst zip_commute) (simp add: bit_xor_def add.commute case_prod_beta)
  show "bits_xor b (bits_xor b a) = a" if "is_bits 32 a" "is_bits 32 b" for a b
    using that unfolding c [of b] by (rule bits_xor_undo)
qed

lemma my_enc: "fold (\<lambda>i. enc_round (ks ! i)) is M = my.rounds (map (nth ks) is) M"
  by (induction "is" arbitrary: M) (simp_all add: my.rounds_def enc_round_def my.round_def case_prod_beta)

lemma my_dec: "fold (\<lambda>i. dec_round (ks ! i)) is M = my.flip (my.rounds (map (nth ks) is) (my.flip M))"
  by (induction "is" arbitrary: M) (simp_all add: my.rounds_def dec_round_def my.round_def my.flip_def case_prod_beta)

lemma my_undo:
  assumes "my.both M"
  shows "fold (\<lambda>i. dec_round (ks ! i)) (rev is) (fold (\<lambda>i. enc_round (ks ! i)) is M) = M"
  unfolding my_enc my_dec rev_map [symmetric] using my.rounds_undo [of "map (nth ks) is" M] assms
  by (simp add: list_all_iff)

lemma my_undo':
  assumes "my.both M"
  shows "fold (\<lambda>i. enc_round (ks ! i)) is (fold (\<lambda>i. dec_round (ks ! i)) (rev is) M) = M"
proof -
  have b: "my.both (my.flip M)" using assms by simp
  have "my.rounds (rev (rev (map (nth ks) is))) (my.flip (my.rounds (rev (map (nth ks) is)) (my.flip M))) = my.flip (my.flip M)"
    using b by (intro my.rounds_undo) (simp_all add: list_all_iff)
  then show ?thesis unfolding my_enc my_dec by (simp add: rev_map)
qed

section \<open>Bytes and bits\<close>

lemma rev_byte_bits: "rev (BitToByte [c]) = map (bit_of c) [0..<8]"
proof -
  have "[0..<8] = [0, 1, 2, 3, 4, 5, 6, 7 :: nat]" by code_simp
  then show ?thesis by (simp add: BitToByte_def)
qed

lemma low_byte: "fold (\<lambda>i b. b OR push_bit i (word_of_nat (rev (BitToByte [c]) ! i))) [0..<8] 0 = c"
proof -
  let ?g = "\<lambda>i b :: byte. b OR push_bit i (of_bool (bit c i))"
  have f: "bit (fold ?g [0..<m] 0) n \<longleftrightarrow> n < m \<and> bit c n" if "n < 8" for m n
    using that by (induction m) (auto simp: bit_simps less_Suc_eq)
  have "fold (\<lambda>i b. b OR push_bit i (word_of_nat (rev (BitToByte [c]) ! i))) [0..<8] 0 = fold ?g [0..<8] 0"
    unfolding rev_byte_bits by (rule fold_cong) (simp_all add: bit_of_def)
  then show ?thesis using f [of _ 8] by (simp add: bit_eq_iff)
qed

lemma low_bytes_split: "length a = 8 \<Longrightarrow> low_bytes (a @ d) (8 * Suc n)
    = fold (\<lambda>i b. b OR push_bit i (word_of_nat (a ! i))) [0..<8] 0 # low_bytes d (8 * n)"
proof -
  assume a: "length a = 8"
  have "(8 * Suc n + 7) div 8 = Suc n" "(8 * n + 7) div 8 = n" by simp_all
  moreover have "fold (\<lambda>i b. b OR push_bit i (word_of_nat ((a @ d) ! (8 * 0 + i)))) [0..<8] (0 :: byte)
      = fold (\<lambda>i b. b OR push_bit i (word_of_nat (a ! i))) [0..<8] 0"
    using a by (intro fold_cong) (simp_all add: nth_append)
  moreover have "min 8 (8 * Suc n - 8 * Suc j) = min 8 (8 * n - 8 * j)" for j by simp
  moreover have "(a @ d) ! (8 * Suc j + i) = d ! (8 * j + i)" for i j using a by (simp add: nth_append)
  ultimately show ?thesis
    unfolding low_bytes_def by (simp add: upt_rec [of 0 "Suc n"] map_Suc_upt [symmetric] del: upt_Suc)
qed

lemma low_bits_bytes: "low_bits s (8 * length s) = concat (map (\<lambda>c. rev (BitToByte [c])) s)"
proof (induction s)
  case (Cons c s)
  have d: "(8 + i) div 8 = Suc (i div 8)" for i :: nat by simp
  have "[0..<8 * length (c # s)] = [0..<8] @ map (\<lambda>i. 8 + i) [0..<8 * length s]"
    using upt_add_eq_append [of 0 8 "8 * length s"] map_add_upt [of 8 "8 * length s"] by (simp add: add.commute [of _ 8] del: map_add_upt)
  moreover have "map (\<lambda>i. if bit ((c # s) ! (i div 8)) (i mod 8) then 1 else 0) [0..<8] = rev (BitToByte [c])"
    unfolding rev_byte_bits by (simp add: bit_of_def)
  ultimately have "low_bits (c # s) (8 * length (c # s)) = rev (BitToByte [c]) @ low_bits s (8 * length s)"
    unfolding low_bits_def by (simp add: o_def d)
  then show ?case using Cons by simp
qed (simp add: low_bits_def)

lemma low_bits_bits: "is_bits (8 * length s) (low_bits s (8 * length s))"
  unfolding low_bits_def by (rule is_bits_map) simp

lemma low_bytes_bits: "low_bytes (low_bits s (8 * length s)) (8 * length s) = s"
proof (induction s)
  case (Cons c s)
  have "length (rev (BitToByte [c])) = 8" by simp
  moreover have "low_bits (c # s) (8 * length (c # s)) = rev (BitToByte [c]) @ low_bits s (8 * length s)"
    unfolding low_bits_bytes by simp
  ultimately show ?case using low_bytes_split [of "rev (BitToByte [c])" "low_bits s (8 * length s)" "length s"] Cons
    by (simp only: low_byte length_Cons)
qed (simp add: low_bytes_def)

lemma low_bits_low_bytes: "is_bits (8 * n) d \<Longrightarrow> length (low_bytes d (8 * n)) = n \<and> low_bits (low_bytes d (8 * n)) (8 * n) = d"
proof -
  assume d: "is_bits (8 * n) d"
  have "\<exists>s. length s = n \<and> d = low_bits s (8 * n)"
    using d
  proof (induction n arbitrary: d)
    case 0
    then show ?case by (simp add: is_bits_def low_bits_def)
  next
    case (Suc n)
    have b: "is_bits 8 (rev (take 8 d))" "is_bits (8 * n) (drop 8 d)"
      using is_bits_take [OF Suc.prems, of 8] is_bits_drop [OF Suc.prems, of 8] by (simp_all add: is_bits_def list_all_iff)
    from Suc.IH [OF b(2)] obtain s where s: "length s = n" "drop 8 d = low_bits s (8 * n)" by blast
    let ?c = "byte_from (rev (take 8 d))"
    have "take 8 d = rev (BitToByte [?c])" using bits_from_byte [OF b(1)] by simp
    then have "d = rev (BitToByte [?c]) @ low_bits s (8 * n)" using s by (metis append_take_drop_id)
    also have "\<dots> = low_bits (?c # s) (8 * Suc n)"
      using low_bits_bytes [of "?c # s"] low_bits_bytes [of s] s(1) by simp
    finally show ?case using s(1) by (intro exI [of _ "?c # s"]) simp
  qed
  then obtain s where "length s = n" "d = low_bits s (8 * n)" by blast
  then show ?thesis using low_bytes_bits [of s] by auto
qed

section \<open>One block\<close>

lemma my_tables: "IP_Table = IP_Tr" "IPR_Table = IP_1_Tr" by code_simp+

lemma Transform_full: "length d = 64 \<Longrightarrow> Transform t 64 d = transpose_bits t 64 d"
  by (simp add: Transform_def transpose_bits_def)

definition my_out :: "bits \<times> bits \<Rightarrow> bytes" where
  "my_out LR = low_bytes (Transform IPR_Table 64 (fst LR @ snd LR)) 64"

lemma Des_Run_frame:
  assumes "length s = 8" "\<And>M. my.both M \<Longrightarrow> my.both (f M)" "M = Transform IP_Table 64 (low_bits s 64)"
  shows "length (my_out (f (take 32 M, drop 32 M))) = 8"
    and "Transform IP_Table 64 (low_bits (my_out (f (take 32 M, drop 32 M))) 64) = fst (f (take 32 M, drop 32 M)) @ snd (f (take 32 M, drop 32 M))"
    and "my.both (take 32 M, drop 32 M)"
proof -
  have "is_bits 64 (low_bits s 64)" using low_bits_bits [of s] assms(1) by simp
  then have M: "is_bits 64 M" unfolding assms(3)
    by (simp add: Transform_full is_bits_len my_tables transpose_full_bits IP_tables(3))
  show b: "my.both (take 32 M, drop 32 M)"
    using is_bits_take [OF M, of 32] is_bits_drop [OF M, of 32] by (simp add: my.both_def)
  let ?r = "fst (f (take 32 M, drop 32 M)) @ snd (f (take 32 M, drop 32 M))"
  have r: "is_bits 64 ?r"
    using assms(2) [OF b] is_bits_append [of 32 _ 32] by (simp add: my.both_def)
  have "Transform IPR_Table 64 ?r = transpose_bits IP_1_Tr 64 ?r"
    unfolding Transform_full [OF is_bits_len [OF r]] my_tables ..
  then have t: "is_bits (8 * 8) (Transform IPR_Table 64 ?r)"
    using transpose_full_bits [OF r] IP_tables(4) by simp
  show "length (my_out (f (take 32 M, drop 32 M))) = 8" using low_bits_low_bytes [OF t] by (simp add: my_out_def)
  show "Transform IP_Table 64 (low_bits (my_out (f (take 32 M, drop 32 M))) 64) = ?r"
    using low_bits_low_bytes [OF t] is_bits_len [OF r]
    by (simp add: my_out_def Transform_full my_tables IP_IP_1)
qed

lemma Des_Run_undo:
  assumes "length s = 8"
  shows "length (Des_Run ks s t) = 8" "Des_Run ks (Des_Run ks s ENCRYPT) DECRYPT = s" "Des_Run ks (Des_Run ks s DECRYPT) ENCRYPT = s"
proof -
  let ?e = "fold (\<lambda>i. enc_round (ks ! i)) [0..<16]" and ?d = "fold (\<lambda>i. dec_round (ks ! i)) (rev [0..<16])"
  have e: "my.both (?e M)" if "my.both M" for M unfolding my_enc using that by (simp add: my.rounds_both list_all_iff)
  have d: "my.both (?d M)" if "my.both M" for M unfolding my_dec using that by (simp add: my.rounds_both list_all_iff)
  let ?M = "Transform IP_Table 64 (low_bits s 64)"
  have inv_out: "low_bytes (Transform IPR_Table 64 ?M) 64 = s"
    using low_bits_bits [of s] low_bytes_bits [of s] assms
    by (simp add: Transform_full my_tables is_bits_len IP_1_IP)
  note E = Des_Run_frame [where f = ?e, OF assms e refl] and D = Des_Run_frame [where f = ?d, OF assms d refl]
  have l: "length (fst N) = 32" "length (snd N) = 32" if "my.both N" for N
    using that by (simp_all add: my.both_def is_bits_len)
  show "length (Des_Run ks s t) = 8" using E(1) D(1) by (cases t) (simp_all add: Des_Run_def my_out_def Let_def case_prod_beta)
  show "Des_Run ks (Des_Run ks s ENCRYPT) DECRYPT = s"
    using E(2,3) inv_out l [OF e [OF E(3)]] my_undo [OF E(3), of ks "[0..<16]"]
    by (simp add: Des_Run_def my_out_def Let_def case_prod_beta)
  show "Des_Run ks (Des_Run ks s DECRYPT) ENCRYPT = s"
    using D(2,3) inv_out l [OF d [OF D(3)]] my_undo' [OF D(3), of ks "[0..<16]"]
    by (simp add: Des_Run_def my_out_def Let_def case_prod_beta)
qed

interpretation my_cipher: block_cipher "\<lambda>ks s. Des_Run ks s ENCRYPT" "\<lambda>ks s. Des_Run ks s DECRYPT" "\<lambda>_. True" "\<lambda>s. length s = 8"
  by unfold_locales (simp_all add: Des_Run_undo)

end
