(* ===== verification/MyCrypto.thy ===== *)
theory MyCrypto
  imports MyDes
begin

text \<open>
  \<open>src/CTSI/MyCrypto.cpp\<close>: text encrypted twice, first under a random key, then, with that key appended, under
  a key made from the decimal text of a number. A buffer is returned with its zeros. The random numbers
  and what the compiler makes of a shift by at least the width of a \<open>long\<close> (undefined in C++) are parameters.
\<close>

unbundle bit_operations_syntax

section \<open>Hexadecimal text\<close>

definition digit16 :: "byte \<Rightarrow> byte" where
  "digit16 d = (if 9 <s d then d - 10 + 0x41 else d + 0x30)"

definition to16 :: "byte \<Rightarrow> bytes" where
  "to16 src = [digit16 (signed_drop_bit 4 src AND 0x0f), digit16 (src AND 0x0f)]"

definition value16 :: "byte \<Rightarrow> byte" where
  "value16 temp = (if 0x39 <s temp then temp - 0x41 + 10 else temp - 0x30)"

definition toansc :: "byte \<Rightarrow> byte \<Rightarrow> byte" where
  "toansc temp1 temp2 = push_bit 4 (value16 temp1) + value16 temp2"

definition transfrom_to_16 :: "bytes \<Rightarrow> bytes" where
  "transfrom_to_16 src = concat (map to16 src)"

definition transfrom_to_ans :: "bytes \<Rightarrow> bytes" where
  "transfrom_to_ans src = map (\<lambda>i. toansc (src ! (i + i)) (src ! (i + i + 1))) [0..<length src div 2]"

section \<open>One encryption\<close>

text \<open>The first \<open>n\<close> blocks of eight bytes are replaced, what is behind them stays.\<close>

fun run_blocks :: "(bytes \<Rightarrow> bytes) \<Rightarrow> nat \<Rightarrow> bytes \<Rightarrow> bytes" where
  "run_blocks g 0 out = out"
| "run_blocks g (Suc n) out = g (take 8 out) @ run_blocks g n (drop 8 out)"

definition base_encrypt :: "bytes \<Rightarrow> nat \<Rightarrow> bytes \<Rightarrow> bytes option" where
  "base_encrypt plaintext len_plain key = do {
     p \<leftarrow> copy_at 0 len_plain plaintext;
     k \<leftarrow> copy_at 0 8 key;
     let len_out = (len_plain div 8 + (if len_plain mod 8 \<noteq> 0 then 1 else 0)) * 8;
     let out = p @ replicate (len_out - len_plain) 0;
     let SubKey = Des_SetKey k;
     Some (transfrom_to_16 (run_blocks (\<lambda>b. Des_Run SubKey b ENCRYPT) (len_out div 8) out) @ [0]) }"

definition base_decrypt :: "bytes \<Rightarrow> bytes \<Rightarrow> bytes option" where
  "base_decrypt ciphertext key = do {
     k \<leftarrow> copy_at 0 8 key;
     let plaintext = transfrom_to_ans (cstr ciphertext);
     let SubKey = Des_SetKey k;
     Some (run_blocks (\<lambda>b. Des_Run SubKey b DECRYPT) (length plaintext div 8) plaintext @ [0]) }"

section \<open>The two keys\<close>

definition trans_key :: "(32 word \<Rightarrow> nat \<Rightarrow> 32 word) \<Rightarrow> 32 word \<Rightarrow> bytes" where
  "trans_key wide_shift key = map (\<lambda>i. ucast (if i * 8 < 32 then signed_drop_bit (i * 8) key else wide_shift key (i * 8))) [0..<8]"

definition produce_key :: "(32 word \<Rightarrow> nat \<Rightarrow> 32 word) \<Rightarrow> bytes \<Rightarrow> bytes" where
  "produce_key wide_shift private_key =
     trans_key wide_shift (foldl (\<lambda>int_key c. int_key * 10 + scast c - 0x30) 0 (cstr private_key))"

text \<open>\<open>rands\<close> are the eight results of \<open>rand\<close>.\<close>

definition encrypt :: "(32 word \<Rightarrow> nat \<Rightarrow> 32 word) \<Rightarrow> nat list \<Rightarrow> bytes \<Rightarrow> bytes \<Rightarrow> bytes option" where
  "encrypt wide_shift rands plaintext private_key = do {
     let key = produce_key wide_shift private_key;
     let rand_key = map (\<lambda>r. word_of_nat (r mod 100 + 1)) rands;
     once_encrypt \<leftarrow> base_encrypt plaintext (strlen plaintext) rand_key;
     let s_2 = cstr once_encrypt @ rand_key @ [0];
     p \<leftarrow> base_encrypt s_2 (strlen s_2) key;
     Some (cstr p) }"

text \<open>A first decryption of fewer than eight characters makes \<open>memcpy\<close> read before the buffer (\<open>None\<close>).\<close>

definition decrypt :: "(32 word \<Rightarrow> nat \<Rightarrow> 32 word) \<Rightarrow> bytes \<Rightarrow> bytes \<Rightarrow> bytes option" where
  "decrypt wide_shift ciphertext private_key = do {
     let key = produce_key wide_shift private_key;
     once_decrypt \<leftarrow> base_decrypt ciphertext key;
     let len = strlen once_decrypt;
     if len < 8 then None
     else do {
       rand_key \<leftarrow> copy_at (len - 8) 8 once_decrypt;
       p \<leftarrow> base_decrypt (take (len - 8) once_decrypt @ [0]) rand_key;
       Some (cstr p) } }"

section \<open>Lemmas\<close>

lemma to16_hex: "to16 c = [nibble_hex (drop_bit 4 c AND 0x0F), nibble_hex (c AND 0x0F)]"
  and toansc_to16: "toansc (to16 c ! 0) (to16 c ! 1) = c"
proof -
  have d: "digit16 d = nibble_hex d \<and> value16 (nibble_hex d) = d" if "unat d < 16" for d
  proof -
    have "list_all (\<lambda>v. digit16 (word_of_nat v) = nibble_hex (word_of_nat v) \<and> value16 (nibble_hex (word_of_nat v)) = word_of_nat v) [0..<16]"
      by code_simp
    with that have "digit16 (word_of_nat (unat d)) = nibble_hex (word_of_nat (unat d))
      \<and> value16 (nibble_hex (word_of_nat (unat d))) = word_of_nat (unat d)"
      unfolding list_all_iff set_upt by (metis atLeastLessThan_iff zero_le)
    then show ?thesis by simp
  qed
  have m: "0x0F = (mask 4 :: byte)" by (simp add: mask_eq_exp_minus_1)
  have "signed_drop_bit 4 c AND 0x0F = drop_bit 4 c AND 0x0F"
    unfolding m by (rule bit_eqI) (auto simp: bit_simps)
  then show "to16 c = [nibble_hex (drop_bit 4 c AND 0x0F), nibble_hex (c AND 0x0F)]"
    by (simp add: to16_def d nibble_small)
  then show "toansc (to16 c ! 0) (to16 c ! 1) = c"
    using nibbles_join [of c] by (simp add: toansc_def d nibble_small)
qed

lemma transfrom_hex: "transfrom_to_16 s = hex_chars s"
  by (induction s) (simp_all add: transfrom_to_16_def to16_hex)

lemma transfrom_back: "transfrom_to_ans (transfrom_to_16 s) = s"
proof (induction s)
  case (Cons c s)
  have l: "length (transfrom_to_16 s) = 2 * length s" for s
    by (induction s) (simp_all add: transfrom_to_16_def to16_def)
  have e: "transfrom_to_16 (c # s) = to16 c @ transfrom_to_16 s" "length (to16 c) = 2" by (simp_all add: transfrom_to_16_def to16_def)
  have "(to16 c @ t) ! (Suc i + Suc i) = t ! (i + i)" "(to16 c @ t) ! (Suc i + Suc i + 1) = t ! (i + i + 1)" for i t
    using e(2) by (simp_all add: nth_append)
  moreover have "length (transfrom_to_16 (c # s)) div 2 = Suc (length (transfrom_to_16 s) div 2)" unfolding l by simp
  moreover have "(to16 c @ t) ! 0 = to16 c ! 0" "(to16 c @ t) ! 1 = to16 c ! 1" for t using e(2) by (simp_all add: nth_append)
  ultimately show ?case using Cons toansc_to16 [of c]
    unfolding transfrom_to_ans_def e(1) by (simp add: upt_rec [of 0 "Suc _"] map_Suc_upt [symmetric] o_def del: upt_Suc)
qed (simp add: transfrom_to_ans_def transfrom_to_16_def)

lemma run_blocks_len: "\<lbrakk>\<And>b. length b = 8 \<Longrightarrow> length (g b) = 8; length s = 8 * n\<rbrakk> \<Longrightarrow> length (run_blocks g n s) = 8 * n"
  by (induction n arbitrary: s) simp_all

lemma run_blocks_undo:
  assumes "\<And>b. length b = 8 \<Longrightarrow> length (g b) = 8 \<and> h (g b) = b"
  shows "length s = 8 * n \<Longrightarrow> run_blocks h n (run_blocks g n s) = s"
  using assms by (induction n arbitrary: s) simp_all

lemma base_roundtrip:
  assumes "length key = 8"
  shows "\<exists>t n. base_encrypt s (length s) key = Some (t @ [0]) \<and> list_all is_upper_hex t \<and> length t = 16 * n \<and> n = (length s + 7) div 8
    \<and> (\<forall>r. base_decrypt (t @ 0 # r) key = Some (s @ replicate (8 * n - length s) 0 @ [0]))"
proof -
  obtain q r where l: "length s = 8 * q + r" "r < 8" "length s div 8 = q" "length s mod 8 = r"
    using div_mod_8 [of "length s"] by blast
  define n where "n = (length s + 7) div 8"
  have n: "q + (if r \<noteq> 0 then 1 else 0) = n" "length s \<le> 8 * n"
    unfolding n_def l(1) using l(2) by auto
  let ?out = "s @ replicate (8 * n - length s) 0" and ?g = "\<lambda>b. Des_Run (Des_SetKey key) b ENCRYPT"
  let ?h = "\<lambda>b. Des_Run (Des_SetKey key) b DECRYPT"
  let ?t = "transfrom_to_16 (run_blocks ?g n ?out)"
  have g: "length b = 8 \<Longrightarrow> length (?g b) = 8 \<and> ?h (?g b) = b" for b by (simp add: Des_Run_undo)
  have o: "length ?out = 8 * n" using n by simp
  have rl: "length (run_blocks ?g n ?out) = 8 * n" using run_blocks_len [OF _ o, of ?g] g by blast
  have k: "copy_at 0 8 key = Some key" using assms by simp
  have e: "base_encrypt s (length s) key = Some (?t @ [0])"
    unfolding base_encrypt_def copy_at_all [OF refl] k l(3,4) n(1) Let_def Option.bind.bind_lunit
    by (simp add: mult.commute [of n])
  have hex: "list_all is_upper_hex ?t" "length ?t = 16 * n"
    unfolding transfrom_hex using hex_chars_nibbles [of "run_blocks ?g n ?out"] rl by (auto simp: upper_hex_list)
  have "base_decrypt (?t @ 0 # r) key = Some (?out @ [0])" for r
    unfolding base_decrypt_def cstr_term [OF hex_no_nul [OF hex(1)]] k Let_def Option.bind.bind_lunit transfrom_back rl
    using run_blocks_undo [OF g o] by simp
  then show ?thesis using e hex n_def by (intro exI [of _ ?t] exI [of _ n]) simp
qed

lemma rand_byte: "word_of_nat (r mod 100 + 1) \<noteq> (0 :: byte)"
proof -
  have "r mod 100 + 1 < 2 ^ 8" by (simp add: less_Suc_eq_le order_trans [OF less_imp_le [OF mod_less_divisor]])
  then have "unat (word_of_nat (r mod 100 + 1) :: byte) = r mod 100 + 1"
    unfolding unsigned_of_nat using take_bit_nat_eq_self [of "r mod 100 + 1" 8] by simp
  then show ?thesis by (metis add_is_0 unat_0 zero_neq_one)
qed

section \<open>Properties\<close>

text \<open>C11: For every text, every number text as key and every sequence of random numbers, \<open>decrypt\<close> returns the text
  that was encrypted; what \<open>encrypt\<close> returns is hexadecimal text of one block more than the text's hexadecimal
  form has.\<close>

theorem encrypt_roundtrip:
  assumes "no_nul s" "length rands = 8"
  shows "\<exists>c. encrypt ws rands (s @ 0 # r) pk = Some c \<and> decrypt ws (c @ 0 # r') pk = Some s
    \<and> list_all is_upper_hex c \<and> length c = 32 * ((length s + 7) div 8) + 16"
proof -
  let ?rk = "map (\<lambda>r. word_of_nat (r mod 100 + 1)) rands :: bytes" and ?key = "produce_key ws pk"
  have k: "length ?rk = 8" "length ?key = 8" using assms(2) by (simp_all add: produce_key_def trans_key_def)
  have nz: "no_nul ?rk" unfolding no_nul_def list_all_iff set_map using rand_byte by (auto simp del: of_nat_add of_nat_Suc)
  from base_roundtrip [OF k(1), of s] obtain t n where t: "base_encrypt s (length s) ?rk = Some (t @ [0])"
    "list_all is_upper_hex t" "length t = 16 * n" "n = (length s + 7) div 8"
    "\<And>r. base_decrypt (t @ 0 # r) ?rk = Some (s @ replicate (8 * n - length s) 0 @ [0])" by blast
  let ?s2 = "t @ ?rk"
  have n2: "no_nul ?s2" using hex_no_nul [OF t(2)] nz by (simp add: no_nul_def)
  have l2: "length ?s2 = 8 * (2 * n + 1)" "(length ?s2 + 7) div 8 = 2 * n + 1" using t(3) k(1) by simp_all
  from base_roundtrip [OF k(2), of ?s2] l2 obtain c where c: "base_encrypt ?s2 (length ?s2) ?key = Some (c @ [0])"
    "list_all is_upper_hex c" "length c = 16 * (2 * n + 1)" "\<And>r. base_decrypt (c @ 0 # r) ?key = Some (?s2 @ [0])"
    by auto
  have pre: "base_encrypt (b @ r) (length b) q = base_encrypt b (length b) q" for b r q
    by (simp add: base_encrypt_def copy_at_def)
  have cs: "cstr (s @ 0 # r) = s" "cstr (t @ [0]) = t" "cstr (c @ [0]) = c" "cstr (t @ ?rk @ [0]) = ?s2"
    using cstr_term [OF assms(1)] cstr_term [OF hex_no_nul [OF t(2)]] cstr_term [OF hex_no_nul [OF c(2)]]
      cstr_term [OF n2, of "[]"] by simp_all
  have "encrypt ws rands (s @ 0 # r) pk = Some c"
    unfolding encrypt_def Let_def strlen_def cs pre t(1) Option.bind.bind_lunit pre [of ?s2 "[0]", unfolded append_assoc] c(1) ..
  moreover have "decrypt ws (c @ 0 # r') pk = Some s"
  proof -
    have sl: "strlen (?s2 @ [0]) = length ?s2" unfolding strlen_def append_assoc cs ..
    have "take (length ?s2 - 8) (?s2 @ [0]) = t" "copy_at (length ?s2 - 8) 8 (?s2 @ [0]) = Some ?rk"
      using k(1) by (simp_all add: copy_at_def)
    moreover have "cstr (s @ replicate (8 * n - length s) 0 @ [0]) = s"
      using assms(1) cstr_term [of s] by (cases "8 * n - length s") simp_all
    ultimately show ?thesis
      unfolding decrypt_def Let_def c(4) Option.bind.bind_lunit sl using t(5) [of "[]"] k(1) by simp
  qed
  ultimately show ?thesis using c(2,3) t(4) by auto
qed

theorem encrypt_roundtrip_witness:
  "\<exists>c. encrypt (\<lambda>k n. 0) (replicate 8 41) ([0x68, 0x69] @ [0]) [0x31, 0] = Some c \<and> decrypt (\<lambda>k n. 0) (c @ [0]) [0x31, 0] = Some [0x68, 0x69]"
proof -
  have "no_nul [0x68, 0x69]" "length (replicate 8 (41 :: nat)) = 8" by (simp_all add: no_nul_def)
  from encrypt_roundtrip [OF this, of "\<lambda>k n. 0" "[]" "[0x31, 0]" "[]"] show ?thesis by auto
qed

text \<open>A ciphertext of fewer than 16 characters makes \<open>decrypt\<close> copy from before its buffer, under every key.\<close>

theorem decrypt_short:
  assumes "strlen ciphertext < 16"
  shows "decrypt ws ciphertext pk = None"
proof -
  have k: "copy_at 0 8 (produce_key ws pk) = Some (produce_key ws pk)" by (simp add: produce_key_def trans_key_def)
  let ?p = "transfrom_to_ans (cstr ciphertext)"
  have l: "length ?p < 8" using assms by (simp add: transfrom_to_ans_def strlen_def)
  then have "run_blocks g (length ?p div 8) ?p = ?p" for g by simp
  moreover have "strlen (?p @ [0]) < 8"
    using l le_less_trans [OF length_takeWhile_le l] by (auto simp: strlen_def cstr_def takeWhile_append)
  ultimately show ?thesis by (simp add: decrypt_def base_decrypt_def k Let_def)
qed


end
