(* ===== verification/Pack.thy ===== *)
theory Pack
  imports Tools
begin

text \<open>
  The ISO 8583 packer of \<open>src/CTSI/Pack.cpp\<close> and \<open>Pack.h\<close> (class \<open>CPack\<close>): the field table the
  constructor builds, the bitmap, the choice of the bits of each transaction, packing and unpacking.
  The state is the record \<open>pack\<close>: the message type, the field buffers (\<open>FIELD0_1\<close>, the bitmap, is field
  1) and the lengths \<open>Real_Length\<close> of the table, which change at run time. \<open>Send_Data\<close> and
  \<open>Rev_Data\<close> of an entry point to the same buffer. Table entries the constructor leaves zero have no
  buffer (a NULL pointer); using one is \<open>None\<close>.
\<close>

unbundle bit_operations_syntax

section \<open>The field table\<close>

datatype ptype = NUMERIC | BITS | ALPHANUM | ALPHANUMS

datatype pformat = FIXED | LLVAR | LLLVAR

record packet_struct =
  p_type :: ptype
  p_format :: pformat
  p_max :: nat
  p_size :: nat

text \<open>Type, format and \<open>Max_Length\<close> from the constructor, the size of the buffer from the header file.\<close>

definition Packet_List :: "(nat \<times> packet_struct) list" where
  "Packet_List =
    [(1, \<lparr>p_type = BITS, p_format = FIXED, p_max = 8, p_size = 17\<rparr>),
     (2, \<lparr>p_type = NUMERIC, p_format = LLVAR, p_max = 22, p_size = 23\<rparr>),
     (3, \<lparr>p_type = NUMERIC, p_format = FIXED, p_max = 3, p_size = 4\<rparr>),
     (4, \<lparr>p_type = NUMERIC, p_format = FIXED, p_max = 6, p_size = 7\<rparr>),
     (7, \<lparr>p_type = NUMERIC, p_format = FIXED, p_max = 5, p_size = 6\<rparr>),
     (11, \<lparr>p_type = NUMERIC, p_format = FIXED, p_max = 3, p_size = 4\<rparr>),
     (12, \<lparr>p_type = NUMERIC, p_format = FIXED, p_max = 3, p_size = 4\<rparr>),
     (13, \<lparr>p_type = NUMERIC, p_format = FIXED, p_max = 4, p_size = 5\<rparr>),
     (15, \<lparr>p_type = NUMERIC, p_format = FIXED, p_max = 2, p_size = 3\<rparr>),
     (24, \<lparr>p_type = NUMERIC, p_format = FIXED, p_max = 2, p_size = 3\<rparr>),
     (32, \<lparr>p_type = NUMERIC, p_format = LLVAR, p_max = 3, p_size = 4\<rparr>),
     (33, \<lparr>p_type = NUMERIC, p_format = LLVAR, p_max = 3, p_size = 4\<rparr>),
     (34, \<lparr>p_type = ALPHANUM, p_format = LLVAR, p_max = 16, p_size = 17\<rparr>),
     (35, \<lparr>p_type = ALPHANUM, p_format = LLVAR, p_max = 37, p_size = 38\<rparr>),
     (36, \<lparr>p_type = ALPHANUM, p_format = LLLVAR, p_max = 104, p_size = 105\<rparr>),
     (37, \<lparr>p_type = ALPHANUM, p_format = FIXED, p_max = 12, p_size = 13\<rparr>),
     (38, \<lparr>p_type = ALPHANUM, p_format = FIXED, p_max = 6, p_size = 7\<rparr>),
     (39, \<lparr>p_type = ALPHANUM, p_format = FIXED, p_max = 2, p_size = 3\<rparr>),
     (41, \<lparr>p_type = ALPHANUMS, p_format = FIXED, p_max = 8, p_size = 9\<rparr>),
     (42, \<lparr>p_type = ALPHANUMS, p_format = FIXED, p_max = 15, p_size = 16\<rparr>),
     (44, \<lparr>p_type = ALPHANUMS, p_format = LLVAR, p_max = 19, p_size = 23\<rparr>),
     (45, \<lparr>p_type = ALPHANUMS, p_format = LLVAR, p_max = 99, p_size = 100\<rparr>),
     (46, \<lparr>p_type = ALPHANUMS, p_format = LLLVAR, p_max = 999, p_size = 1000\<rparr>),
     (48, \<lparr>p_type = ALPHANUMS, p_format = LLLVAR, p_max = 42, p_size = 43\<rparr>),
     (52, \<lparr>p_type = BITS, p_format = FIXED, p_max = 8, p_size = 9\<rparr>),
     (53, \<lparr>p_type = NUMERIC, p_format = FIXED, p_max = 8, p_size = 9\<rparr>),
     (54, \<lparr>p_type = ALPHANUMS, p_format = LLLVAR, p_max = 39, p_size = 40\<rparr>),
     (55, \<lparr>p_type = ALPHANUMS, p_format = LLLVAR, p_max = 999, p_size = 1000\<rparr>),
     (60, \<lparr>p_type = ALPHANUMS, p_format = LLLVAR, p_max = 999, p_size = 1000\<rparr>),
     (61, \<lparr>p_type = ALPHANUMS, p_format = LLLVAR, p_max = 15, p_size = 16\<rparr>),
     (62, \<lparr>p_type = ALPHANUMS, p_format = LLLVAR, p_max = 9, p_size = 10\<rparr>),
     (63, \<lparr>p_type = ALPHANUMS, p_format = LLLVAR, p_max = 999, p_size = 1000\<rparr>),
     (64, \<lparr>p_type = BITS, p_format = FIXED, p_max = 8, p_size = 9\<rparr>)]"

definition Packet_Table :: "nat \<Rightarrow> packet_struct option" where
  "Packet_Table i = map_of Packet_List i"

record pack =
  MTI_Code :: bytes
  FIELD :: "nat \<Rightarrow> bytes"
  Real_Length :: "nat \<Rightarrow> nat"

definition CPack :: pack where
  "CPack = \<lparr>MTI_Code = replicate 3 0,
     FIELD = (\<lambda>i. case Packet_Table i of Some e \<Rightarrow> replicate (p_size e) 0 | None \<Rightarrow> []),
     Real_Length = (\<lambda>_. 0)\<rparr>"

definition init_fields :: "nat list" where
  "init_fields = [1, 2, 3, 4, 7, 11, 12, 13, 15, 32, 33, 37, 39, 41, 42, 45, 46, 48, 60, 62, 63, 64]"

definition init8583 :: "pack \<Rightarrow> pack" where
  "init8583 st = st\<lparr>MTI_Code := replicate 3 0,
     FIELD := (\<lambda>i. if i \<in> set init_fields then replicate (length (FIELD st i)) 0 else FIELD st i)\<rparr>"

section \<open>The bitmap\<close>

definition NO_BIT :: byte where "NO_BIT = 130"

definition PACKET_ERROR :: int where "PACKET_ERROR = 3"

text \<open>A shift by a negative amount or a store outside the 16 bytes does not occur for bit numbers 1 to
  128; bit numbers are bytes, and \<open>bitnum - 1\<close> is computed in an \<open>int\<close>.\<close>

definition SetBitMap :: "byte \<Rightarrow> bytes \<Rightarrow> bytes" where
  "SetBitMap bitnum bmap = (let k = unat bitnum - 1 in
     bmap[k div 8 := (bmap ! (k div 8)) OR drop_bit (k mod 8) 0x80])"

definition CheckBitMap :: "bytes \<Rightarrow> nat \<Rightarrow> byte" where
  "CheckBitMap BitMap Bit_No = push_bit ((Bit_No - 1) mod 8) (BitMap ! ((Bit_No - 1) div 8)) AND 0x80"

definition SetAllBitMap :: "bytes \<Rightarrow> bytes \<Rightarrow> bytes" where
  "SetAllBitMap destmap resmap = foldl (\<lambda>m b. if b \<noteq> NO_BIT then SetBitMap b m else m)
     (replicate 16 0 @ drop 16 destmap) (cstr resmap)"

definition setNoBit :: "byte \<Rightarrow> bytes \<Rightarrow> bytes" where
  "setNoBit value str = map (\<lambda>c. if c = value then NO_BIT else c) (cstr str)
     @ drop (strlen str) str"

section \<open>Packing\<close>

text \<open>\<open>sprintf("%04d")\<close> into \<open>tmp[5]\<close>, then \<open>hex_to_byte\<close> into \<open>BCD_Content[3]\<close>.\<close>

definition len_bcd :: "nat \<Rightarrow> bytes option" where
  "len_bcd TempLen = (if TempLen \<ge> 10000 then None
     else map_option fst (hex_to_byte (pad0 4 (dec_digits TempLen) @ [0]) 4 0))"

text \<open>What one present field adds to the packet. The casts \<open>(BYTE *)(2*TempLen)\<close> and
  \<open>(BYTE *)(8*TempLen)\<close> make a pointer out of a number (\<open>None\<close>); the copy from the field buffer must stay
  inside it. An entry the constructor left zero has no format: no case of the switch applies.\<close>

definition pack_field :: "pack \<Rightarrow> nat \<Rightarrow> bytes option" where
  "pack_field st i = (case Packet_Table i of None \<Rightarrow> Some []
     | Some e \<Rightarrow>
       (let TempLen = (if Real_Length st i = 0 then p_max e else Real_Length st i) in
        case p_format e of
          FIXED \<Rightarrow> copy_at 0 TempLen (FIELD st i)
        | LLVAR \<Rightarrow>
            (case p_type e of
               NUMERIC \<Rightarrow> (if i = 2 then do {
                   bcd \<leftarrow> len_bcd TempLen;
                   d \<leftarrow> copy_at 0 ((TempLen + 1) div 2) (FIELD st i);
                   Some (take 1 (drop 1 bcd) @ d) }
                 else None)
             | BITS \<Rightarrow> None
             | _ \<Rightarrow> do {
                   bcd \<leftarrow> len_bcd TempLen;
                   d \<leftarrow> copy_at 0 TempLen (FIELD st i);
                   Some (take 1 (drop 1 bcd) @ d) })
        | LLLVAR \<Rightarrow>
            (case p_type e of
               NUMERIC \<Rightarrow> None
             | BITS \<Rightarrow> None
             | _ \<Rightarrow> do {
                   bcd \<leftarrow> len_bcd TempLen;
                   d \<leftarrow> copy_at 0 TempLen (FIELD st i);
                   Some (take 2 bcd @ d) })))"

text \<open>The loop over the bits 2 to 64; the packet buffer of the caller is the returned list.\<close>

fun pack_fields :: "pack \<Rightarrow> nat list \<Rightarrow> bytes option" where
  "pack_fields st [] = Some []"
| "pack_fields st (i # is) = (if CheckBitMap (FIELD st 1) i \<noteq> 0
     then do { w \<leftarrow> pack_field st i; r \<leftarrow> pack_fields st is; Some (w @ r) }
     else pack_fields st is)"

definition packFunc :: "pack \<Rightarrow> bytes option" where
  "packFunc st = do {
     bitmap \<leftarrow> copy_at 0 8 (FIELD st 1);
     body \<leftarrow> pack_fields st [2..<65];
     Some (take 2 (MTI_Code st) @ bitmap @ body)
   }"

section \<open>Unpacking\<close>

definition set_field :: "nat \<Rightarrow> bytes \<Rightarrow> pack \<Rightarrow> pack option" where
  "set_field i d st = do { b \<leftarrow> poke 0 d (FIELD st i); Some (st\<lparr>FIELD := (FIELD st)(i := b)\<rparr>) }"

definition set_len :: "nat \<Rightarrow> nat \<Rightarrow> pack \<Rightarrow> pack" where
  "set_len i n st = st\<lparr>Real_Length := (Real_Length st)(i := n)\<rparr>"

text \<open>The length on the wire in bytes: half the number for digits (rounded up for the card number of
  field 2 only), an eighth for bits.\<close>

definition wire_bytes :: "nat \<Rightarrow> packet_struct \<Rightarrow> nat \<Rightarrow> nat" where
  "wire_bytes i e n = (case p_type e of
       NUMERIC \<Rightarrow> (if i = 2 \<and> p_format e = LLVAR \<and> odd n then (n + 1) div 2 else n div 2)
     | BITS \<Rightarrow> n div 8 | _ \<Rightarrow> n)"

text \<open>One present field: the result is the new state and position and whether the loop goes on. The
  first store clears one byte of the buffer only: the source clears \<open>sizeof(*Rev_Data)\<close> bytes.\<close>

definition unpack_field :: "bytes \<Rightarrow> nat \<Rightarrow> nat \<Rightarrow> pack \<Rightarrow> (bool \<times> nat \<times> pack) option" where
  "unpack_field data_source i pos st = do {
     e \<leftarrow> Packet_Table i;
     st0 \<leftarrow> set_field i [0] st;
     case p_format e of
       FIXED \<Rightarrow> do {
         d \<leftarrow> copy_at pos (p_max e) data_source;
         st1 \<leftarrow> set_field i d st0;
         Some (True, pos + p_max e, st1) }
     | _ \<Rightarrow> do {
         let offset = (if p_format e = LLVAR then 1 else 2);
         n \<leftarrow> BCD_To_INT_10 (drop pos data_source) offset;
         let TempLen = wire_bytes i e (unat n);
         if TempLen > p_max e then Some (False, pos + offset, set_len i (unat n) st0)
         else do {
           d \<leftarrow> copy_at (pos + offset) TempLen data_source;
           st1 \<leftarrow> set_field i d (set_len i TempLen st0);
           Some (True, pos + offset + TempLen, st1) } }
   }"

fun unpack_fields :: "bytes \<Rightarrow> nat list \<Rightarrow> nat \<Rightarrow> pack \<Rightarrow> (int \<times> pack) option" where
  "unpack_fields src [] pos st = Some (1, st)"
| "unpack_fields src (i # is) pos st = (if CheckBitMap (FIELD st 1) i \<noteq> 0
     then do {
       (go, pos', st') \<leftarrow> unpack_field src i pos st;
       if go then unpack_fields src is pos' st' else Some (PACKET_ERROR, st') }
     else unpack_fields src is pos st)"

text \<open>The first two bytes of the packet are its length, which is skipped; \<open>data_length\<close> is not used.\<close>

definition unpackFunc :: "bytes \<Rightarrow> nat \<Rightarrow> pack \<Rightarrow> (int \<times> pack) option" where
  "unpackFunc data_source data_length st = do {
     mti \<leftarrow> copy_at 2 2 data_source;
     bitmap \<leftarrow> copy_at 4 8 data_source;
     st1 \<leftarrow> set_field 1 bitmap (st\<lparr>MTI_Code := mti @ [0]\<rparr>);
     unpack_fields data_source [2..<65] 12 st1
   }"

section \<open>The bits of each transaction\<close>

text \<open>What the packer reads of \<open>CGlobal\<close>. \<open>eny\<close> is \<open>posInfo.enyFlag\<close> as a truth value; \<open>logon_random2\<close>
  is the global variable of that name.\<close>

record gbl =
  card_no :: bytes
  card_no_len :: nat
  amount :: bytes
  stan_no :: bytes
  pos_no :: bytes
  fee_type :: bytes
  phone_no :: bytes
  phone_len :: nat
  curworkid :: bytes
  pos_serial :: bytes
  password :: bytes
  track2 :: bytes
  track2_len :: nat
  track3 :: bytes
  track3_len :: nat
  xlt_card :: bytes
  random_num :: bytes
  key_num :: int
  eny :: bool
  psamNum :: bytes
  ip :: bytes
  bank :: bytes
  logon_random2 :: bytes

definition fee :: "gbl \<Rightarrow> int" where "fee g = atol (fee_type g)"

definition mask_if :: "bool \<Rightarrow> byte \<Rightarrow> bytes \<Rightarrow> bytes" where
  "mask_if c b m = (if c then setNoBit b m else m)"

text \<open>Common end of every \<open>Exchange_\<close> routine: the message type and the bitmap.\<close>

definition exchange :: "bytes \<Rightarrow> bytes \<Rightarrow> pack \<Rightarrow> pack" where
  "exchange mti bits st = st\<lparr>MTI_Code := mti @ [0], FIELD := (FIELD st)(1 := SetAllBitMap (FIELD st 1) bits)\<rparr>"

definition bits_ack :: bytes where
  "bits_ack = [2, 3, 4, 11, 12, 13, 24, 37, 41, 48, 61, 62, 63, 64, 0]"

definition Exchange_ACK :: "gbl \<Rightarrow> pack \<Rightarrow> pack" where
  "Exchange_ACK g = exchange [0x03, 0x50] bits_ack"

definition bits_rev :: "gbl \<Rightarrow> bytes" where
  "bits_rev g = mask_if (track3_len g = 0) 36 (mask_if (track2_len g = 0) 35
     [2, 3, 4, 11, 12, 13, 24, 35, 36, 41, 48, 61, 62, 64, 0])"

definition Exchange_REV :: "gbl \<Rightarrow> pack \<Rightarrow> pack" where
  "Exchange_REV g = exchange [0x04, 0x00] (bits_rev g)"

definition bits_logon :: "gbl \<Rightarrow> bytes" where
  "bits_logon g = mask_if (\<not> eny g) 63 (mask_if (\<not> eny g) 53
     [3, 11, 12, 13, 24, 41, 46, 53, 61, 62, 63, 64, 0])"

definition Exchange_LOGON :: "gbl \<Rightarrow> pack \<Rightarrow> pack" where
  "Exchange_LOGON g = exchange [0x08, 0x00] (bits_logon g)"

definition bits_inquiry2 :: bytes where
  "bits_inquiry2 = [2, 3, 7, 11, 12, 13, 24, 35, 36, 41, 46, 48, 52, 53, 61, 62, 63, 64, 0]"

definition bits_inquiry :: "gbl \<Rightarrow> bytes" where
  "bits_inquiry g = (let f = fee g;
       tracks = mask_if (track3_len g = 0) 36 (mask_if (track2_len g = 0) 35 bits_inquiry2) in
     if f \<in> {83, 84, 145, 146, 171, 185, 238, 228, 248, 250, 235, 236, 312, 333}
     then mask_if (\<not> eny g) 53 (mask_if (\<not> eny g) 46 tracks)
     else if f = 182
     then mask_if (\<not> eny g) 53 (mask_if (\<not> eny g) 46 (setNoBit 36 (setNoBit 35 bits_inquiry2)))
     else if f \<in> {94, 95, 181, 183, 186, 188, 189, 190, 227, 229, 230, 231}
     then setNoBit 53 (setNoBit 46 tracks)
     else if f \<in> {216, 217, 218, 246, 249, 261, 226, 320, 321, 326, 341, 344}
     then [2, 3, 7, 11, 12, 13, 24, 41, 48, 61, 62, 63, 64, 0]
     else if f \<in> {222, 269}
     then mask_if (\<not> eny g) 53 (mask_if (\<not> eny g) 46 tracks)
     else if f = 3012
     then mask_if (\<not> eny g) 53 (mask_if (\<not> eny g) 46
       [2, 3, 7, 11, 12, 13, 24, 41, 46, 48, 53, 61, 62, 64, 0])
     else if f \<in> {296, 297}
     then [2, 3, 7, 11, 12, 13, 24, 41, 46, 48, 61, 62, 63, 64, 0]
     else [2, 3, 7, 11, 12, 13, 24, 41, 48, 61, 62, 64, 0])"

definition Exchange_INQUIRY :: "gbl \<Rightarrow> pack \<Rightarrow> pack" where
  "Exchange_INQUIRY g = exchange [0x01, 0x00] (bits_inquiry g)"

definition bits_payment :: "gbl \<Rightarrow> bytes" where
  "bits_payment g = (let f = fee g;
       b0 = [2, 3, 4, 11, 12, 13, 24, 34, 35, 36, 41, 45, 46, 48, 52, 53, 55, 61, 62, 63, 64, 0];
       b1 = mask_if (track3_len g = 0) 36 (mask_if (track2_len g = 0) 35 b0);
       b2 = (if \<not> eny g
             then (let b = setNoBit 53 b1 in
               if f = 184 then setNoBit 45 b
               else if f = 224 \<or> f = 225 then setNoBit 45 b
               else if key_num g \<noteq> 8
               then (if f = 177 \<or> f = 170 then setNoBit 45 b
                     else if f = 211 \<or> f = 214 then setNoBit 45 b
                     else setNoBit 46 (setNoBit 45 b))
               else if f = 250 then setNoBit 45 b else b)
             else setNoBit 45 b1) in
     mask_if (f \<noteq> 131 \<and> f \<noteq> 176) 55 b2)"

definition Exchange_PAYMENT :: "gbl \<Rightarrow> pack \<Rightarrow> pack" where
  "Exchange_PAYMENT g = exchange [0x02, 0x00] (bits_payment g)"

text \<open>The five \<open>Comm_\<close> routines: the \<open>Exchange_\<close> routine they call returns 0, so the packet is
  always built. The result is the packet and the state it was built from. For another flag the return
  value of \<open>Comm_Pack\<close> is uninitialised.\<close>

definition packed :: "pack \<Rightarrow> (bytes \<times> pack) option" where
  "packed st = map_option (\<lambda>p. (p, st)) (packFunc st)"

definition Comm_Ack :: "gbl \<Rightarrow> pack \<Rightarrow> (bytes \<times> pack) option" where
  "Comm_Ack g st = packed (Exchange_ACK g st)"

definition Comm_Rev :: "gbl \<Rightarrow> pack \<Rightarrow> (bytes \<times> pack) option" where
  "Comm_Rev g st = packed (Exchange_REV g st)"

definition Comm_Logon :: "gbl \<Rightarrow> pack \<Rightarrow> (bytes \<times> pack) option" where
  "Comm_Logon g st = packed (Exchange_LOGON g st)"

definition Comm_Inquiry :: "gbl \<Rightarrow> pack \<Rightarrow> (bytes \<times> pack) option" where
  "Comm_Inquiry g st = packed (Exchange_INQUIRY g st)"

definition Comm_Payment :: "gbl \<Rightarrow> pack \<Rightarrow> (bytes \<times> pack) option" where
  "Comm_Payment g st = packed (Exchange_PAYMENT g st)"

definition Comm_Pack :: "int \<Rightarrow> gbl \<Rightarrow> pack \<Rightarrow> (bytes \<times> pack) option" where
  "Comm_Pack flag g st =
     (if flag = 1 then Comm_Inquiry g st
      else if flag = 2 then Comm_Payment g st
      else if flag = 3 then Comm_Logon g st
      else if flag = 4 then Comm_Ack g st
      else if flag = 5 then Comm_Rev g st
      else None)"

section \<open>Writing the fields\<close>

text \<open>\<open>put off d i\<close> copies into a field buffer, \<open>put_hex\<close> converts digits into one (with the NUL the
  conversion appends). \<open>dt\<close> is the clock as 14 digits.\<close>

definition put :: "nat \<Rightarrow> bytes \<Rightarrow> nat \<Rightarrow> pack \<Rightarrow> pack option" where
  "put off d i st = do { b \<leftarrow> poke off d (FIELD st i); Some (st\<lparr>FIELD := (FIELD st)(i := b)\<rparr>) }"

definition put_hex :: "bytes \<Rightarrow> nat \<Rightarrow> int \<Rightarrow> nat \<Rightarrow> pack \<Rightarrow> pack option" where
  "put_hex s n type i st = do { (d, k) \<leftarrow> hex_to_byte s n type; put 0 d i st }"

definition put_copy :: "bytes \<Rightarrow> nat \<Rightarrow> nat \<Rightarrow> pack \<Rightarrow> pack option" where
  "put_copy s n i st = do { d \<leftarrow> copy_at 0 n s; put 0 d i st }"

definition put_sign :: "gbl \<Rightarrow> pack \<Rightarrow> pack option" where
  "put_sign g st = (let s = replicate 7 0x30 @ cstr (curworkid g) in
     if length s > 15 then None else put 0 (s @ replicate (15 - length s) 0) 61 st)"

definition put_sign_p :: "gbl \<Rightarrow> pack \<Rightarrow> pack option" where
  "put_sign_p g st = do {
     s1 \<leftarrow> put_sign g st;
     s2 \<leftarrow> put 0 [0x50] 62 s1;
     Some (set_len 62 1 s2) }"

text \<open>The last fields most routines write: the sign-on text, the mark \<open>P\<close>, the MAC place holder.\<close>

definition put_tail :: "gbl \<Rightarrow> pack \<Rightarrow> pack option" where
  "put_tail g st = do { s1 \<leftarrow> put_sign_p g st; put 0 (replicate 8 0x38) 64 s1 }"

text \<open>Field 48: the fee type, two digits of the length, the phone number.\<close>

definition put_phone :: "gbl \<Rightarrow> pack \<Rightarrow> pack option" where
  "put_phone g st = do {
     f \<leftarrow> copy_at 0 4 (fee_type g);
     p \<leftarrow> copy_at 0 (phone_len g) (phone_no g);
     s1 \<leftarrow> put 0 f 48 st;
     s2 \<leftarrow> put 4 (take 2 (pad0 2 (dec_digits (phone_len g)))) 48 s1;
     s3 \<leftarrow> put 6 p 48 s2;
     Some (set_len 48 (6 + phone_len g) s3) }"

definition put_times :: "gbl \<Rightarrow> bytes \<Rightarrow> pack \<Rightarrow> pack option" where
  "put_times g dt st = do {
     s1 \<leftarrow> put_hex (pos_serial g) 6 0 11 st;
     s2 \<leftarrow> put_hex (drop 8 dt) 6 0 12 s1;
     s3 \<leftarrow> put_hex dt 8 0 13 s2;
     put_hex [0x30, 0x30, 0x30, 0x33] 4 0 24 s3 }"

definition wrInqField :: "bytes \<Rightarrow> gbl \<Rightarrow> pack \<Rightarrow> pack option" where
  "wrInqField dt g st = do {
     s0 \<leftarrow> put 0 (replicate 8 0) 2 (init8583 st);
     s1 \<leftarrow> put_hex [0x33, 0x31, 0x30, 0x30, 0x30, 0x30] 6 0 3 (set_len 2 8 s0);
     s2 \<leftarrow> put_hex (drop 4 dt) 10 0 7 s1;
     s3 \<leftarrow> put_times g dt s2;
     s4 \<leftarrow> put_copy (pos_no g) 8 41 s3;
     s5 \<leftarrow> put_phone g s4;
     put_tail g s5 }"

definition wrLogonField :: "bytes \<Rightarrow> gbl \<Rightarrow> pack \<Rightarrow> pack option" where
  "wrLogonField dt g st = do {
     s1 \<leftarrow> put_hex [0x39, 0x36, 0x30, 0x30, 0x30, 0x30] 6 0 3 (init8583 st);
     s2 \<leftarrow> put_times g dt s1;
     s3 \<leftarrow> put_copy (pos_no g) 8 41 s2;
     s4 \<leftarrow> put 0 [0x35] 46 s3;
     s5 \<leftarrow> put_sign_p g (set_len 46 1 s4);
     s6 \<leftarrow> put 0 (replicate 8 0x31 @ [0]) 64 s5;
     put 0 (replicate 8 0) 64 s6 }"

definition wrAckField :: "bytes \<Rightarrow> gbl \<Rightarrow> pack \<Rightarrow> pack option" where
  "wrAckField dt g st = do {
     s0 \<leftarrow> put 0 (replicate 8 0) 2 (init8583 st);
     s1 \<leftarrow> put_hex (replicate 6 0x30) 6 0 3 (set_len 2 8 s0);
     s2 \<leftarrow> put_hex (amount g) 12 0 4 s1;
     s3 \<leftarrow> put_times g dt s2;
     s4 \<leftarrow> put_copy (stan_no g) 12 37 s3;
     s5 \<leftarrow> put_copy (pos_no g) 8 41 s4;
     put_tail g s5 }"

text \<open>The card number of the reversal: an \<open>F\<close> is appended to an odd number of digits in a 25-character
  buffer, and \<open>hex_to_byte\<close> is given the odd length with padding behind.\<close>

definition put_card :: "nat \<Rightarrow> gbl \<Rightarrow> nat \<Rightarrow> pack \<Rightarrow> pack option" where
  "put_card room g n st = (let c = cstr (card_no g) @ (if odd n then [0x46] else []) in
     if length c \<ge> room then None
     else do { s1 \<leftarrow> put_hex (c @ replicate (room - length c) 0) n 1 2 st; Some (set_len 2 n s1) })"

definition put_tracks :: "gbl \<Rightarrow> pack \<Rightarrow> pack option" where
  "put_tracks g st = do {
     s1 \<leftarrow> put_copy (track2 g) (track2_len g) 35 st;
     s2 \<leftarrow> put_copy (track3 g) (track3_len g) 36 (set_len 35 (track2_len g) s1);
     Some (set_len 36 (track3_len g) s2) }"

definition wrRevField :: "bytes \<Rightarrow> gbl \<Rightarrow> pack \<Rightarrow> pack option" where
  "wrRevField dt g st = do {
     s1 \<leftarrow> put_card 25 g (card_no_len g) (init8583 st);
     s2 \<leftarrow> put_hex [0x30, 0x39, 0x30, 0x30, 0x30, 0x30] 6 0 3 s1;
     s3 \<leftarrow> put_hex (amount g) 12 0 4 s2;
     s4 \<leftarrow> put_times g dt s3;
     s5 \<leftarrow> put_tracks g s4;
     s6 \<leftarrow> put_copy (pos_no g) 8 41 s5;
     put_tail g s6 }"

text \<open>\<open>wrPayField\<close>, in the order of the source: the card number (\<open>8828\<close> marks the operator's own card),
  the amount and times, the terminal address, the tracks, the key fields, the phone, the password, the
  sign-on text and the PIN field.\<close>

definition own_card :: "gbl \<Rightarrow> bool" where
  "own_card g \<longleftrightarrow> take 4 (card_no g) = [0x38, 0x38, 0x32, 0x38]"

definition xlt_or_own :: "gbl \<Rightarrow> bool" where
  "xlt_or_own g \<longleftrightarrow> own_card g \<or> take 4 (card_no g) = [0x32, 0x30, 0x32, 0x38]"

definition pay_card :: "gbl \<Rightarrow> pack \<Rightarrow> pack option" where
  "pay_card g st =
     (if own_card g then do {
        s1 \<leftarrow> put_hex (replicate 6 0x38) 6 0 2 st;
        put_hex [0x36, 0x30, 0x30, 0x30, 0x30, 0x30] 6 0 3 (set_len 2 6 s1) }
      else do {
        s1 \<leftarrow> put_card 1024 g (if card_no_len g = 0 then 18 else card_no_len g) st;
        s2 \<leftarrow> (if fee g = 1 \<or> fee g = 13 then put_hex [0x36, 0x30, 0x30, 0x30, 0x30, 0x30] 6 0 3 s1
               else put_hex (replicate 6 0x30) 6 0 3 s1);
        if key_num g = 8 then put_hex [0x30, 0x30, 0x30, 0x30, 0x38, 0x30] 6 0 3 s2 else Some s2 })"

definition pay_tracks :: "gbl \<Rightarrow> pack \<Rightarrow> pack option" where
  "pay_tracks g st =
     (if own_card g
      then (if track2_len g \<noteq> 0 then map_option (set_len 35 26) (put_copy (track2 g) 26 35 st) else Some st)
      else put_tracks g st)"

definition key_mark :: "gbl \<Rightarrow> byte" where
  "key_mark g = (let f = fee g in
     if f = 177 then 0x42
     else if f \<in> {184, 284, 286, 170} then 0x35
     else if f \<in> {99, 92, 210} \<and> cstr (bank g) \<noteq> [0x31, 0x30, 0x35, 0x38, 0x31, 0x30] then 0x66
     else if f = 224 \<or> f = 225 then 0x35
     else if f = 211 \<or> f = 214 then (if take 4 (card_no g) \<noteq> [0x31, 0x30, 0x38, 0x38] then 0x62 else 0x39)
     else 0x64)"

definition pay_keys :: "gbl \<Rightarrow> pack \<Rightarrow> pack option" where
  "pay_keys g st = (let f = fee g;
       mark = (\<lambda>c s. map_option (set_len 46 1) (put 0 [c] 46 s)) in
     if eny g then do {
       s1 \<leftarrow> put 0 [0x39, key_mark g] 46 st;
       s2 \<leftarrow> put_copy (psamNum g) 8 53 (set_len 46 2 s1);
       Some (set_len 53 8 s2) }
     else if key_num g = 8 then do {
       s1 \<leftarrow> put_copy (logon_random2 g) 8 45 st;
       mark (if f = 211 \<or> f = 214 \<or> f = 177 then 0x36 else 0x35) (set_len 45 8 s1) }
     else if f = 184 \<or> f = 224 \<or> f = 225 then mark 0x31 st
     else if f = 211 \<or> f = 214 \<or> f = 177 then mark 0x32 st
     else if f = 170 then mark 0x31 st
     else Some st)"

definition pay_pin :: "gbl \<Rightarrow> pack \<Rightarrow> pack option" where
  "pay_pin g st =
     (if xlt_or_own g then do {
        s1 \<leftarrow> put 0 (replicate 1000 0) 63 st;
        s2 \<leftarrow> put 0 (replicate 8 0x30 @ cstr (xlt_card g) @ [0]) 63 s1;
        Some (set_len 63 (8 + strlen (xlt_card g)) s2) }
      else if key_num g mod 2 \<noteq> 0 then map_option (set_len 63 8) (put_copy (random_num g) 8 63 st)
      else map_option (set_len 63 8) (put 0 (replicate 8 0x30) 63 st))"

definition wrPayField :: "bytes \<Rightarrow> gbl \<Rightarrow> pack \<Rightarrow> pack option" where
  "wrPayField dt g st = do {
     s1 \<leftarrow> pay_card g (init8583 st);
     s2 \<leftarrow> put_hex (amount g) 12 0 4 s1;
     s3 \<leftarrow> put_hex (drop 4 dt) 10 0 7 s2;
     s4 \<leftarrow> put_times g dt s3;
     s5 \<leftarrow> put 0 (cstr (ip g)) 34 s4;
     s6 \<leftarrow> pay_tracks g (set_len 34 (strlen (ip g)) s5);
     s7 \<leftarrow> put 0 (cstr (pos_no g) @ [0]) 41 s6;
     s8 \<leftarrow> pay_keys g s7;
     s9 \<leftarrow> put_phone g s8;
     s10 \<leftarrow> (if xlt_or_own g then put 0 (replicate 8 0x30) 52 s9 else put_copy (password g) 8 52 s9);
     s11 \<leftarrow> put_sign_p g s10;
     s12 \<leftarrow> pay_pin g s11;
     put 0 (replicate 8 0x38 @ [0]) 64 s12 }"

text \<open>\<open>wrField\<close>: a serial number of three NULs is replaced by the time of day, as six digits.\<close>

definition wrField :: "int \<Rightarrow> bytes \<Rightarrow> gbl \<Rightarrow> pack \<Rightarrow> pack option" where
  "wrField flag dt g st = (let g = (if take 3 (pos_serial g) = [0, 0, 0]
        then g\<lparr>pos_serial := take 6 (drop 8 dt) @ drop 6 (pos_serial g)\<rparr> else g) in
     if flag = 1 then wrInqField dt g st
     else if flag = 2 then wrPayField dt g st
     else if flag = 3 then wrLogonField dt g st
     else if flag = 4 then wrAckField dt g st
     else if flag = 5 then wrRevField dt g st
     else Some st)"

end
