(* ===== verification/PackProofs.thy ===== *)
theory PackProofs
  imports Pack
begin

text \<open>
  Correctness of the packer of \<open>Pack\<close>: the bitmap as a set of bits; packing and unpacking of one field
  (length prefix in BCD, content) and of a whole packet; what unpacking does with an arbitrary buffer, stated
  over a description of the packet (\<open>layout\<close>); and the set of bits each transaction sends. \<open>sized\<close> says that every field buffer has the size its
  declaration gives it, \<open>sendable\<close> that the length kept for a field fits its format.
\<close>

unbundle bit_operations_syntax

section \<open>Bitmap lemmas\<close>

lemma bit_80: "bit (0x80 :: byte) n \<longleftrightarrow> n = 7"
proof -
  have "(0x80 :: byte) = 2 ^ 7" by simp
  then show ?thesis by (simp only: bit_exp_iff) auto
qed

lemma CheckBitMap_bit: "CheckBitMap m i \<noteq> 0 \<longleftrightarrow> bit (m ! ((i - 1) div 8)) (7 - (i - 1) mod 8)"
proof -
  let ?k = "(i - 1) mod 8" and ?x = "m ! ((i - 1) div 8)"
  have k: "?k \<le> 7" using mod_less_divisor [of 8 "i - 1"] by linarith
  have "push_bit ?k ?x AND 2 ^ 7 = 0 \<longleftrightarrow> \<not> bit (push_bit ?k ?x) 7" by (rule and_exp_eq_0_iff_not_bit)
  moreover have "bit (push_bit ?k ?x) 7 \<longleftrightarrow> bit ?x (7 - ?k)" using k by (simp add: bit_push_bit_iff)
  ultimately show ?thesis unfolding CheckBitMap_def by simp
qed

lemma bit_index: "0 < i \<Longrightarrow> 0 < j \<Longrightarrow>
    (i - 1) div 8 = (j - 1) div 8 \<and> 7 - (i - 1) mod 8 = 7 - (j - 1) mod 8 \<longleftrightarrow> i = (j :: nat)"
proof
  assume p: "0 < i" "0 < j" and e: "(i - 1) div 8 = (j - 1) div 8 \<and> 7 - (i - 1) mod 8 = 7 - (j - 1) mod 8"
  have "(i - 1) mod 8 \<le> 7" "(j - 1) mod 8 \<le> 7"
    using mod_less_divisor [of 8 "i - 1"] mod_less_divisor [of 8 "j - 1"] by linarith+
  with e have "(i - 1) mod 8 = (j - 1) mod 8" by linarith
  with e have "i - 1 = j - 1" by (metis div_mult_mod_eq)
  with p show "i = j" by linarith
qed simp

lemma SetBitMap_len [simp]: "length (SetBitMap b m) = length m"
  by (simp add: SetBitMap_def Let_def)

lemma CheckBitMap_Set:
  assumes "0 < unat b" "0 < i" "(unat b - 1) div 8 < length m"
  shows "CheckBitMap (SetBitMap b m) i \<noteq> 0 \<longleftrightarrow> CheckBitMap m i \<noteq> 0 \<or> i = unat b"
proof -
  let ?q = "(unat b - 1) div 8" and ?k = "(unat b - 1) mod 8"
  have k: "?k \<le> 7" using mod_less_divisor [of 8 "unat b - 1"] by linarith
  have d: "bit (drop_bit ?k (0x80 :: byte)) n \<longleftrightarrow> n = 7 - ?k" for n
    unfolding bit_drop_bit_eq o_def bit_80 using k by linarith
  have "bit (SetBitMap b m ! ((i - 1) div 8)) (7 - (i - 1) mod 8)
      \<longleftrightarrow> bit (m ! ((i - 1) div 8)) (7 - (i - 1) mod 8)
        \<or> ((i - 1) div 8 = ?q \<and> 7 - (i - 1) mod 8 = 7 - ?k)"
    using assms(3) unfolding SetBitMap_def Let_def
    by (cases "(i - 1) div 8 = ?q") (simp_all only: nth_list_update_eq nth_list_update_neq bit_or_iff d, simp_all)
  then show ?thesis unfolding CheckBitMap_bit bit_index [OF assms(2,1)] by blast
qed

definition bit_list :: "bytes \<Rightarrow> bool" where
  "bit_list r \<longleftrightarrow> list_all (\<lambda>b. b = NO_BIT \<or> (0 < b \<and> b \<le> 128)) (cstr r)"

lemma CheckBitMap_SetAll:
  assumes "bit_list r" "length m \<ge> 16" "0 < i" "i \<le> 128"
  shows "CheckBitMap (SetAllBitMap m r) i \<noteq> 0 \<longleftrightarrow> word_of_nat i \<in> set (cstr r)"
proof -
  have nb: "(word_of_nat i :: byte) \<noteq> NO_BIT" "unat (word_of_nat i :: byte) = i"
  proof -
    show u: "unat (word_of_nat i :: byte) = i" using assms(4) by (simp add: unsigned_of_nat take_bit_nat_eq_self)
    have "unat NO_BIT = 130" by (simp add: NO_BIT_def)
    with u assms(4) show "(word_of_nat i :: byte) \<noteq> NO_BIT" by auto
  qed
  have "CheckBitMap (foldl (\<lambda>m b. if b \<noteq> NO_BIT then SetBitMap b m else m) m bs) i \<noteq> 0
      \<longleftrightarrow> CheckBitMap m i \<noteq> 0 \<or> word_of_nat i \<in> set bs"
    if "list_all (\<lambda>b. b = NO_BIT \<or> (0 < b \<and> b \<le> 128)) bs" "length m \<ge> 16" for m bs
    using that
  proof (induction bs arbitrary: m)
    case (Cons b bs)
    show ?case
    proof (cases "b = NO_BIT")
      case True
      with Cons nb show ?thesis by simp
    next
      case False
      with Cons.prems have "0 < b" "b \<le> 128" by auto
      then have u: "0 < unat b" "unat b \<le> 128" by (simp_all add: word_less_nat_alt word_le_nat_alt)
      then have "(unat b - 1) div 8 < length m" using Cons.prems(2) by linarith
      from CheckBitMap_Set [OF u(1) assms(3) this] have
        "CheckBitMap (SetBitMap b m) i \<noteq> 0 \<longleftrightarrow> CheckBitMap m i \<noteq> 0 \<or> i = unat b" .
      moreover have "i = unat b \<longleftrightarrow> word_of_nat i = b" using nb(2) by auto
      moreover have "length (SetBitMap b m) \<ge> 16" using Cons.prems(2) by simp
      ultimately show ?thesis using Cons.IH [of "SetBitMap b m"] Cons.prems(1) False by auto
    qed
  qed simp
  from this [of "cstr r" "replicate 16 0 @ drop 16 m"]
  have "CheckBitMap (SetAllBitMap m r) i \<noteq> 0 \<longleftrightarrow>
      CheckBitMap (replicate 16 0 @ drop 16 m) i \<noteq> 0 \<or> word_of_nat i \<in> set (cstr r)"
    using assms(1) by (simp add: SetAllBitMap_def bit_list_def)
  moreover have "(i - 1) div 8 < 16" using assms(4) by linarith
  then have "CheckBitMap (replicate 16 0 @ drop 16 m) i = 0"
    using CheckBitMap_bit [of "replicate 16 0 @ drop 16 m" i] by (simp add: nth_append)
  ultimately show ?thesis by simp
qed

section \<open>Length prefixes\<close>

lemma pad0_4:
  assumes "n < 10000"
  shows "length (pad0 4 (dec_digits n)) = 4" "list_all is_digit (pad0 4 (dec_digits n))"
  using dec_digits_length [of n 4] assms by (simp_all add: dec_digits_all)

lemma len_bcd_pairs:
  assumes "n < 10000"
  shows "len_bcd n = Some (hex_pairs (pad0 4 (dec_digits n)) @ [0])"
proof -
  have "copy_at 0 4 (pad0 4 (dec_digits n) @ [0]) = Some (pad0 4 (dec_digits n))"
    using pad0_4 [OF assms] copy_at_app [of 0 "[]" 4 "pad0 4 (dec_digits n)" "[0]"] by simp
  then show ?thesis using assms pad0_4 [OF assms] by (simp add: len_bcd_def hex_to_byte_def)
qed

lemma bcd_word: "n < 10000 \<Longrightarrow> unat (word_of_nat n :: 32 word) = n"
  by (simp add: unsigned_of_nat take_bit_nat_eq_self)

lemma len_bcd_LLL:
  assumes "n < 10000"
  shows "\<exists>x y. len_bcd n = Some [x, y, 0] \<and> BCD_To_INT_10 (x # y # r) 2 = Some (word_of_nat n)"
proof -
  have "length (hex_pairs (pad0 4 (dec_digits n))) = 2" using pad0_4 [OF assms] by simp
  then obtain x y where xy: "hex_pairs (pad0 4 (dec_digits n)) = [x, y]"
    by (metis (no_types, lifting) One_nat_def Suc_1 length_0_conv length_Suc_conv)
  have "bcd_loop [x, y] 0 = word_of_nat n"
    using bcd_of_digits [of "pad0 4 (dec_digits n)"] pad0_4 [OF assms] xy by simp
  then show ?thesis using len_bcd_pairs [OF assms] xy
    by (simp add: BCD_To_INT_10_def copy_at_def numeral_2_eq_2)
qed

lemma len_bcd_LL:
  assumes "n < 100"
  shows "\<exists>x y. len_bcd n = Some [x, y, 0] \<and> BCD_To_INT_10 (y # r) 1 = Some (word_of_nat n)"
proof -
  have "length (dec_digits n) \<le> 2" using dec_digits_length [of n 2] assms by simp
  then have s: "pad0 4 (dec_digits n) = [0x30, 0x30] @ pad0 2 (dec_digits n)"
    by (simp add: pad0_def numeral_eq_Suc Suc_diff_le)
  have l2: "length (pad0 2 (dec_digits n)) = 2" using \<open>length (dec_digits n) \<le> 2\<close> by simp
  have "length (hex_pairs (pad0 2 (dec_digits n))) = 1" using l2 by simp
  then obtain y where y: "hex_pairs (pad0 2 (dec_digits n)) = [y]"
    by (metis One_nat_def length_0_conv length_Suc_conv)
  have "bcd_loop [y] 0 = word_of_nat n"
    using bcd_of_digits [of "pad0 2 (dec_digits n)"] l2 y by (simp add: dec_digits_all)
  moreover have "hex_pairs (pad0 4 (dec_digits n)) = hex_pairs [0x30, 0x30] @ [y]"
    unfolding s y [symmetric] by (rule hex_pairs_append) simp
  ultimately show ?thesis using len_bcd_pairs [of n] assms
    by (simp add: BCD_To_INT_10_def copy_at_def)
qed

section \<open>One field there and back\<close>

definition sized :: "pack \<Rightarrow> bool" where
  "sized st \<longleftrightarrow> (\<forall>i e. Packet_Table i = Some e \<longrightarrow> length (FIELD st i) = p_size e)"

definition send_len :: "pack \<Rightarrow> nat \<Rightarrow> packet_struct \<Rightarrow> nat" where
  "send_len st i e = (if Real_Length st i = 0 then p_max e else Real_Length st i)"

text \<open>The number of bytes of a field on the wire, and when the length kept for it can be sent.\<close>

definition send_bytes :: "pack \<Rightarrow> nat \<Rightarrow> packet_struct \<Rightarrow> nat" where
  "send_bytes st i e = (if i = 2 then (send_len st i e + 1) div 2 else send_len st i e)"

definition alpha :: "packet_struct \<Rightarrow> bool" where
  "alpha e \<longleftrightarrow> p_type e = ALPHANUM \<or> p_type e = ALPHANUMS"

definition sendable :: "pack \<Rightarrow> nat \<Rightarrow> bool" where
  "sendable st i \<longleftrightarrow> (case Packet_Table i of None \<Rightarrow> False
     | Some e \<Rightarrow> (case p_format e of
         FIXED \<Rightarrow> send_len st i e = p_max e
       | LLVAR \<Rightarrow> (i = 2 \<or> alpha e) \<and> send_bytes st i e \<le> p_max e
       | LLLVAR \<Rightarrow> alpha e \<and> send_len st i e \<le> p_max e))"

definition content :: "pack \<Rightarrow> nat \<Rightarrow> bytes" where
  "content st i = (case Packet_Table i of None \<Rightarrow> [] | Some e \<Rightarrow> take (send_bytes st i e) (FIELD st i))"

lemma table_facts:
  assumes "Packet_Table i = Some e"
  shows "0 < p_max e" "p_max e < p_size e" "0 < i" "i \<le> 64" "i = 2 \<Longrightarrow> p_type e = NUMERIC \<and> p_format e = LLVAR \<and> p_max e < 50"
    "p_format e = LLVAR \<Longrightarrow> p_max e < 100" "p_max e < 1000"
proof -
  have "list_all (\<lambda>(i, e). 0 < p_max e \<and> p_max e < p_size e \<and> 0 < i \<and> i \<le> 64
      \<and> (i = 2 \<longrightarrow> p_type e = NUMERIC \<and> p_format e = LLVAR \<and> p_max e < 50)
      \<and> (p_format e = LLVAR \<longrightarrow> p_max e < 100) \<and> p_max e < 1000) Packet_List"
    by (simp add: Packet_List_def)
  moreover have "(i, e) \<in> set Packet_List" using assms by (auto simp: Packet_Table_def dest: map_of_SomeD)
  ultimately show "0 < p_max e" "p_max e < p_size e" "0 < i" "i \<le> 64" "i = 2 \<Longrightarrow> p_type e = NUMERIC \<and> p_format e = LLVAR \<and> p_max e < 50"
    "p_format e = LLVAR \<Longrightarrow> p_max e < 100" "p_max e < 1000"
    by (auto simp: list_all_iff)
qed

lemma poke_0: "length d \<le> length b \<Longrightarrow> poke 0 d b = Some (d @ drop (length d) b)"
  by (simp add: poke_def)

lemma set_field_some: "length d \<le> length (FIELD st i) \<Longrightarrow>
    set_field i d st = Some (st\<lparr>FIELD := (FIELD st)(i := d @ drop (length d) (FIELD st i))\<rparr>)"
  by (simp add: set_field_def poke_0)

lemma send_len_pos: "Packet_Table i = Some e \<Longrightarrow> 0 < send_len st i e"
  using table_facts(1) by (auto simp: send_len_def)

lemma two_99: "p_max e < 50 \<Longrightarrow> (n + 1) div 2 \<le> p_max e \<Longrightarrow> n < 100" by linarith

lemma content_len:
  assumes "sized st" "Packet_Table i = Some e" "send_bytes st i e \<le> p_max e"
  shows "length (content st i) = send_bytes st i e" "copy_at 0 (send_bytes st i e) (FIELD st i) = Some (content st i)"
  using assms table_facts(2) [OF assms(2)] by (auto simp: sized_def content_def copy_at_def)

lemma send_bytes_pos: "Packet_Table i = Some e \<Longrightarrow> 0 < send_bytes st i e"
proof -
  have "0 < x \<Longrightarrow> 0 < (x + 1) div 2" for x :: nat by presburger
  then show "Packet_Table i = Some e \<Longrightarrow> 0 < send_bytes st i e"
    using send_len_pos [of i e st] by (simp only: send_bytes_def split: if_splits) blast
qed

text \<open>The state after a field has been received.\<close>

definition received :: "pack \<Rightarrow> nat \<Rightarrow> pack \<Rightarrow> pack" where
  "received st i st' = st'\<lparr>FIELD := (FIELD st')(i := content st i @ drop (length (content st i)) (FIELD st' i)),
     Real_Length := (case Packet_Table i of None \<Rightarrow> Real_Length st'
       | Some e \<Rightarrow> (if p_format e = FIXED then Real_Length st' else (Real_Length st')(i := send_bytes st i e)))\<rparr>"

definition zeroed :: "nat \<Rightarrow> pack \<Rightarrow> pack" where
  "zeroed i st = st\<lparr>FIELD := (FIELD st)(i := 0 # drop 1 (FIELD st i))\<rparr>"

definition stored :: "nat \<Rightarrow> bytes \<Rightarrow> pack \<Rightarrow> pack" where
  "stored i d st = st\<lparr>FIELD := (FIELD st)(i := d @ drop (length d) (FIELD st i))\<rparr>"

lemma set_zero: "0 < length (FIELD st i) \<Longrightarrow> set_field i [0] st = Some (zeroed i st)"
  using set_field_some [of "[0]" st i] by (cases "FIELD st i") (simp_all add: zeroed_def)

lemma set_after_zero:
  assumes "length d \<le> length (FIELD st i)" "0 < length d"
  shows "set_field i d (zeroed i st) = Some (stored i d st)"
    "set_field i d (set_len i n (zeroed i st)) = Some (set_len i n (stored i d st))"
proof -
  have "length (0 # drop 1 (FIELD st i)) = length (FIELD st i)" using assms by (cases "FIELD st i") auto
  moreover have "drop (length d) (0 # drop 1 (FIELD st i)) = drop (length d) (FIELD st i)"
    using assms(2) by (cases "length d"; cases "FIELD st i") simp_all
  ultimately show "set_field i d (zeroed i st) = Some (stored i d st)"
    "set_field i d (set_len i n (zeroed i st)) = Some (set_len i n (stored i d st))"
    using assms(1) by (simp_all add: set_field_some zeroed_def stored_def set_len_def)
qed

lemma received_stored: "Packet_Table i = Some e \<Longrightarrow> received st i st'
    = (if p_format e = FIXED then stored i (content st i) st'
       else set_len i (send_bytes st i e) (stored i (content st i) st'))"
  by (simp add: received_def stored_def set_len_def)

lemma field_fixed:
  assumes "sized st" "sized st'" "sendable st i" "Packet_Table i = Some e" "p_format e = FIXED"
  shows "pack_field st i = Some (content st i)
    \<and> unpack_field (a @ content st i @ r) i (length a) st'
        = Some (True, length a + length (content st i), received st i st')"
proof -
  have n: "send_len st i e = p_max e" using assms by (simp add: sendable_def)
  have i: "i \<noteq> 2" using table_facts(5) [OF assms(4)] assms(5) by auto
  then have b: "send_bytes st i e = p_max e" by (simp add: send_bytes_def n)
  note c = content_len [OF assms(1,4)]
  have l: "length (content st i) = p_max e" "length (content st i) \<le> length (FIELD st' i)" "0 < length (content st i)"
    using c b table_facts(1,2) [OF assms(4)] assms(2,4) by (auto simp: sized_def)
  have "pack_field st i = Some (content st i)"
    using assms(4,5) c b n by (simp add: pack_field_def send_len_def [symmetric] Let_def)
  moreover have "copy_at (length a) (p_max e) (a @ content st i @ r) = Some (content st i)"
    using l by (simp add: copy_at_app)
  moreover have "0 < length (FIELD st' i)" using l by linarith
  ultimately show ?thesis
    using set_after_zero(1) [OF l(2,3)] assms(4,5) l(1)
    by (simp add: unpack_field_def received_stored set_zero)
qed

lemma field_prefix:
  assumes "sized st" "sized st'" "Packet_Table i = Some e" "p_format e \<noteq> FIXED" "send_bytes st i e \<le> p_max e"
    and "off = (if p_format e = LLVAR then 1 else 2)" "length p = off"
    and "\<And>r. BCD_To_INT_10 (p @ r) off = Some (word_of_nat n)" "n < 10000" "wire_bytes i e n = send_bytes st i e"
  shows "unpack_field (a @ (p @ content st i) @ r) i (length a) st'
        = Some (True, length a + length (p @ content st i), received st i st')"
proof -
  note c = content_len [OF assms(1,3,5)]
  have l: "length (content st i) \<le> length (FIELD st' i)" "0 < length (content st i)"
    using c send_bytes_pos [OF assms(3)] table_facts(2) [OF assms(3)] assms(2,3,5) by (auto simp: sized_def)
  then have z: "0 < length (FIELD st' i)" by linarith
  have b: "BCD_To_INT_10 (drop (length a) (a @ (p @ content st i) @ r)) off = Some (word_of_nat n)"
    using assms(8) by simp
  have u: "unat (word_of_nat n :: 32 word) = n" using assms(9) by (rule bcd_word)
  have d: "copy_at (length a + off) (send_bytes st i e) (a @ (p @ content st i) @ r) = Some (content st i)"
    using copy_at_app [of "length a + off" "a @ p" "send_bytes st i e" "content st i" r] assms(7) c(1) by simp
  show ?thesis
  proof (cases "p_format e")
    case LLVAR
    then show ?thesis using assms(3,5,6,7,10) b d u z c(1) set_after_zero(2) [OF l]
      by (simp add: unpack_field_def set_zero received_stored Let_def)
  next
    case LLLVAR
    then show ?thesis using assms(3,5,6,7,10) b d u z c(1) set_after_zero(2) [OF l]
      by (simp add: unpack_field_def set_zero received_stored Let_def)
  qed (use assms(4) in simp)
qed

lemma field_roundtrip:
  assumes "sized st" "sized st'" "sendable st i"
  shows "\<exists>w. pack_field st i = Some w \<and> (\<forall>a r.
    unpack_field (a @ w @ r) i (length a) st' = Some (True, length a + length w, received st i st'))"
proof -
  from assms(3) obtain e where e: "Packet_Table i = Some e" by (auto simp: sendable_def split: option.splits)
  show ?thesis
  proof (cases "p_format e")
    case FIXED
    then show ?thesis using field_fixed [OF assms e] by blast
  next
    case LLVAR
    let ?n = "send_len st i e"
    have s: "i = 2 \<or> alpha e" "send_bytes st i e \<le> p_max e" using assms(3) e LLVAR by (simp_all add: sendable_def)
    note t = table_facts [OF e]
    have n: "?n < 100" using s(2) t(5,6) LLVAR two_99 by (cases "i = 2") (auto simp: send_bytes_def)
    obtain x y where xy: "len_bcd ?n = Some [x, y, 0]" "\<And>r. BCD_To_INT_10 ([y] @ r) 1 = Some (word_of_nat ?n)"
      using len_bcd_LL [OF n] by (metis append_Cons append_Nil list.inject option.inject)
    note c = content_len [OF assms(1) e s(2)]
    have ty: "i = 2 \<Longrightarrow> p_type e = NUMERIC" "i \<noteq> 2 \<Longrightarrow> p_type e = ALPHANUM \<or> p_type e = ALPHANUMS"
      using s(1) t(5) by (auto simp: alpha_def)
    have w: "wire_bytes i e ?n = send_bytes st i e"
    proof (cases "i = 2")
      case True
      then show ?thesis using ty LLVAR by (cases "odd ?n") (auto simp: wire_bytes_def send_bytes_def elim: evenE)
    next
      case False
      then show ?thesis using ty by (auto simp: wire_bytes_def send_bytes_def)
    qed
    have "pack_field st i = Some ([y] @ content st i)"
    proof (cases "i = 2")
      case True
      then show ?thesis using e LLVAR ty xy(1) c(2)
        by (simp add: pack_field_def send_len_def [symmetric] Let_def send_bytes_def)
    next
      case False
      then show ?thesis using e LLVAR ty(2) xy(1) c(2)
        by (auto simp add: pack_field_def send_len_def [symmetric] Let_def send_bytes_def)
    qed
    moreover have "?n < 10000" using n by simp
    ultimately show ?thesis
      using field_prefix [OF assms(1,2) e _ s(2), of 1 "[y]" ?n] LLVAR xy(2) w by auto
  next
    case LLLVAR
    let ?n = "send_len st i e"
    have s: "alpha e" "?n \<le> p_max e" using assms(3) e LLLVAR by (simp_all add: sendable_def)
    note t = table_facts [OF e]
    have i2: "i \<noteq> 2" using t(5) LLLVAR by auto
    then have sb: "send_bytes st i e = ?n" by (simp add: send_bytes_def)
    have n: "?n < 10000" using s(2) t(7) by simp
    obtain x y where xy: "len_bcd ?n = Some [x, y, 0]" "\<And>r. BCD_To_INT_10 ([x, y] @ r) 2 = Some (word_of_nat ?n)"
      using len_bcd_LLL [OF n] by (metis append_Cons append_Nil list.inject option.inject)
    have s2: "send_bytes st i e \<le> p_max e" using s(2) sb by simp
    note c = content_len [OF assms(1) e s2]
    have w: "wire_bytes i e ?n = send_bytes st i e"
      using s(1) sb by (auto simp: wire_bytes_def alpha_def)
    have "pack_field st i = Some ([x, y] @ content st i)"
      using e LLLVAR s(1) xy(1) c(2) sb
      by (auto simp add: pack_field_def send_len_def [symmetric] Let_def alpha_def)
    then show ?thesis
      using field_prefix [OF assms(1,2) e _ s2, of 2 "[x, y]" ?n] LLLVAR xy(2) w n by auto
  qed
qed

section \<open>Whole packets\<close>

definition present :: "pack \<Rightarrow> nat \<Rightarrow> bool" where
  "present st i \<longleftrightarrow> CheckBitMap (FIELD st 1) i \<noteq> 0"

lemma sendable_bytes: "sendable st i \<Longrightarrow> Packet_Table i = Some e \<Longrightarrow> send_bytes st i e \<le> p_max e"
  using table_facts(5) [of i e] by (auto simp: sendable_def send_bytes_def split: pformat.splits)

lemma received_sized: "sized st \<Longrightarrow> sized st' \<Longrightarrow> sendable st i \<Longrightarrow> sized (received st i st')"
proof -
  assume s: "sized st" "sized st'" "sendable st i"
  then obtain e where e: "Packet_Table i = Some e" by (auto simp: sendable_def split: option.splits)
  have "length (content st i) \<le> length (FIELD st' i)"
    using content_len(1) [OF s(1) e sendable_bytes [OF s(3) e]] sendable_bytes [OF s(3) e] table_facts(2) [OF e] s(2) e
    by (simp add: sized_def)
  with s(2) show ?thesis by (auto simp: sized_def received_def)
qed

lemma received_fields [simp]:
  "FIELD (received st i st') = (FIELD st')(i := content st i @ drop (length (content st i)) (FIELD st' i))"
  "MTI_Code (received st i st') = MTI_Code st'"
  by (simp_all add: received_def)

definition merged :: "pack \<Rightarrow> nat list \<Rightarrow> pack \<Rightarrow> nat \<Rightarrow> bytes" where
  "merged st is st' i = (if i \<in> set is \<and> present st i
     then content st i @ drop (length (content st i)) (FIELD st' i) else FIELD st' i)"

lemma loop_roundtrip:
  assumes "sized st" "sized st'" "distinct is" "1 \<notin> set is"
    and "\<forall>i\<in>set is. (present st i \<longrightarrow> sendable st i) \<and> CheckBitMap (FIELD st' 1) i = CheckBitMap (FIELD st 1) i"
  shows "\<exists>w. pack_fields st is = Some w \<and> (\<forall>a r. \<exists>st''. unpack_fields (a @ w @ r) is (length a) st' = Some (1, st'')
    \<and> MTI_Code st'' = MTI_Code st' \<and> FIELD st'' = merged st is st')"
  using assms
proof (induction "is" arbitrary: st')
  case Nil
  then show ?case by (auto simp: merged_def)
next
  case (Cons i "is")
  show ?case
  proof (cases "present st i")
    case False
    with Cons.prems have "CheckBitMap (FIELD st 1) i = 0" "CheckBitMap (FIELD st' 1) i = 0" by (simp_all add: present_def)
    moreover have "merged st (i # is) st' = merged st is st'" using False by (auto simp: merged_def)
    ultimately show ?thesis using Cons by simp
  next
    case True
    with Cons.prems have s: "sendable st i" and b: "CheckBitMap (FIELD st 1) i \<noteq> 0" "CheckBitMap (FIELD st' 1) i \<noteq> 0"
      by (simp_all add: present_def)
    let ?st = "received st i st'"
    obtain w where w: "pack_field st i = Some w"
      "\<And>a r. unpack_field (a @ w @ r) i (length a) st' = Some (True, length a + length w, ?st)"
      using field_roundtrip [OF Cons.prems(1,2) s] by blast
    have "FIELD ?st 1 = FIELD st' 1" using Cons.prems(4) by auto
    then have p: "\<forall>j\<in>set is. (present st j \<longrightarrow> sendable st j) \<and> CheckBitMap (FIELD ?st 1) j = CheckBitMap (FIELD st 1) j"
      using Cons.prems(5) by simp
    from Cons.IH [OF Cons.prems(1) received_sized [OF Cons.prems(1,2) s] _ _ p] Cons.prems(3,4)
    obtain v where v: "pack_fields st is = Some v"
      "\<And>a r. \<exists>st''. unpack_fields (a @ v @ r) is (length a) ?st = Some (1, st'')
        \<and> MTI_Code st'' = MTI_Code ?st \<and> FIELD st'' = merged st is ?st" by auto
    have m: "merged st is ?st = merged st (i # is) st'"
      using True Cons.prems(3) by (auto simp: merged_def fun_eq_iff)
    have "\<exists>st''. unpack_fields (a @ (w @ v) @ r) (i # is) (length a) st' = Some (1, st'')
        \<and> MTI_Code st'' = MTI_Code st' \<and> FIELD st'' = merged st (i # is) st'" for a r
      using v(2) [of "a @ w" r] w(2) [of a "v @ r"] b(2) m by simp
    moreover have "pack_fields st (i # is) = Some (w @ v)" using b(1) w(1) v(1) by simp
    ultimately show ?thesis by blast
  qed
qed

lemma CheckBitMap_prefix: "take 8 m = take 8 m' \<Longrightarrow> 0 < i \<Longrightarrow> i \<le> 64 \<Longrightarrow> CheckBitMap m i = CheckBitMap m' i"
proof -
  assume t: "take 8 m = take 8 m'" and i: "0 < i" "i \<le> 64"
  then have "(i - 1) div 8 < 8" by linarith
  then have "m ! ((i - 1) div 8) = m' ! ((i - 1) div 8)" using t by (metis nth_take)
  then show ?thesis by (simp add: CheckBitMap_def)
qed

section \<open>Any packet\<close>

text \<open>A description of what a buffer says, without the loop's pointers and shifts: \<open>named\<close> reads the bitmap,
  \<open>content_bytes\<close> the length prefix in front of a field (bytes behind the end of the buffer count as zero), and
  \<open>layout\<close> lists the fields with the place and the number of their bytes, how the packet ends, and up to where
  it reaches. A field whose prefix is more than its buffer holds ends the packet and is emptied.\<close>

definition byte_at :: "bytes \<Rightarrow> nat \<Rightarrow> byte" where
  "byte_at data p = (if p < length data then data ! p else 0)"

definition named :: "bytes \<Rightarrow> nat \<Rightarrow> bool" where
  "named data i \<longleftrightarrow> bit (data ! (4 + (i - 1) div 8)) (7 - (i - 1) mod 8)"

definition two_digits :: "byte \<Rightarrow> nat" where
  "two_digits b = unat b div 16 * 10 + unat b mod 16"

fun prefix_size :: "pformat \<Rightarrow> nat" where
  "prefix_size FIXED = 0"
| "prefix_size LLVAR = 1"
| "prefix_size LLLVAR = 2"

definition content_bytes :: "nat \<Rightarrow> packet_struct \<Rightarrow> bytes \<Rightarrow> nat \<Rightarrow> nat" where
  "content_bytes i e data pos = (let n = (case p_format e of FIXED \<Rightarrow> p_max e | LLVAR \<Rightarrow> two_digits (byte_at data pos)
       | LLLVAR \<Rightarrow> two_digits (byte_at data pos) * 100 + two_digits (byte_at data (pos + 1))) in
     if p_format e = FIXED then n
     else case p_type e of NUMERIC \<Rightarrow> if i = 2 then (n + 1) div 2 else n div 2 | BITS \<Rightarrow> n div 8 | _ \<Rightarrow> n)"

datatype packet_end = Whole | Too_Long | Undefined

fun layout :: "bytes \<Rightarrow> nat list \<Rightarrow> nat \<Rightarrow> (nat \<times> nat \<times> nat) list \<times> packet_end \<times> nat" where
  "layout data [] pos = ([], Whole, pos)"
| "layout data (i # is) pos = (if \<not> named data i then layout data is pos
     else case Packet_Table i of None \<Rightarrow> ([], Undefined, pos)
     | Some e \<Rightarrow> (let start = pos + prefix_size (p_format e); n = content_bytes i e data pos in
         if p_max e < n then ([(i, start, 0)], Too_Long, start)
         else (let (fs, fin, reach) = layout data is (start + n) in ((i, start, n) # fs, fin, reach))))"

text \<open>A buffer into which a field is written: the first byte is cleared before.\<close>

definition written :: "bytes \<Rightarrow> bytes \<Rightarrow> bytes" where
  "written d b = d @ drop (length d) (0 # drop 1 b)"

definition filled :: "bytes \<Rightarrow> (nat \<times> nat \<times> nat) list \<Rightarrow> (nat \<Rightarrow> bytes) \<Rightarrow> nat \<Rightarrow> bytes" where
  "filled data fs F j = (case map_of fs j of None \<Rightarrow> F j | Some (p, n) \<Rightarrow> written (take n (drop p data)) (F j))"

lemma bcd_byte: "ucast ((drop_bit 4 b AND 0x0F) * 10) + ucast (b AND 0x0F) = (word_of_nat (two_digits b) :: 32 word)"
proof -
  have m: "(0x0F :: byte) = mask 4" by (simp add: mask_eq_exp_minus_1)
  have l: "unat (b AND 0x0F) = unat b mod 16"
    unfolding m take_bit_eq_mask [symmetric] unsigned_take_bit_eq by (simp add: take_bit_eq_mod)
  have "drop_bit 4 (unat b) = unat b div 16" by (simp add: drop_bit_eq_div)
  then have "unat (drop_bit 4 b AND 0x0F) = unat b div 16 mod 16"
    unfolding m take_bit_eq_mask [symmetric] unsigned_take_bit_eq unat_drop_bit_eq by (simp add: take_bit_eq_mod)
  moreover have "unat b < 256" using unsigned_less [of b] by simp
  moreover from this have "unat b div 16 < 16" by linarith
  ultimately have h: "unat (drop_bit 4 b AND 0x0F) = unat b div 16" and "unat b div 16 < 16" by simp_all
  then have "unat ((drop_bit 4 b AND 0x0F) * 10) = unat b div 16 * 10" by (simp add: unat_word_ariths)
  then have "(ucast ((drop_bit 4 b AND 0x0F) * 10) :: 32 word) = word_of_nat (unat b div 16 * 10)" by (metis of_nat_unat)
  moreover have "(ucast (b AND 0x0F) :: 32 word) = word_of_nat (unat b mod 16)" using l by (metis of_nat_unat)
  ultimately show ?thesis by (simp add: two_digits_def)
qed

lemma two_digits_le: "two_digits b \<le> 165"
proof -
  have "unat b < 256" using unsigned_less [of b] by simp
  then have "unat b div 16 \<le> 15" "unat b mod 16 \<le> 15" by linarith+
  then show ?thesis by (simp add: two_digits_def)
qed

lemma bcd_prefix:
  assumes "pos + prefix_size f \<le> length src" "f \<noteq> FIXED"
  shows "\<exists>n. BCD_To_INT_10 (drop pos src) (prefix_size f) = Some n
    \<and> unat n = (if f = LLVAR then two_digits (byte_at src pos) else two_digits (byte_at src pos) * 100 + two_digits (byte_at src (pos + 1)))"
proof (cases f)
  case LLVAR
  then have p: "pos < length src" using assms(1) by simp
  then have "take 1 (drop pos src) = [src ! pos]" by (simp add: take_Suc_conv_app_nth)
  then have "BCD_To_INT_10 (drop pos src) 1 = Some (word_of_nat (two_digits (src ! pos)))"
    using p bcd_byte [of "src ! pos"] by (simp add: BCD_To_INT_10_def copy_at_def)
  then show ?thesis using p LLVAR two_digits_le [of "src ! pos"] by (simp add: byte_at_def unsigned_of_nat take_bit_nat_eq_self)
next
  case LLLVAR
  then have p: "pos + 1 < length src" using assms(1) by simp
  then have "take 2 (drop pos src) = [src ! pos, src ! (pos + 1)]" by (simp add: take_Suc_conv_app_nth numeral_2_eq_2)
  then have "BCD_To_INT_10 (drop pos src) 2 = Some (word_of_nat (two_digits (src ! pos) * 100 + two_digits (src ! (pos + 1))))"
    using p bcd_byte [of "src ! pos"] bcd_byte [of "src ! (pos + 1)"] by (simp add: BCD_To_INT_10_def copy_at_def add.assoc)
  moreover have "unat (word_of_nat (two_digits (src ! pos) * 100 + two_digits (src ! (pos + 1))) :: 32 word)
      = two_digits (src ! pos) * 100 + two_digits (src ! (pos + 1))"
    unfolding unsigned_of_nat using two_digits_le [of "src ! pos"] two_digits_le [of "src ! (pos + 1)"] by (simp add: take_bit_nat_eq_self)
  ultimately show ?thesis using p LLLVAR by (simp add: byte_at_def)
qed (use assms(2) in simp)

lemma unpack_var:
  assumes "Packet_Table i = Some e" "p_format e \<noteq> FIXED" "0 < length (FIELD st i)"
  shows "unpack_field src i pos st = do {
    n \<leftarrow> BCD_To_INT_10 (drop pos src) (prefix_size (p_format e));
    if wire_bytes i e (unat n) > p_max e
    then Some (False, pos + prefix_size (p_format e), set_len i (unat n) (zeroed i st))
    else do { d \<leftarrow> copy_at (pos + prefix_size (p_format e)) (wire_bytes i e (unat n)) src;
      st1 \<leftarrow> set_field i d (set_len i (wire_bytes i e (unat n)) (zeroed i st));
      Some (True, pos + prefix_size (p_format e) + wire_bytes i e (unat n), st1) } }"
proof -
  have p: "prefix_size (p_format e) = (if p_format e = LLVAR then 1 else 2)" using assms(2) by (cases "p_format e") simp_all
  show ?thesis unfolding p using assms by (cases "p_format e") (simp_all add: unpack_field_def set_zero Let_def del: One_nat_def)
qed

lemma wire_content:
  assumes "Packet_Table i = Some e" "p_format e \<noteq> FIXED"
  shows "wire_bytes i e (if p_format e = LLVAR then two_digits (byte_at src pos)
      else two_digits (byte_at src pos) * 100 + two_digits (byte_at src (pos + 1))) = content_bytes i e src pos"
  using assms table_facts(5) [OF assms(1)]
  by (cases "p_format e"; cases "p_type e") (auto simp: wire_bytes_def content_bytes_def Let_def)

lemma set_field_zeroed:
  assumes "length d < length (FIELD st i)"
  shows "set_field i d (set_len i n (zeroed i st)) = Some ((set_len i n st)\<lparr>FIELD := (FIELD st)(i := written d (FIELD st i))\<rparr>)"
    "set_field i d (zeroed i st) = Some (st\<lparr>FIELD := (FIELD st)(i := written d (FIELD st i))\<rparr>)"
  using assms by (simp_all add: set_field_some zeroed_def set_len_def written_def)

text \<open>One field: what it reads, and that nothing but its own buffer changes.\<close>

lemma unpack_field_exact:
  fixes pos :: nat and src :: bytes
  assumes "sized st" "Packet_Table i = Some e"
  defines "start \<equiv> pos + prefix_size (p_format e)" and "n \<equiv> content_bytes i e src pos"
  shows "case unpack_field src i pos st of None \<Rightarrow> length src < start + (if p_max e < n then 0 else n)
    | Some (go, pos', st') \<Rightarrow> start + (if p_max e < n then 0 else n) \<le> length src \<and> (go \<longleftrightarrow> n \<le> p_max e) \<and> pos' = start + (if go then n else 0)
        \<and> MTI_Code st' = MTI_Code st \<and> FIELD st' = (FIELD st)(i := written (take (if go then n else 0) (drop start src)) (FIELD st i))"
proof -
  note t = table_facts [OF assms(2)]
  have len: "p_max e < length (FIELD st i)" using assms(1,2) t(2) by (simp add: sized_def)
  then have nz: "0 < length (FIELD st i)" by linarith
  have w: "length (take m (drop start src)) < length (FIELD st i)" if "m \<le> p_max e" for m using len that by simp
  have z: "FIELD (zeroed i st) = (FIELD st)(i := written [] (FIELD st i))" "MTI_Code (zeroed i st) = MTI_Code st"
    by (simp_all add: zeroed_def written_def)
  have m: "MTI_Code (set_len i k s) = MTI_Code s" "FIELD (set_len i k s) = FIELD s" for k s by (simp_all add: set_len_def)
  show ?thesis
  proof (cases "p_format e = FIXED")
    case True
    then have n: "n = p_max e" "start = pos" by (simp_all add: n_def content_bytes_def start_def)
    show ?thesis using True assms(2) n w [of "p_max e"]
      by (auto simp: unpack_field_def set_zero [OF nz] set_field_zeroed copy_at_def)
  next
    case False
    note u = unpack_var [OF assms(2) False nz, of src pos, folded start_def]
    show ?thesis
    proof (cases "start \<le> length src")
      case True
      from bcd_prefix [OF True [unfolded start_def] False] obtain k where
        k: "BCD_To_INT_10 (drop pos src) (prefix_size (p_format e)) = Some k" "wire_bytes i e (unat k) = n"
        using wire_content [OF assms(2) False] by (metis n_def)
      show ?thesis
      proof (cases "p_max e < n")
        case tl: True
        then show ?thesis using True by (simp add: u k z m)
      next
        case False
        then show ?thesis using w [of n] by (auto simp: u k copy_at_def set_field_zeroed m)
      qed
    next
      case f: False
      have "length src - pos < prefix_size (p_format e)" "0 < prefix_size (p_format e)" using f False unfolding start_def
        by (cases "p_format e"; simp)+
      then have "BCD_To_INT_10 (drop pos src) (prefix_size (p_format e)) = None" by (simp add: BCD_To_INT_10_def copy_at_def)
      then show ?thesis using f by (simp add: u)
    qed
  qed
qed

lemma layout_fields: "layout data is pos = (fs, fin, reach) \<Longrightarrow> pos \<le> reach \<and> fst ` set fs \<subseteq> set is"
proof (induction "is" arbitrary: pos fs)
  case (Cons i "is")
  show ?case
  proof (cases "named data i \<and> Packet_Table i \<noteq> None")
    case True
    then obtain e where e: "Packet_Table i = Some e" by auto
    let ?start = "pos + prefix_size (p_format e)" and ?n = "content_bytes i e data pos"
    show ?thesis
    proof (cases "p_max e < ?n")
      case False
      obtain fs1 where r: "layout data is (?start + ?n) = (fs1, fin, reach)" "fs = (i, ?start, ?n) # fs1"
        using Cons.prems True e False by (auto simp: Let_def split: prod.splits)
      then show ?thesis using Cons.IH [OF r(1)] by auto
    qed (use Cons.prems True e in \<open>auto simp: Let_def\<close>)
  qed (use Cons in \<open>auto split: if_splits option.splits\<close>)
qed simp

text \<open>The loop follows the layout.\<close>

lemma unpack_fields_exact:
  assumes "sized st" "1 \<notin> set is" "distinct is" "\<forall>i \<in> set is. CheckBitMap (FIELD st 1) i \<noteq> 0 \<longleftrightarrow> named data i"
    and "pos \<le> length data" "layout data is pos = (fs, fin, reach)"
  shows "case unpack_fields data is pos st of None \<Rightarrow> fin = Undefined \<or> length data < reach
    | Some (ret, st') \<Rightarrow> reach \<le> length data \<and> (fin = Whole \<and> ret = 1 \<or> fin = Too_Long \<and> ret = PACKET_ERROR)
        \<and> MTI_Code st' = MTI_Code st \<and> FIELD st' = filled data fs (FIELD st)"
  using assms
proof (induction "is" arbitrary: pos st fs)
  case Nil
  then show ?case by (auto simp: filled_def)
next
  case (Cons i "is")
  note pr = Cons.prems
  show ?case
  proof (cases "named data i")
    case False
    then have "layout data is pos = (fs, fin, reach)" "unpack_fields data (i # is) pos st = unpack_fields data is pos st"
      using pr(4,6) by (simp_all del: One_nat_def)
    with Cons.IH [OF pr(1) _ _ _ pr(5)] pr(2-4) show ?thesis by (simp del: One_nat_def)
  next
    case nm: True
    then have b: "CheckBitMap (FIELD st 1) i \<noteq> 0" using pr(4) by (simp del: One_nat_def)
    show ?thesis
    proof (cases "Packet_Table i")
      case None
      then have "unpack_field data i pos st = None" by (simp add: unpack_field_def)
      then show ?thesis using None nm b pr(6) by (simp del: One_nat_def)
    next
      case (Some e)
      define start where "start = pos + prefix_size (p_format e)"
      define n where "n = content_bytes i e data pos"
      note x = unpack_field_exact [OF pr(1) Some, of data pos, folded start_def n_def]
      have i: "i \<noteq> 1" using pr(2) by auto
      show ?thesis
      proof (cases "p_max e < n")
        case True
        then have l: "fs = [(i, start, 0)]" "fin = Too_Long" "reach = start"
          using pr(6) nm Some by (auto simp: start_def n_def Let_def)
        show ?thesis using x b True l by (cases "unpack_field data i pos st") (auto simp: filled_def fun_eq_iff simp del: One_nat_def)
      next
        case False
        obtain fs1 where l: "layout data is (start + n) = (fs1, fin, reach)" "fs = (i, start, n) # fs1"
          using pr(6) nm Some False by (auto simp: start_def n_def Let_def split: prod.splits)
        note lf = layout_fields [OF l(1)]
        show ?thesis
        proof (cases "unpack_field data i pos st")
          case None
          then show ?thesis using x b False lf by (simp del: One_nat_def)
        next
          case (Some r)
          obtain st1 where r: "r = (True, start + n, st1)" "start + n \<le> length data" "MTI_Code st1 = MTI_Code st"
            "FIELD st1 = (FIELD st)(i := written (take n (drop start data)) (FIELD st i))"
            using x Some False by (cases r) auto
          have p: "n \<le> p_max e" "p_max e < length (FIELD st i)"
            using False pr(1) \<open>Packet_Table i = Some e\<close> table_facts(2) [OF \<open>Packet_Table i = Some e\<close>] by (simp_all add: sized_def)
          then have "length (written (take n (drop start data)) (FIELD st i)) = length (FIELD st i)" by (auto simp: written_def)
          then have s1: "sized st1" using pr(1) r(4) by (simp add: sized_def)
          have b1: "\<forall>j \<in> set is. CheckBitMap (FIELD st1 1) j \<noteq> 0 \<longleftrightarrow> named data j" using pr(4) i r(4) by (simp del: One_nat_def)
          have ds: "1 \<notin> set is" "distinct is" "i \<notin> set is" using pr(2,3) by auto
          have u: "unpack_fields data (i # is) pos st = unpack_fields data is (start + n) st1" using b Some r(1) by (simp del: One_nat_def)
          have "map_of fs1 i = None" using lf ds(3) by (auto simp: map_of_eq_None_iff)
          then have "filled data fs1 (FIELD st1) j = filled data fs (FIELD st) j" for j
            by (cases "j = i"; cases "map_of fs1 j") (auto simp: filled_def l(2) r(4))
          then have "filled data fs1 (FIELD st1) = filled data fs (FIELD st)" by (rule ext)
          then show ?thesis using Cons.IH [OF s1 ds(1,2) b1 r(2) l(1)] unfolding u r(3) by (simp only:)
        qed
      qed
    qed
  qed
qed

section \<open>The bits of each transaction\<close>

lemma setNoBit_cstr: "cstr (setNoBit v m) = map (\<lambda>c. if c = v then NO_BIT else c) (cstr m)"
proof -
  let ?m = "map (\<lambda>c. if c = v then NO_BIT else c) (cstr m)"
  have n: "no_nul ?m" using no_nul_cstr [of m] by (auto simp: no_nul_def list_all_iff NO_BIT_def)
  have "drop (strlen m) m = dropWhile (\<lambda>c. c \<noteq> 0) m"
    by (simp add: strlen_def cstr_def dropWhile_eq_drop)
  then consider "drop (strlen m) m = []" | r where "drop (strlen m) m = 0 # r"
    by (cases "dropWhile (\<lambda>c. c \<noteq> 0) m") (use hd_dropWhile [of "\<lambda>c. c \<noteq> (0 :: byte)" m] in force)+
  then show ?thesis unfolding setNoBit_def using n by cases (simp_all add: cstr_id cstr_term)
qed

lemma mask_set: "w \<noteq> NO_BIT \<Longrightarrow> w \<in> set (cstr (setNoBit v m)) \<longleftrightarrow> w \<in> set (cstr m) \<and> w \<noteq> v"
  by (auto simp: setNoBit_cstr)

lemma mask_if_set: "w \<noteq> NO_BIT \<Longrightarrow> w \<in> set (cstr (mask_if c v m)) \<longleftrightarrow> w \<in> set (cstr m) \<and> (c \<longrightarrow> w \<noteq> v)"
  by (simp add: mask_if_def mask_set)

lemma bit_list_setNoBit: "bit_list m \<Longrightarrow> bit_list (setNoBit v m)"
  by (auto simp: bit_list_def setNoBit_cstr list_all_iff)

lemma bit_list_mask_if: "bit_list m \<Longrightarrow> bit_list (mask_if c v m)"
  by (simp add: mask_if_def bit_list_setNoBit)

definition bset :: "bytes \<Rightarrow> nat set" where
  "bset m = unat ` (set (cstr m) - {NO_BIT})"

lemma inj_unat: "inj (unat :: byte \<Rightarrow> nat)"
  by (rule injI) (simp add: word_unat_eq_iff)

lemma bset_setNoBit: "v \<noteq> NO_BIT \<Longrightarrow> bset (setNoBit v m) = bset m - {unat v}"
proof -
  have "set (cstr (setNoBit v m)) - {NO_BIT} = set (cstr m) - {NO_BIT} - {v}"
    by (auto simp: setNoBit_cstr split: if_splits)
  then show "bset (setNoBit v m) = bset m - {unat v}"
    unfolding bset_def by (simp add: image_set_diff [OF inj_unat])
qed

lemma bset_mask_if: "v \<noteq> NO_BIT \<Longrightarrow> bset (mask_if c v m) = bset m - (if c then {unat v} else {})"
  by (simp add: mask_if_def bset_setNoBit)

lemma present_exchange:
  assumes "bit_list bits" "length (FIELD st 1) \<ge> 16" "0 < i" "i \<le> 128"
  shows "present (exchange mti bits st) i \<longleftrightarrow> i \<in> bset bits"
proof -
  have u: "unat (word_of_nat i :: byte) = i" using assms(4) by (simp add: unsigned_of_nat take_bit_nat_eq_self)
  have "unat NO_BIT = 130" by (simp add: NO_BIT_def)
  then have "(word_of_nat i :: byte) \<noteq> NO_BIT" using u assms(4) by auto
  then have "word_of_nat i \<in> set (cstr bits) - {NO_BIT} \<longleftrightarrow> word_of_nat i \<in> set (cstr bits)"
    by simp
  moreover have "i \<in> bset bits \<longleftrightarrow> word_of_nat i \<in> set (cstr bits) - {NO_BIT}"
    unfolding bset_def using inj_image_mem_iff [OF inj_unat, of "word_of_nat i"] u by simp
  ultimately have "i \<in> bset bits \<longleftrightarrow> word_of_nat i \<in> set (cstr bits)" by simp
  moreover have "present (exchange mti bits st) i \<longleftrightarrow> CheckBitMap (SetAllBitMap (FIELD st 1) bits) i \<noteq> 0"
    by (simp add: present_def exchange_def)
  ultimately show ?thesis using CheckBitMap_SetAll [OF assms] by simp
qed

lemma no_bit_numerals: "NO_BIT = 130" by (simp add: NO_BIT_def)

lemma bset_literal: "no_nul m \<Longrightarrow> list_all (\<lambda>b. b \<noteq> NO_BIT) m \<Longrightarrow> bset (m @ [0]) = unat ` set m"
proof -
  assume a: "no_nul m" "list_all (\<lambda>b. b \<noteq> NO_BIT) m"
  then have "set m - {NO_BIT} = set m" by (auto simp: list_all_iff)
  with a(1) show ?thesis by (simp add: bset_def cstr_term)
qed

lemma bset_payment:
  "bset [2, 3, 4, 11, 12, 13, 24, 34, 35, 36, 41, 45, 46, 48, 52, 53, 55, 61, 62, 63, 64, 0]
    = {2, 3, 4, 11, 12, 13, 24, 34, 35, 36, 41, 45, 46, 48, 52, 53, 55, 61, 62, 63, 64}"
  using bset_literal [of "[2, 3, 4, 11, 12, 13, 24, 34, 35, 36, 41, 45, 46, 48, 52, 53, 55, 61, 62, 63, 64]"]
  by (simp add: NO_BIT_def)

lemma bset_rev:
  "bset [2, 3, 4, 11, 12, 13, 24, 35, 36, 41, 48, 61, 62, 64, 0] = {2, 3, 4, 11, 12, 13, 24, 35, 36, 41, 48, 61, 62, 64}"
  using bset_literal [of "[2, 3, 4, 11, 12, 13, 24, 35, 36, 41, 48, 61, 62, 64]"] by (simp add: NO_BIT_def)

lemma bset_ack: "bset bits_ack = {2, 3, 4, 11, 12, 13, 24, 37, 41, 48, 61, 62, 63, 64}"
  using bset_literal [of "[2, 3, 4, 11, 12, 13, 24, 37, 41, 48, 61, 62, 63, 64]"] by (simp add: NO_BIT_def bits_ack_def)

lemma bset_logon: "bset [3, 11, 12, 13, 24, 41, 46, 53, 61, 62, 63, 64, 0] = {3, 11, 12, 13, 24, 41, 46, 53, 61, 62, 63, 64}"
  using bset_literal [of "[3, 11, 12, 13, 24, 41, 46, 53, 61, 62, 63, 64]"] by (simp add: NO_BIT_def)

lemma bset_inquiry:
  "bset bits_inquiry2 = {2, 3, 7, 11, 12, 13, 24, 35, 36, 41, 46, 48, 52, 53, 61, 62, 63, 64}"
  "bset [2, 3, 7, 11, 12, 13, 24, 41, 48, 61, 62, 63, 64, 0] = {2, 3, 7, 11, 12, 13, 24, 41, 48, 61, 62, 63, 64}"
  "bset [2, 3, 7, 11, 12, 13, 24, 41, 46, 48, 53, 61, 62, 64, 0] = {2, 3, 7, 11, 12, 13, 24, 41, 46, 48, 53, 61, 62, 64}"
  "bset [2, 3, 7, 11, 12, 13, 24, 41, 46, 48, 61, 62, 63, 64, 0] = {2, 3, 7, 11, 12, 13, 24, 41, 46, 48, 61, 62, 63, 64}"
  "bset [2, 3, 7, 11, 12, 13, 24, 41, 48, 61, 62, 64, 0] = {2, 3, 7, 11, 12, 13, 24, 41, 48, 61, 62, 64}"
  using bset_literal [of "[2, 3, 7, 11, 12, 13, 24, 35, 36, 41, 46, 48, 52, 53, 61, 62, 63, 64]"]
    bset_literal [of "[2, 3, 7, 11, 12, 13, 24, 41, 48, 61, 62, 63, 64]"]
    bset_literal [of "[2, 3, 7, 11, 12, 13, 24, 41, 46, 48, 53, 61, 62, 64]"]
    bset_literal [of "[2, 3, 7, 11, 12, 13, 24, 41, 46, 48, 61, 62, 63, 64]"]
    bset_literal [of "[2, 3, 7, 11, 12, 13, 24, 41, 48, 61, 62, 64]"]
  by (simp_all add: NO_BIT_def bits_inquiry2_def)

lemma bit_list_literal: "list_all (\<lambda>b. 0 < b \<and> b \<le> 128) m \<Longrightarrow> bit_list (m @ [0])"
proof -
  assume a: "list_all (\<lambda>b. 0 < b \<and> b \<le> 128) m"
  then have "no_nul m" by (auto simp: no_nul_def list_all_iff)
  with a show ?thesis by (auto simp: bit_list_def cstr_term list_all_iff)
qed

lemma bit_lists:
  "bit_list bits_ack" "bit_list (bits_rev g)" "bit_list (bits_logon g)" "bit_list (bits_payment g)" "bit_list (bits_inquiry g)"
proof -
  have L: "bit_list [2, 3, 4, 11, 12, 13, 24, 34, 35, 36, 41, 45, 46, 48, 52, 53, 55, 61, 62, 63, 64, 0]"
    "bit_list [2, 3, 4, 11, 12, 13, 24, 35, 36, 41, 48, 61, 62, 64, 0]"
    "bit_list [2, 3, 4, 11, 12, 13, 24, 37, 41, 48, 61, 62, 63, 64, 0]"
    "bit_list [3, 11, 12, 13, 24, 41, 46, 53, 61, 62, 63, 64, 0]"
    "bit_list [2, 3, 7, 11, 12, 13, 24, 35, 36, 41, 46, 48, 52, 53, 61, 62, 63, 64, 0]"
    "bit_list [2, 3, 7, 11, 12, 13, 24, 41, 48, 61, 62, 63, 64, 0]"
    "bit_list [2, 3, 7, 11, 12, 13, 24, 41, 46, 48, 53, 61, 62, 64, 0]"
    "bit_list [2, 3, 7, 11, 12, 13, 24, 41, 46, 48, 61, 62, 63, 64, 0]"
    "bit_list [2, 3, 7, 11, 12, 13, 24, 41, 48, 61, 62, 64, 0]"
    by code_simp+
  show "bit_list bits_ack" using L by (simp add: bits_ack_def)
  show "bit_list (bits_rev g)" using L by (simp add: bits_rev_def bit_list_mask_if)
  show "bit_list (bits_logon g)" using L by (simp add: bits_logon_def bit_list_mask_if)
  show "bit_list (bits_payment g)" using L
    by (simp add: bits_payment_def bit_list_mask_if bit_list_setNoBit Let_def)
  show "bit_list (bits_inquiry g)" using L
    by (simp add: bits_inquiry_def bits_inquiry2_def bit_list_mask_if bit_list_setNoBit Let_def)
qed

lemma sized_CPack: "sized CPack"
  by (auto simp: sized_def CPack_def)

lemma sized_exchange: "sized st \<Longrightarrow> bit_list bits \<Longrightarrow> sized (exchange mti bits st)"
proof -
  assume s: "sized st"
  have "length (foldl (\<lambda>m b. if b \<noteq> NO_BIT then SetBitMap b m else m) m bs) = length m" for m bs
    by (induction bs arbitrary: m) auto
  then have "length (SetAllBitMap m bits) = 16 + (length m - 16)" for m
    by (simp add: SetAllBitMap_def)
  with s show ?thesis by (auto simp: sized_def exchange_def Packet_Table_def Packet_List_def)
qed

section \<open>Samples\<close>

definition sample_pack :: pack where
  "sample_pack = (exchange [0x03, 0x50] bits_ack CPack)\<lparr>
     FIELD := (FIELD (exchange [0x03, 0x50] bits_ack CPack))
       (2 := [0x62, 0x12, 0x26, 0x40, 0x00, 0x12, 0x34, 0x56, 0x78, 0x90] @ replicate 13 0,
        62 := [0x30, 0x30, 0x30, 0x31, 0x32, 0x33, 0, 0, 0, 0]),
     Real_Length := (\<lambda>_. 0)(2 := 19, 62 := 6)\<rparr>"

definition sample_gbl :: gbl where
  "sample_gbl = \<lparr>card_no = [], card_no_len = 0, amount = [], stan_no = [], pos_no = [], fee_type = [0x31, 0x33, 0x31],
     phone_no = [], phone_len = 0, curworkid = [], pos_serial = [], password = [], track2 = [], track2_len = 37,
     track3 = [], track3_len = 0, xlt_card = [], random_num = [], key_num = 8, eny = False, psamNum = [], ip = [],
     bank = [], logon_random2 = []\<rparr>"

lemma sample_pack_ok:
  "sized sample_pack" "length (MTI_Code sample_pack) \<ge> 2" "\<forall>i\<in>{2..64}. present sample_pack i \<longrightarrow> sendable sample_pack i"
proof -
  have e: "sized (exchange [0x03, 0x50] bits_ack CPack)" by (rule sized_exchange [OF sized_CPack bit_lists(1)])
  then show "sized sample_pack"
    by (auto simp: sized_def sample_pack_def Packet_Table_def Packet_List_def)
  show "length (MTI_Code sample_pack) \<ge> 2" by (simp add: sample_pack_def exchange_def)
  have l1: "length (FIELD CPack 1) = 17" by (simp add: CPack_def Packet_Table_def Packet_List_def)
  show "\<forall>i\<in>{2..64}. present sample_pack i \<longrightarrow> sendable sample_pack i"
  proof (intro ballI impI)
    fix i :: nat
    assume i: "i \<in> {2..64}" and p: "present sample_pack i"
    have "present (exchange [0x03, 0x50] bits_ack CPack) i"
      using p by (simp add: present_def sample_pack_def del: One_nat_def)
    then have "i \<in> bset bits_ack"
      using present_exchange [OF bit_lists(1), of CPack i] l1 i unfolding atLeastAtMost_iff by simp
    then show "sendable sample_pack i"
      unfolding bset_ack by (auto simp: sendable_def send_bytes_def send_len_def alpha_def sample_pack_def
        Packet_Table_def Packet_List_def)
  qed
qed

section \<open>The properties\<close>

text \<open>C2: a packet of sendable fields unpacks, into any state, to the fields that were packed: the message type comes back, the bytes of every present field are at the start of its buffer (what the buffer held behind them stays, because only one byte is cleared first), and the absent fields are untouched.\<close>

theorem packet_roundtrip:
  assumes "sized st" "sized st'" "length (MTI_Code st) \<ge> 2" "\<forall>i\<in>{2..64}. present st i \<longrightarrow> sendable st i"
  shows "\<exists>p. packFunc st = Some p \<and> (\<forall>l r n. length l = 2 \<longrightarrow> (\<exists>st''. unpackFunc (l @ p @ r) n st' = Some (1, st'')
    \<and> MTI_Code st'' = take 2 (MTI_Code st) @ [0]
    \<and> (\<forall>i\<in>{2..64}. FIELD st'' i = (if present st i
         then content st i @ drop (length (content st i)) (FIELD st' i) else FIELD st' i))))"
proof -
  let ?bm = "take 8 (FIELD st 1)" and ?mti = "take 2 (MTI_Code st)"
  have l1: "length (FIELD st 1) = 17" "length (FIELD st' 1) = 17"
    using assms(1,2) by (auto simp: sized_def Packet_Table_def Packet_List_def)
  define st1 where "st1 = st'\<lparr>MTI_Code := ?mti @ [0], FIELD := (FIELD st')(1 := ?bm @ drop 8 (FIELD st' 1))\<rparr>"
  have sz: "sized st1" using assms(2) l1 by (auto simp: sized_def st1_def Packet_Table_def Packet_List_def)
  have bm: "CheckBitMap (FIELD st1 1) i = CheckBitMap (FIELD st 1) i" if "i \<in> set [2..<65]" for i
  proof (rule CheckBitMap_prefix)
    have "2 \<le> i" "i < 65" using that by (simp_all only: set_upt atLeastLessThan_iff)
    then show "0 < i" "i \<le> 64" by linarith+
  qed (simp add: st1_def l1 del: One_nat_def)
  have all: "\<forall>i\<in>set [2..<65]. (present st i \<longrightarrow> sendable st i) \<and> CheckBitMap (FIELD st1 1) i = CheckBitMap (FIELD st 1) i"
  proof
    fix i assume i: "i \<in> set [2..<65]"
    then have "i \<in> {2..64}" unfolding set_upt atLeastLessThan_iff atLeastAtMost_iff by linarith
    with assms(4) bm [OF i] show "(present st i \<longrightarrow> sendable st i) \<and> CheckBitMap (FIELD st1 1) i = CheckBitMap (FIELD st 1) i" by blast
  qed
  have one: "1 \<notin> set [2..<65 :: nat]" unfolding set_upt atLeastLessThan_iff by linarith
  obtain w where w: "pack_fields st [2..<65] = Some w"
    "\<And>a r. \<exists>st''. unpack_fields (a @ w @ r) [2..<65] (length a) st1 = Some (1, st'')
      \<and> MTI_Code st'' = MTI_Code st1 \<and> FIELD st'' = merged st [2..<65] st1"
    using loop_roundtrip [OF assms(1) sz distinct_upt one all] by blast
  have p: "packFunc st = Some (?mti @ ?bm @ w)" using l1 w(1) by (simp add: packFunc_def copy_at_def)
  have "\<exists>st''. unpackFunc (l @ (?mti @ ?bm @ w) @ r) n st' = Some (1, st'') \<and> MTI_Code st'' = ?mti @ [0]
      \<and> (\<forall>i\<in>{2..64}. FIELD st'' i = (if present st i
         then content st i @ drop (length (content st i)) (FIELD st' i) else FIELD st' i))"
    if l: "length l = 2" for l r n
  proof -
    have c: "copy_at 2 2 (l @ (?mti @ ?bm @ w) @ r) = Some ?mti" "copy_at 4 8 (l @ (?mti @ ?bm @ w) @ r) = Some ?bm"
      using copy_at_app [of 2 l 2 ?mti "?bm @ w @ r"] copy_at_app [of 4 "l @ ?mti" 8 ?bm "w @ r"] l l1 assms(3) by simp_all
    let ?src = "l @ (?mti @ ?bm @ w) @ r"
    have sf: "set_field 1 ?bm (st'\<lparr>MTI_Code := ?mti @ [0]\<rparr>) = Some st1"
      using l1 by (simp add: set_field_some st1_def)
    have "length (l @ ?mti @ ?bm) = 12" using l l1 assms(3) by simp
    then obtain st'' where u: "unpack_fields ?src [2..<65] 12 st1 = Some (1, st'')"
      "MTI_Code st'' = MTI_Code st1" "FIELD st'' = merged st [2..<65] st1"
      using w(2) [of "l @ ?mti @ ?bm" r] by (simp only: append_assoc) metis
    have "unpackFunc ?src n st' = Some (1, st'')"
      unfolding unpackFunc_def c sf Option.bind.bind_lunit by (rule u)
    moreover have "MTI_Code st'' = ?mti @ [0]" using u(2) by (simp add: st1_def)
    moreover have "FIELD st'' i = (if present st i
         then content st i @ drop (length (content st i)) (FIELD st' i) else FIELD st' i)" if "i \<in> {2..64}" for i
    proof -
      have "i \<in> set [2..<65]" "i \<noteq> 1"
        using that unfolding set_upt atLeastLessThan_iff atLeastAtMost_iff by linarith+
      then show ?thesis by (simp only: u(3) merged_def) (simp add: st1_def)
    qed
    ultimately show ?thesis by blast
  qed
  with p show ?thesis by blast
qed

theorem packet_roundtrip_witness:
  "\<exists>p. packFunc sample_pack = Some p \<and> (\<exists>st''. unpackFunc ([0, 60] @ p @ [0]) 0 CPack = Some (1, st'')
    \<and> MTI_Code st'' = [0x03, 0x50, 0])"
proof -
  have m: "take 2 (MTI_Code sample_pack) = [0x03, 0x50]" by (simp add: sample_pack_def exchange_def)
  from packet_roundtrip [OF sample_pack_ok(1) sized_CPack sample_pack_ok(2,3)] obtain p where
    p: "packFunc sample_pack = Some p"
    "\<And>l r n. length l = 2 \<Longrightarrow> \<exists>st''. unpackFunc (l @ p @ r) n CPack = Some (1, st'')
      \<and> MTI_Code st'' = take 2 (MTI_Code sample_pack) @ [0]" by blast
  with p(2) [of "[0, 60]" "[0]" 0] m show ?thesis by auto
qed

text \<open>C19: \<open>unpackFunc\<close> on any buffer of at least 12 bytes, with any bitmap and any length prefixes. It leaves
  the buffer, or follows the NULL pointer of a field the constructor did not define, exactly when the layout
  says so; otherwise it returns 1, or PACKET_ERROR at the first prefix that is larger than the field, the
  message type and each field of the layout hold the bytes of the buffer at their places, and every other
  field is as it was. The callers pass a buffer of 1025 bytes: the second packet of the witness is an answer
  of defined bits whose prefixes fit their fields and still lead behind it.\<close>

theorem unpack_exact:
  assumes "sized st" "12 \<le> length data" "layout data [2..<65] 12 = (fs, fin, reach)"
  shows "case unpackFunc data n st of None \<Rightarrow> fin = Undefined \<or> length data < reach
    | Some (ret, st') \<Rightarrow> reach \<le> length data \<and> (fin = Whole \<and> ret = 1 \<or> fin = Too_Long \<and> ret = PACKET_ERROR)
        \<and> MTI_Code st' = take 2 (drop 2 data) @ [0] \<and> (\<forall>j \<in> {2..64}. FIELD st' j = filled data fs (FIELD st) j)"
proof -
  let ?bm = "take 8 (drop 4 data)"
  define st1 where "st1 = st\<lparr>MTI_Code := take 2 (drop 2 data) @ [0], FIELD := (FIELD st)(1 := ?bm @ drop 8 (FIELD st 1))\<rparr>"
  have l1: "length (FIELD st 1) = 17" using assms(1) by (auto simp: sized_def Packet_Table_def Packet_List_def)
  have lb: "length ?bm = 8" using assms(2) by simp
  have c: "copy_at 2 2 data = Some (take 2 (drop 2 data))" "copy_at 4 8 data = Some ?bm" using assms(2) by (simp_all add: copy_at_def)
  have sf: "set_field 1 ?bm (st\<lparr>MTI_Code := take 2 (drop 2 data) @ [0]\<rparr>) = Some st1" using l1 lb by (simp add: set_field_some st1_def)
  have u: "unpackFunc data n st = unpack_fields data [2..<65] 12 st1" unfolding unpackFunc_def c sf Option.bind.bind_lunit ..
  have sz: "sized st1" using assms(1) l1 lb by (auto simp: sized_def st1_def Packet_Table_def Packet_List_def)
  have two: "2 \<le> i \<and> i < 65" if "i \<in> set [2..<65 :: nat]" for i using that by (simp_all only: set_upt atLeastLessThan_iff)
  have bm: "\<forall>i \<in> set [2..<65]. CheckBitMap (FIELD st1 1) i \<noteq> 0 \<longleftrightarrow> named data i"
  proof
    fix i assume "i \<in> set [2..<65 :: nat]"
    then have "(i - 1) div 8 < 8" using two [of i] by linarith
    then have "FIELD st1 1 ! ((i - 1) div 8) = data ! (4 + (i - 1) div 8)"
      using lb assms(2) by (simp add: st1_def nth_append del: One_nat_def)
    then show "CheckBitMap (FIELD st1 1) i \<noteq> 0 \<longleftrightarrow> named data i" unfolding CheckBitMap_bit named_def by (simp only:)
  qed
  have one: "1 \<notin> set [2..<65 :: nat]" using two [of 1] by fastforce
  have "FIELD st1 j = FIELD st j" if "j \<in> {2..64}" for j using that by (simp add: st1_def)
  then have "filled data fs (FIELD st1) j = filled data fs (FIELD st) j" if "j \<in> {2..64}" for j
    unfolding filled_def using that by (simp only:)
  moreover have "MTI_Code st1 = take 2 (drop 2 data) @ [0]" by (simp add: st1_def)
  ultimately show ?thesis unfolding u using unpack_fields_exact [OF sz one distinct_upt bm assms(2,3)]
    by (cases "unpack_fields data [2..<65] 12 st1") auto
qed

definition short_answer :: bytes where
  "short_answer = [0, 13, 2, 0, 0x20, 0, 0, 0, 0, 0, 0, 0, 1, 2, 3]"

text \<open>1024 bytes with the length 1022 in front, in the cleared buffer of 1025 that the callers pass.\<close>

definition long_answer :: bytes where
  "long_answer = [0x10, 0x22, 2, 0, 0, 0, 0, 0, 0, 4, 0, 0x10] @ replicate 1012 9 @ [0]"

theorem unpack_exact_witness:
  "(\<exists>st'. unpackFunc short_answer 15 CPack = Some (1, st') \<and> FIELD st' 3 = [1, 2, 3, 0])
    \<and> length long_answer = 1025 \<and> unpackFunc long_answer 1024 CPack = None"
proof -
  have 1: "layout short_answer [2..<65] 12 = ([(3, 12, 3)], Whole, 15)" by code_simp
  have 2: "layout long_answer [2..<65] 12 = ([(46, 14, 909), (60, 925, 909)], Whole, 1834)" by code_simp
  have "FIELD CPack 3 = [0, 0, 0, 0]" by code_simp
  then have f: "filled short_answer [(3, 12, 3)] (FIELD CPack) 3 = [1, 2, 3, 0]" by (simp add: filled_def written_def short_answer_def)
  have l: "length short_answer = 15" "length long_answer = 1025" by (simp_all add: short_answer_def long_answer_def)
  show ?thesis
    using unpack_exact [OF sized_CPack _ 1, of 15] unpack_exact [OF sized_CPack _ 2, of 1024] l f
    by (auto split: option.splits)
qed

text \<open>C31: exactly the fields a payment request sends, for every combination of terminal flags: the mandatory ones, the tracks that were read, and fields 45, 46, 53 and 55 as the key data and the fee type decide.\<close>

theorem payment_bits:
  assumes "sized st" "0 < i" "i \<le> 64"
  shows "present (Exchange_PAYMENT g st) i \<longleftrightarrow>
     i \<in> {2, 3, 4, 11, 12, 13, 24, 34, 41, 48, 52, 61, 62, 63, 64}
     \<or> i = 35 \<and> track2_len g \<noteq> 0 \<or> i = 36 \<and> track3_len g \<noteq> 0
     \<or> i = 53 \<and> eny g
     \<or> i = 45 \<and> \<not> eny g \<and> key_num g = 8 \<and> fee g \<notin> {184, 224, 225, 250}
     \<or> i = 46 \<and> (eny g \<or> key_num g = 8 \<or> fee g \<in> {184, 224, 225, 177, 170, 211, 214})
     \<or> i = 55 \<and> fee g \<in> {131, 176}"
    (is "_ \<longleftrightarrow> ?rhs")
proof -
  have l1: "length (FIELD st 1) = 17" using assms(1) by (auto simp: sized_def Packet_Table_def Packet_List_def)
  have p: "present (Exchange_PAYMENT g st) i \<longleftrightarrow> i \<in> bset (bits_payment g)"
    unfolding Exchange_PAYMENT_def by (rule present_exchange [OF bit_lists(4)]) (use assms l1 in \<open>simp_all del: One_nat_def\<close>)
  have nb: "(53::byte) \<noteq> NO_BIT" "(45::byte) \<noteq> NO_BIT" "(46::byte) \<noteq> NO_BIT" "(35::byte) \<noteq> NO_BIT"
    "(36::byte) \<noteq> NO_BIT" "(55::byte) \<noteq> NO_BIT" by (simp_all add: NO_BIT_def)
  have "i \<in> bset (bits_payment g) \<longleftrightarrow>
      i \<in> bset [2, 3, 4, 11, 12, 13, 24, 34, 35, 36, 41, 45, 46, 48, 52, 53, 55, 61, 62, 63, 64, 0]
      \<and> (track2_len g = 0 \<longrightarrow> i \<noteq> 35) \<and> (track3_len g = 0 \<longrightarrow> i \<noteq> 36) \<and> (\<not> eny g \<longrightarrow> i \<noteq> 53)
      \<and> (eny g \<or> key_num g \<noteq> 8 \<or> fee g \<in> {184, 224, 225, 250} \<longrightarrow> i \<noteq> 45)
      \<and> (\<not> eny g \<and> key_num g \<noteq> 8 \<and> fee g \<notin> {184, 224, 225, 177, 170, 211, 214} \<longrightarrow> i \<noteq> 46)
      \<and> (fee g \<notin> {131, 176} \<longrightarrow> i \<noteq> 55)"
    unfolding bits_payment_def Let_def
    by (cases "eny g"; cases "key_num g = 8"; simp add: bset_mask_if bset_setNoBit nb; blast)
  also have "\<dots> \<longleftrightarrow> ?rhs"
    unfolding bset_payment
    by (cases "i = 35"; cases "i = 36"; cases "i = 53"; cases "i = 45"; cases "i = 46"; cases "i = 55"; simp; blast?)
  finally show ?thesis using p by simp
qed

theorem payment_bits_witness:
  "present (Exchange_PAYMENT sample_gbl CPack) 35 \<and> present (Exchange_PAYMENT sample_gbl CPack) 55
    \<and> \<not> present (Exchange_PAYMENT sample_gbl CPack) 36"
proof -
  have f: "fee sample_gbl = 131" by code_simp
  have "track2_len sample_gbl = 37" "track3_len sample_gbl = 0" by (simp_all add: sample_gbl_def)
  then show ?thesis
    using payment_bits [OF sized_CPack, of 35 sample_gbl] payment_bits [OF sized_CPack, of 55 sample_gbl]
      payment_bits [OF sized_CPack, of 36 sample_gbl] f by simp
qed

lemma bits_of_exchange:
  assumes "sized st" "0 < i" "i \<le> 64"
  shows "present (Exchange_ACK g st) i \<longleftrightarrow> i \<in> {2, 3, 4, 11, 12, 13, 24, 37, 41, 48, 61, 62, 63, 64}"
    and "present (Exchange_REV g st) i \<longleftrightarrow> i \<in> {2, 3, 4, 11, 12, 13, 24, 41, 48, 61, 62, 64}
      \<or> i = 35 \<and> track2_len g \<noteq> 0 \<or> i = 36 \<and> track3_len g \<noteq> 0"
    and "present (Exchange_LOGON g st) i \<longleftrightarrow> i \<in> {3, 11, 12, 13, 24, 41, 46, 61, 62, 64} \<or> i \<in> {53, 63} \<and> eny g"
proof -
  have l1: "length (FIELD st 1) = 17" using assms(1) by (auto simp: sized_def Packet_Table_def Packet_List_def)
  have p: "present (Exchange_ACK g st) i \<longleftrightarrow> i \<in> bset bits_ack"
    "present (Exchange_REV g st) i \<longleftrightarrow> i \<in> bset (bits_rev g)"
    "present (Exchange_LOGON g st) i \<longleftrightarrow> i \<in> bset (bits_logon g)"
    unfolding Exchange_ACK_def Exchange_REV_def Exchange_LOGON_def
    by (rule present_exchange [OF bit_lists(1)] present_exchange [OF bit_lists(2)] present_exchange [OF bit_lists(3)];
      use assms l1 in \<open>simp del: One_nat_def\<close>)+
  have nb: "(53::byte) \<noteq> NO_BIT" "(63::byte) \<noteq> NO_BIT" "(35::byte) \<noteq> NO_BIT"
    "(36::byte) \<noteq> NO_BIT" by (simp_all add: NO_BIT_def)
  show "present (Exchange_ACK g st) i \<longleftrightarrow> i \<in> {2, 3, 4, 11, 12, 13, 24, 37, 41, 48, 61, 62, 63, 64}"
    using p(1) by (simp add: bset_ack)
  show "present (Exchange_REV g st) i \<longleftrightarrow> i \<in> {2, 3, 4, 11, 12, 13, 24, 41, 48, 61, 62, 64}
      \<or> i = 35 \<and> track2_len g \<noteq> 0 \<or> i = 36 \<and> track3_len g \<noteq> 0"
    using p(2) nb by (auto simp add: bits_rev_def bset_mask_if bset_rev split: if_splits)
  show "present (Exchange_LOGON g st) i \<longleftrightarrow> i \<in> {3, 11, 12, 13, 24, 41, 46, 61, 62, 64} \<or> i \<in> {53, 63} \<and> eny g"
    using p(3) nb by (auto simp add: bits_logon_def bset_mask_if bset_logon split: if_splits)
qed

text \<open>exactly the fields an acknowledgement, a reversal and a sign-on send.\<close>

theorem exchange_bits:
  assumes "sized st" "0 < i" "i \<le> 64"
  shows "(present (Exchange_ACK g st) i \<longleftrightarrow> i \<in> {2, 3, 4, 11, 12, 13, 24, 37, 41, 48, 61, 62, 63, 64})
    \<and> (present (Exchange_REV g st) i \<longleftrightarrow> i \<in> {2, 3, 4, 11, 12, 13, 24, 41, 48, 61, 62, 64}
      \<or> i = 35 \<and> track2_len g \<noteq> 0 \<or> i = 36 \<and> track3_len g \<noteq> 0)
    \<and> (present (Exchange_LOGON g st) i \<longleftrightarrow> i \<in> {3, 11, 12, 13, 24, 41, 46, 61, 62, 64} \<or> i \<in> {53, 63} \<and> eny g)"
  by (intro conjI bits_of_exchange assms)


end
