(* ===== verification/Queue.thy ===== *)
theory Queue
  imports Prelude
begin

text \<open>
  The message queue of \<open>src/ssmapp.../Queue.cpp\<close> (class \<open>CQueue\<close>), which connects the dialogs, the
  transaction thread and the log. The linked list is modelled on a heap: addresses are numbers, \<open>new\<close>
  gives an address as an argument of \<open>AddTail\<close> (\<open>None\<close> is the NULL pointer), \<open>delete\<close> makes it
  invalid, and a step that follows an invalid pointer is \<open>None\<close>. The counters are 32-bit words. The
  contract is the locale \<open>fifo\<close>; the operations with their two locks, one step at a time, are in
  \<open>QueueThreads\<close>.
\<close>

section \<open>The contract of a bounded queue\<close>

text \<open>A trace of operations and what each reports.\<close>

datatype ('a, 'x) qop = Add 'a 'x | Get

datatype 'x qres = Added bool | Got "'x option"

fun spec_run :: "nat \<Rightarrow> ('a, 'x) qop list \<Rightarrow> 'x list \<Rightarrow> 'x qres list \<times> 'x list" where
  "spec_run cap [] xs = ([], xs)"
| "spec_run cap (Add a x # ops) xs =
     (if length xs < cap then (let (rs, ys) = spec_run cap ops (xs @ [x]) in (Added True # rs, ys))
      else (let (rs, ys) = spec_run cap ops xs in (Added False # rs, ys)))"
| "spec_run cap (Get # ops) [] = (let (rs, ys) = spec_run cap ops [] in (Got None # rs, ys))"
| "spec_run cap (Get # ops) (x # xs) = (let (rs, ys) = spec_run cap ops xs in (Got (Some x) # rs, ys))"

text \<open>The same trace on an implementation, and the condition that every address \<open>new\<close> returns along
  it is one that is not in use.\<close>

fun run_ops :: "('a \<Rightarrow> 'x \<Rightarrow> 'q \<Rightarrow> (bool \<times> 'q) option) \<Rightarrow> ('q \<Rightarrow> ('x option \<times> 'q) option)
    \<Rightarrow> ('a, 'x) qop list \<Rightarrow> 'q \<Rightarrow> ('x qres list \<times> 'q) option" where
  "run_ops enq deq [] q = Some ([], q)"
| "run_ops enq deq (Add a x # ops) q = do {
     (b, q1) \<leftarrow> enq a x q; (rs, q2) \<leftarrow> run_ops enq deq ops q1; Some (Added b # rs, q2) }"
| "run_ops enq deq (Get # ops) q = do {
     (r, q1) \<leftarrow> deq q; (rs, q2) \<leftarrow> run_ops enq deq ops q1; Some (Got r # rs, q2) }"

fun allocs_ok :: "('q \<Rightarrow> 'a \<Rightarrow> bool) \<Rightarrow> ('a \<Rightarrow> 'x \<Rightarrow> 'q \<Rightarrow> (bool \<times> 'q) option) \<Rightarrow> ('q \<Rightarrow> ('x option \<times> 'q) option)
    \<Rightarrow> ('a, 'x) qop list \<Rightarrow> 'q \<Rightarrow> bool" where
  "allocs_ok fresh enq deq [] q \<longleftrightarrow> True"
| "allocs_ok fresh enq deq (Add a x # ops) q \<longleftrightarrow> fresh q a
     \<and> (case enq a x q of None \<Rightarrow> True | Some (b, q1) \<Rightarrow> allocs_ok fresh enq deq ops q1)"
| "allocs_ok fresh enq deq (Get # ops) q \<longleftrightarrow>
     (case deq q of None \<Rightarrow> True | Some (r, q1) \<Rightarrow> allocs_ok fresh enq deq ops q1)"

text \<open>What went in and what came out.\<close>

fun accepted :: "('a, 'x) qop list \<Rightarrow> 'x qres list \<Rightarrow> 'x list" where
  "accepted (Add a x # ops) (Added True # rs) = x # accepted ops rs"
| "accepted (_ # ops) (_ # rs) = accepted ops rs"
| "accepted _ _ = []"

fun delivered :: "'x qres list \<Rightarrow> 'x list" where
  "delivered [] = []"
| "delivered (Got (Some x) # rs) = x # delivered rs"
| "delivered (_ # rs) = delivered rs"

lemma spec_run_fifo:
  "spec_run cap ops xs = (rs, ys) \<Longrightarrow> xs @ accepted ops rs = delivered rs @ ys"
  by (induction cap ops xs arbitrary: rs ys rule: spec_run.induct)
    (auto split: prod.splits if_splits)

lemma spec_run_cap:
  "length xs \<le> cap \<Longrightarrow> length (snd (spec_run cap ops xs)) \<le> cap"
  by (induction cap ops xs rule: spec_run.induct) (auto split: prod.splits)

locale fifo =
  fixes rep :: "'q \<Rightarrow> 'x list \<Rightarrow> bool"
    and fresh :: "'q \<Rightarrow> 'a \<Rightarrow> bool"
    and enq :: "'a \<Rightarrow> 'x \<Rightarrow> 'q \<Rightarrow> (bool \<times> 'q) option"
    and deq :: "'q \<Rightarrow> ('x option \<times> 'q) option"
    and cap :: nat
  assumes enq_room: "rep q xs \<Longrightarrow> fresh q a \<Longrightarrow> length xs < cap \<Longrightarrow>
      \<exists>q'. enq a x q = Some (True, q') \<and> rep q' (xs @ [x])"
    and enq_full: "rep q xs \<Longrightarrow> fresh q a \<Longrightarrow> cap \<le> length xs \<Longrightarrow>
      \<exists>q'. enq a x q = Some (False, q') \<and> rep q' xs"
    and deq_nil: "rep q [] \<Longrightarrow> deq q = Some (None, q)"
    and deq_cons: "rep q (x # xs) \<Longrightarrow> \<exists>q'. deq q = Some (Some x, q') \<and> rep q' xs"
begin

lemma run_spec:
  "rep q xs \<Longrightarrow> allocs_ok fresh enq deq ops q \<Longrightarrow>
    \<exists>q'. run_ops enq deq ops q = Some (fst (spec_run cap ops xs), q') \<and> rep q' (snd (spec_run cap ops xs))"
proof (induction ops arbitrary: q xs)
  case (Cons op ops)
  show ?case
  proof (cases op)
    case (Add a x)
    with Cons.prems have f: "fresh q a" by simp
    show ?thesis
    proof (cases "length xs < cap")
      case True
      with enq_room [OF Cons.prems(1) f] obtain q1 where "enq a x q = Some (True, q1)" "rep q1 (xs @ [x])" by blast
      with Cons.IH [of q1 "xs @ [x]"] Cons.prems True Add show ?thesis by (auto split: prod.splits)
    next
      case False
      with enq_full [OF Cons.prems(1) f] obtain q1 where "enq a x q = Some (False, q1)" "rep q1 xs" by force
      with Cons.IH [of q1 xs] Cons.prems False Add show ?thesis by (auto split: prod.splits)
    qed
  next
    case Get
    show ?thesis
    proof (cases xs)
      case Nil
      with Cons.prems deq_nil [of q] have "deq q = Some (None, q)" by simp
      with Cons.IH [of q "[]"] Cons.prems Get Nil show ?thesis by (auto split: prod.splits)
    next
      case (Cons x ys)
      with deq_cons [of q x ys] Cons.prems obtain q1 where "deq q = Some (Some x, q1)" "rep q1 ys" by blast
      with Cons.IH [of q1 ys] Cons.prems Get Cons show ?thesis by (auto split: prod.splits)
    qed
  qed
qed simp

text \<open>First in, first out, and never more than the capacity.\<close>

lemma run_fifo:
  assumes "rep q xs" "allocs_ok fresh enq deq ops q"
  shows "\<exists>rs q' ys. run_ops enq deq ops q = Some (rs, q') \<and> rep q' ys \<and> xs @ accepted ops rs = delivered rs @ ys"
  using run_spec [OF assms] spec_run_fifo [of cap ops xs] by (metis prod.collapse)

end

section \<open>The linked list\<close>

record node =
  csData1 :: bytes
  csData2 :: bytes
  iData3 :: "32 word"
  next_node :: "nat option"

record cqueue =
  heap :: "nat \<Rightarrow> node option"
  pHead :: "nat option"
  pTail :: "nat option"
  m_iProcessNum :: "32 word"
  m_iRecvNum :: "32 word"

type_synonym msg = "bytes \<times> bytes \<times> 32 word"

definition MAX_QUEUE_SIZE :: "32 word" where "MAX_QUEUE_SIZE = 1000"

definition CQueue :: cqueue where
  "CQueue = \<lparr>heap = (\<lambda>_. None), pHead = None, pTail = None, m_iProcessNum = 0, m_iRecvNum = 0\<rparr>"

definition payload :: "node \<Rightarrow> msg" where
  "payload n = (csData1 n, csData2 n, iData3 n)"

definition new_node :: node where
  "new_node = \<lparr>csData1 = [], csData2 = [], iData3 = 0, next_node = None\<rparr>"

definition GetHead :: "cqueue \<Rightarrow> (msg option \<times> cqueue) option" where
  "GetHead q = (case pHead q of
       None \<Rightarrow> Some (None, q)
     | Some p \<Rightarrow> do {
         n \<leftarrow> heap q p;
         Some (Some (payload n), q\<lparr>m_iProcessNum := m_iProcessNum q + 1, pHead := next_node n,
           heap := (heap q)(p := None)\<rparr>) })"

text \<open>A full queue returns after \<open>new\<close>, so its node stays allocated.\<close>

definition AddTail :: "nat option \<Rightarrow> msg \<Rightarrow> cqueue \<Rightarrow> (bool \<times> cqueue) option" where
  "AddTail a x q = (case a of
       None \<Rightarrow> Some (False, q)
     | Some p \<Rightarrow>
       (let h = (heap q)(p \<mapsto> new_node);
            n = (case x of (d1, d2, d3) \<Rightarrow> \<lparr>csData1 = d1, csData2 = d2, iData3 = d3, next_node = None\<rparr>) in
        if MAX_QUEUE_SIZE \<le> m_iRecvNum q - m_iProcessNum q then Some (False, q\<lparr>heap := h\<rparr>)
        else
          (let q1 = q\<lparr>heap := h, m_iRecvNum := m_iRecvNum q + 1\<rparr> in
           case pHead q of
             None \<Rightarrow>
               (let q2 = (if m_iRecvNum q1 > 1000000 then q1\<lparr>m_iRecvNum := 1, m_iProcessNum := 0\<rparr> else q1) in
                Some (True, q2\<lparr>heap := h(p \<mapsto> n), pTail := Some p, pHead := Some p\<rparr>))
           | Some _ \<Rightarrow> do {
               t \<leftarrow> pTail q;
               tn \<leftarrow> h t;
               Some (True, q1\<lparr>heap := h(t \<mapsto> tn\<lparr>next_node := Some p\<rparr>, p \<mapsto> n), pTail := Some p\<rparr>) })))"

definition IsEmpty :: "cqueue \<Rightarrow> bool" where
  "IsEmpty q \<longleftrightarrow> pHead q = None"

text \<open>The destructor takes elements off until none is left.\<close>

partial_function (option) destroy :: "cqueue \<Rightarrow> cqueue option" where
  "destroy q = do {
     (r, q1) \<leftarrow> GetHead q;
     if r = None then Some (q1\<lparr>pHead := None, pTail := None\<rparr>) else destroy q1 }"

section \<open>The list a state stands for\<close>

fun chain :: "(nat \<Rightarrow> node option) \<Rightarrow> nat option \<Rightarrow> nat list \<Rightarrow> msg list \<Rightarrow> bool" where
  "chain h p [] [] \<longleftrightarrow> p = None"
| "chain h p (a # as) (x # xs) \<longleftrightarrow> p = Some a \<and> (\<exists>n. h a = Some n \<and> payload n = x \<and> chain h (next_node n) as xs)"
| "chain h p _ _ \<longleftrightarrow> False"

definition holds :: "cqueue \<Rightarrow> nat list \<Rightarrow> msg list \<Rightarrow> bool" where
  "holds q as xs \<longleftrightarrow> chain (heap q) (pHead q) as xs \<and> distinct as
     \<and> length as = unat (m_iRecvNum q - m_iProcessNum q) \<and> (as \<noteq> [] \<longrightarrow> pTail q = Some (last as))
     \<and> length as \<le> 1000"

definition queue_rep :: "cqueue \<Rightarrow> msg list \<Rightarrow> bool" where
  "queue_rep q xs \<longleftrightarrow> (\<exists>as. holds q as xs)"

definition unused :: "cqueue \<Rightarrow> nat option \<Rightarrow> bool" where
  "unused q a \<longleftrightarrow> (case a of None \<Rightarrow> False | Some p \<Rightarrow> heap q p = None)"

lemma chain_length: "chain h p as xs \<Longrightarrow> length as = length xs"
  by (induction h p as xs rule: chain.induct) auto

lemma chain_alloc: "chain h p as xs \<Longrightarrow> a \<in> set as \<Longrightarrow> h a \<noteq> None"
  by (induction h p as xs rule: chain.induct) auto

lemma chain_cong: "chain h p as xs \<Longrightarrow> \<forall>a\<in>set as. h' a = h a \<Longrightarrow> chain h' p as xs"
  by (induction h p as xs rule: chain.induct) auto

lemma chain_upd: "chain h p as xs \<Longrightarrow> a \<notin> set as \<Longrightarrow> chain (h(a := v)) p as xs"
  by (erule chain_cong) auto

text \<open>Linking a node behind the last one.\<close>

lemma chain_snoc:
  "chain h p as xs \<Longrightarrow> distinct as \<Longrightarrow> as \<noteq> [] \<Longrightarrow> b \<notin> set as \<Longrightarrow> h (last as) = Some tn \<Longrightarrow> next_node n = None \<Longrightarrow>
    chain (h(last as \<mapsto> tn\<lparr>next_node := Some b\<rparr>, b \<mapsto> n)) p (as @ [b]) (xs @ [payload n])"
proof (induction h p as xs rule: chain.induct)
  case (2 h p a as x xs)
  show ?case
  proof (cases "as = []")
    case True
    with 2 show ?thesis by (cases xs) (auto simp: payload_def)
  next
    case False
    with 2 obtain m where m: "h a = Some m" "payload m = x" "chain h (next_node m) as xs" "p = Some a" by auto
    have "last as \<in> set as" using False by simp
    then have "a \<noteq> last as" "a \<noteq> b" using 2 by auto
    with 2 m False show ?thesis by auto
  qed
qed auto

section \<open>The list implements the contract\<close>

lemma holds_CQueue: "holds CQueue [] []"
  by (simp add: holds_def CQueue_def)

lemma word_succ_diff: "unat (r - p) < 1000 \<Longrightarrow> unat (r + 1 - p) = Suc (unat (r - p))" for r p :: "32 word"
proof -
  assume a: "unat (r - p) < 1000"
  have e: "r + 1 - p = (r - p) + 1" by simp
  have "unat ((r - p) + 1) = Suc (unat (r - p))"
    using a by (simp add: unat_word_ariths)
  then show ?thesis by (simp only: e)
qed

lemma word_pred_diff: "0 < unat (r - p) \<Longrightarrow> Suc (unat (r - (p + 1))) = unat (r - p)" for r p :: "32 word"
proof -
  assume a: "0 < unat (r - p)"
  have e: "r - (p + 1) = (r - p) - 1" by simp
  have "r - p \<noteq> 0" using a by auto
  from unat_minus_one [OF this] show ?thesis unfolding e using a by linarith
qed

lemma chain_nil [simp]: "chain h p as [] \<longleftrightarrow> as = [] \<and> p = None"
  by (cases as) auto

lemma GetHead_nil: "queue_rep q [] \<Longrightarrow> GetHead q = Some (None, q)"
  by (auto simp: queue_rep_def holds_def GetHead_def)

lemma chain_cons: "chain h p as (x # xs) \<Longrightarrow>
    \<exists>a bs n. as = a # bs \<and> p = Some a \<and> h a = Some n \<and> payload n = x \<and> chain h (next_node n) bs xs"
  by (cases as) auto

lemma GetHead_cons:
  assumes "holds q as (x # xs)"
  shows "\<exists>q'. GetHead q = Some (Some x, q') \<and> holds q' (tl as) xs"
proof -
  from assms obtain a bs n where c: "as = a # bs" "pHead q = Some a" "heap q a = Some n" "payload n = x"
    "chain (heap q) (next_node n) bs xs" by (auto simp: holds_def dest: chain_cons)
  have "Suc (unat (m_iRecvNum q - (m_iProcessNum q + 1))) = unat (m_iRecvNum q - m_iProcessNum q)"
    using assms c by (intro word_pred_diff) (simp add: holds_def)
  with assms c show ?thesis
    by (auto simp: holds_def GetHead_def chain_upd diff_diff_eq)
qed

lemma max_size: "MAX_QUEUE_SIZE \<le> w \<longleftrightarrow> 1000 \<le> unat w"
  by (simp add: MAX_QUEUE_SIZE_def word_le_nat_alt)

lemma AddTail_full:
  assumes "holds q as xs" "unused q a" "1000 \<le> length xs"
  shows "\<exists>q'. AddTail a x q = Some (False, q') \<and> holds q' as xs"
proof -
  from assms obtain p where p: "a = Some p" "heap q p = None" by (auto simp: unused_def split: option.splits)
  have "length as = length xs" using assms(1) by (auto simp: holds_def dest: chain_length)
  moreover have "p \<notin> set as" using assms(1) p(2) by (auto simp: holds_def dest: chain_alloc)
  ultimately show ?thesis using assms p
    by (auto simp: AddTail_def Let_def max_size holds_def chain_upd)
qed

lemma AddTail_room:
  assumes "holds q as xs" "unused q (Some p)" "length xs < 1000"
  shows "\<exists>q'. AddTail (Some p) x q = Some (True, q') \<and> holds q' (as @ [p]) (xs @ [x])"
proof -
  let ?d = "m_iRecvNum q - m_iProcessNum q"
  have l: "length as = length xs" "unat ?d = length xs" using assms(1) by (auto simp: holds_def dest: chain_length)
  have np: "p \<notin> set as" using assms(1,2) by (auto simp: holds_def unused_def dest: chain_alloc)
  have room: "\<not> MAX_QUEUE_SIZE \<le> ?d" using l assms(3) by (simp add: max_size)
  have cnt: "unat (m_iRecvNum q + 1 - m_iProcessNum q) = Suc (length xs)"
    using word_succ_diff [of "m_iRecvNum q" "m_iProcessNum q"] l assms(3) by simp
  define n where "n = (case x of (d1, d2, d3) \<Rightarrow> \<lparr>csData1 = d1, csData2 = d2, iData3 = d3, next_node = None\<rparr>)"
  have n: "payload n = x" "next_node n = None" by (auto simp: n_def payload_def split: prod.splits)
  show ?thesis
  proof (cases as)
    case Nil
    then have "xs = []" "pHead q = None" using assms(1) l by (auto simp: holds_def)
    with Nil n room cnt assms(3) show ?thesis
      by (auto simp: AddTail_def Let_def holds_def n_def [symmetric])
  next
    case (Cons b bs)
    then have ne: "as \<noteq> []" by simp
    define t where "t = last as"
    have t: "t \<in> set as" "pTail q = Some t" "pHead q = Some b" "t \<noteq> p"
      using assms(1) Cons np by (auto simp: holds_def t_def) (cases xs; simp)
    obtain tn where tn: "heap q t = Some tn" using assms(1) t(1) by (auto simp: holds_def dest: chain_alloc)
    let ?h = "(heap q)(p \<mapsto> new_node)"
    have "chain ?h (pHead q) as xs" using assms(1) np by (simp add: holds_def chain_upd)
    from chain_snoc [OF this _ _ np _ n(2), of tn] have
      "chain (?h(t \<mapsto> tn\<lparr>next_node := Some p\<rparr>, p \<mapsto> n)) (pHead q) (as @ [p]) (xs @ [payload n])"
      using assms(1) ne tn t(4) by (simp add: holds_def t_def [symmetric])
    with n t tn room cnt np assms l show ?thesis
      by (auto simp: AddTail_def Let_def holds_def n_def [symmetric])
  qed
qed

interpretation cq: fifo queue_rep unused AddTail GetHead 1000
proof
  fix q :: cqueue and xs a x
  assume r: "queue_rep q xs" and u: "unused q a"
  from u obtain p where p: "a = Some p" by (auto simp: unused_def split: option.splits)
  { assume "length xs < 1000" with r u p AddTail_room show "\<exists>q'. AddTail a x q = Some (True, q') \<and> queue_rep q' (xs @ [x])"
      unfolding queue_rep_def by metis }
  { assume "1000 \<le> length xs" with r u AddTail_full show "\<exists>q'. AddTail a x q = Some (False, q') \<and> queue_rep q' xs"
      unfolding queue_rep_def by metis }
next
  fix q :: cqueue
  assume "queue_rep q []" then show "GetHead q = Some (None, q)" by (rule GetHead_nil)
next
  fix q :: cqueue and x xs
  assume "queue_rep q (x # xs)"
  then show "\<exists>q'. GetHead q = Some (Some x, q') \<and> queue_rep q' xs"
    unfolding queue_rep_def using GetHead_cons by metis
qed

section \<open>What stays allocated\<close>

lemma destroy_holds:
  "holds q as xs \<Longrightarrow> \<exists>q'. destroy q = Some q' \<and> pHead q' = None \<and> pTail q' = None
    \<and> (\<forall>a. heap q' a = (if a \<in> set as then None else heap q a))"
proof (induction xs arbitrary: q as)
  case Nil
  then have "GetHead q = Some (None, q)" by (auto simp: holds_def GetHead_def)
  with Nil show ?case by (subst destroy.simps) (auto simp: holds_def)
next
  case (Cons x xs)
  from Cons.prems obtain a bs where c: "as = a # bs" "pHead q = Some a" by (auto simp: holds_def dest: chain_cons)
  from GetHead_cons [OF Cons.prems] obtain q1 where q1: "GetHead q = Some (Some x, q1)" "holds q1 bs xs"
    using c by auto
  then have "heap q1 = (heap q)(a := None)" using c by (auto simp: GetHead_def split: Option.bind_splits)
  with Cons.IH [OF q1(2)] q1(1) c show ?case by (subst destroy.simps) auto
qed

definition refused :: "'x qres list \<Rightarrow> nat" where
  "refused rs = length (filter (\<lambda>r. r = Added False) rs)"

text \<open>The nodes that are allocated but not in the list: those \<open>AddTail\<close> forgot when the queue was full.\<close>

definition lost :: "cqueue \<Rightarrow> nat list \<Rightarrow> nat set" where
  "lost q as = dom (heap q) - set as"

lemma GetHead_lost: "holds q as xs \<Longrightarrow> GetHead q = Some (r, q') \<Longrightarrow>
    \<exists>bs ys. holds q' bs ys \<and> lost q' bs = lost q as"
proof (cases xs)
  case Nil
  assume h: "holds q as xs" and "GetHead q = Some (r, q')"
  with Nil have "q' = q" by (auto simp: GetHead_def holds_def)
  with h show ?thesis by blast
next
  case (Cons x ys)
  assume h: "holds q as xs" and g: "GetHead q = Some (r, q')"
  from h Cons obtain a bs where c: "as = a # bs" "pHead q = Some a" "a \<notin> set bs" by (auto simp: holds_def dest: chain_cons)
  from GetHead_cons [of q as x ys] h g Cons c have "holds q' bs ys" by auto
  moreover have "heap q' = (heap q)(a := None)" using g c by (auto simp: GetHead_def split: Option.bind_splits)
  ultimately show ?thesis using c by (intro exI [of _ bs] exI [of _ ys]) (auto simp: lost_def)
qed

lemma AddTail_lost: "holds q as xs \<Longrightarrow> unused q a \<Longrightarrow> AddTail a x q = Some (b, q') \<Longrightarrow>
    \<exists>bs ys. holds q' bs ys \<and> (if b then lost q' bs = lost q as else \<exists>p. heap q p = None \<and> lost q' bs = insert p (lost q as))"
proof -
  assume h: "holds q as xs" and u: "unused q a" and t: "AddTail a x q = Some (b, q')"
  from u obtain p where p: "a = Some p" "heap q p = None" by (auto simp: unused_def split: option.splits)
  have np: "p \<notin> set as" using h p(2) by (auto simp: holds_def dest: chain_alloc)
  have l: "length as = length xs" using h by (auto simp: holds_def dest: chain_length)
  show ?thesis
  proof (cases "length xs < 1000")
    case True
    with AddTail_room [OF h _ True, of p x] u p t have b: "b" "holds q' (as @ [p]) (xs @ [x])" by auto
    have "dom (heap q') = insert p (dom (heap q))"
    proof (cases as)
      case Nil
      then have "pHead q = None" using h l by (simp add: holds_def)
      with t p b(1) show ?thesis by (auto simp: AddTail_def Let_def split: if_splits)
    next
      case (Cons c cs)
      then have "pTail q = Some (last as)" "last as \<in> set as" "pHead q = Some c"
        using h by (auto simp: holds_def) (cases xs; simp)
      moreover have "heap q (last as) \<noteq> None" using h calculation(2) by (auto simp: holds_def dest: chain_alloc)
      ultimately show ?thesis using t p b(1) np
        by (auto simp: AddTail_def Let_def split: if_splits)
    qed
    with p(2) have "lost q' (as @ [p]) = lost q as" by (auto simp: lost_def)
    with b show ?thesis by auto
  next
    case False
    with AddTail_full [OF h u, of x] t have b: "\<not> b" "holds q' as xs" by auto
    have "MAX_QUEUE_SIZE \<le> m_iRecvNum q - m_iProcessNum q" using h False l by (simp add: max_size holds_def)
    then have "heap q' = (heap q)(p \<mapsto> new_node)" using t p by (auto simp: AddTail_def Let_def)
    with b p np show ?thesis by (intro exI [of _ as] exI [of _ xs]) (auto simp: lost_def)
  qed
qed

lemma run_lost:
  "holds q as xs \<Longrightarrow> allocs_ok unused AddTail GetHead ops q \<Longrightarrow> run_ops AddTail GetHead ops q = Some (rs, q') \<Longrightarrow>
    finite (lost q as) \<Longrightarrow>
    \<exists>bs ys. holds q' bs ys \<and> finite (lost q' bs) \<and> card (lost q' bs) = card (lost q as) + refused rs"
proof (induction ops arbitrary: q as xs rs)
  case Nil
  then show ?case by (auto simp: refused_def)
next
  case (Cons op ops)
  show ?case
  proof (cases op)
    case (Add a x)
    with Cons.prems obtain b q1 rs1 where r: "AddTail a x q = Some (b, q1)" "run_ops AddTail GetHead ops q1 = Some (rs1, q')"
      "rs = Added b # rs1" by (auto split: Option.bind_splits)
    have u: "unused q a" using Cons.prems(2) Add by simp
    from AddTail_lost [OF Cons.prems(1) u r(1)] obtain bs ys where h: "holds q1 bs ys"
      and e: "if b then lost q1 bs = lost q as else \<exists>p. heap q p = None \<and> lost q1 bs = insert p (lost q as)" by blast
    have "heap q p = None \<Longrightarrow> p \<notin> lost q as" for p by (auto simp: lost_def)
    with e Cons.prems(4) have "finite (lost q1 bs)" "card (lost q1 bs) = card (lost q as) + (if b then 0 else 1)"
      by (auto split: if_splits)
    moreover from this(1) Cons.IH [OF h _ r(2)] Cons.prems(2) Add r(1) obtain cs zs where
      "holds q' cs zs" "finite (lost q' cs)" "card (lost q' cs) = card (lost q1 bs) + refused rs1" by auto
    ultimately show ?thesis using r(3) by (auto simp: refused_def)
  next
    case Get
    with Cons.prems obtain v q1 rs1 where r: "GetHead q = Some (v, q1)" "run_ops AddTail GetHead ops q1 = Some (rs1, q')"
      "rs = Got v # rs1" by (auto split: Option.bind_splits)
    from GetHead_lost [OF Cons.prems(1) r(1)] obtain bs ys where h: "holds q1 bs ys" "lost q1 bs = lost q as" by blast
    with Cons.IH [OF h(1) _ r(2)] Cons.prems Get r(1,3) show ?thesis by (auto simp: refused_def)
  qed
qed

section \<open>The properties\<close>

text \<open>C12: any sequence of AddTail and GetHead on a new queue, with addresses from new that are not in use, never follows an invalid pointer and is first in, first out: the elements accepted are those delivered followed by the contents, of which there are never more than 1000.\<close>

theorem queue_fifo:
  assumes "allocs_ok unused AddTail GetHead ops CQueue"
  shows "\<exists>rs q ys. run_ops AddTail GetHead ops CQueue = Some (rs, q) \<and> queue_rep q ys
    \<and> accepted ops rs = delivered rs @ ys \<and> length ys \<le> 1000 \<and> (IsEmpty q \<longleftrightarrow> ys = [])"
proof -
  have r: "queue_rep CQueue []" using holds_CQueue by (auto simp: queue_rep_def)
  from cq.run_fifo [OF r assms] obtain rs q ys where
    q: "run_ops AddTail GetHead ops CQueue = Some (rs, q)" "queue_rep q ys" "accepted ops rs = delivered rs @ ys"
    by auto
  from q(2) obtain as where h: "holds q as ys" by (auto simp: queue_rep_def)
  then have "length ys \<le> 1000" using chain_length by (fastforce simp: holds_def)
  moreover have "IsEmpty q \<longleftrightarrow> ys = []" using h by (cases as; cases ys) (auto simp: holds_def IsEmpty_def)
  ultimately show ?thesis using q by blast
qed

theorem queue_fifo_witness:
  "\<exists>rs q ys. run_ops AddTail GetHead [Add (Some 7) ([1], [2], 3), Add (Some 8) ([4], [], 0), Get, Add (Some 7) ([5], [], 1), Get] CQueue
      = Some (rs, q) \<and> queue_rep q ys \<and> delivered rs = [([1], [2], 3), ([4], [], 0)] \<and> length ys \<le> 1000"
proof -
  let ?ops = "[Add (Some 7) ([1], [2], 3), Add (Some 8) ([4], [], 0), Get, Add (Some 7) ([5], [], 1), Get]"
  have ok: "allocs_ok unused AddTail GetHead ?ops CQueue" by code_simp
  have d: "map_option (delivered \<circ> fst) (run_ops AddTail GetHead ?ops CQueue) = Some [([1], [2], 3), ([4], [], 0)]"
    by code_simp
  from queue_fifo [OF ok] obtain rs q ys where r: "run_ops AddTail GetHead ?ops CQueue = Some (rs, q)"
    "queue_rep q ys" "length ys \<le> 1000" by blast
  from d r(1) have "delivered rs = [([1], [2], 3), ([4], [], 0)]" by (simp del: run_ops.simps)
  with r show ?thesis by blast
qed

text \<open>C32: after any such sequence the destructor returns and has freed exactly the elements; what stays allocated is one node for each AddTail the full queue refused.\<close>

theorem queue_destroy:
  assumes "allocs_ok unused AddTail GetHead ops CQueue"
  shows "\<exists>rs q q'. run_ops AddTail GetHead ops CQueue = Some (rs, q) \<and> destroy q = Some q'
    \<and> IsEmpty q' \<and> finite (dom (heap q')) \<and> card (dom (heap q')) = refused rs"
proof -
  have r: "queue_rep CQueue []" using holds_CQueue by (auto simp: queue_rep_def)
  from cq.run_fifo [OF r assms] obtain rs q where q: "run_ops AddTail GetHead ops CQueue = Some (rs, q)" by auto
  have "lost CQueue [] = {}" by (simp add: lost_def CQueue_def dom_def)
  with run_lost [OF holds_CQueue assms q] obtain as xs where h: "holds q as xs" "finite (lost q as)"
    "card (lost q as) = refused rs" by auto
  from destroy_holds [OF h(1)] obtain q' where d: "destroy q = Some q'" "pHead q' = None"
    "\<And>a. heap q' a = (if a \<in> set as then None else heap q a)" by blast
  have "dom (heap q') = lost q as" using d(3) by (auto simp: lost_def split: if_splits)
  with h d q show ?thesis by (auto simp: IsEmpty_def)
qed

theorem queue_destroy_witness:
  "\<exists>rs q q'. run_ops AddTail GetHead [Add (Some 7) ([1], [2], 3), Add (Some 8) ([4], [], 0), Get] CQueue = Some (rs, q)
    \<and> destroy q = Some q' \<and> IsEmpty q' \<and> card (dom (heap q')) = refused rs"
proof -
  let ?ops = "[Add (Some 7) ([1], [2], 3), Add (Some 8) ([4], [], 0), Get]"
  have ok: "allocs_ok unused AddTail GetHead ?ops CQueue" by code_simp
  from queue_destroy [OF ok] show ?thesis by (simp del: run_ops.simps) blast
qed

end
