(* ===== verification/QueueThreads.thy ===== *)
theory QueueThreads
  imports Queue
begin

text \<open>
  \<open>CQueue\<close> with its threads: \<open>GetHead\<close> and \<open>AddTail\<close> cut into the steps between which another thread
  may run, with the mutexes \<open>m_QueueHeadLock\<close> and \<open>m_QueueTailLock\<close>. The relation \<open>tstep K N\<close> has the
  consumers \<open>K\<close> and the producers below \<open>N\<close>; \<open>sent\<close> and \<open>got\<close> record what was put in and taken out.
  The test of \<open>pHead\<close> before the lock, the count that decides whether the tail lock is taken too, and
  the link that is set before the new node is filled are separate steps, in the order of the source.
  The invariant of the reachable states with one consumer is proved step by step; a run with two consumers,
  which the program does not have, reaches an invalid pointer.
\<close>

section \<open>Threads, locks and steps\<close>

datatype cphase = CIdle | CChecked | CLocked | CCounted | CReady bool | CTaken bool

datatype pphase = PIdle | PAlloc nat msg | PNew nat msg | PLocked nat msg | PCounted nat msg
  | PFirst nat msg | PFilled nat msg | PElse nat msg | PLinked nat msg | PDone

datatype owner = Consumer nat | Producer nat

record threads =
  que :: cqueue
  headLock :: "nat option"
  tailLock :: "owner option"
  cpc :: "nat \<Rightarrow> cphase"
  ppc :: "nat \<Rightarrow> pphase"
  sent :: "msg list"
  got :: "msg list"

definition init_threads :: threads where
  "init_threads = \<lparr>que = CQueue, headLock = None, tailLock = None, cpc = (\<lambda>_. CIdle), ppc = (\<lambda>_. PIdle), sent = [], got = []\<rparr>"

definition filled :: "msg \<Rightarrow> node" where
  "filled x = \<lparr>csData1 = fst x, csData2 = fst (snd x), iData3 = snd (snd x), next_node = None\<rparr>"

definition count :: "cqueue \<Rightarrow> nat" where
  "count q = unat (m_iRecvNum q - m_iProcessNum q)"

inductive tstep :: "nat set \<Rightarrow> nat \<Rightarrow> threads \<Rightarrow> threads \<Rightarrow> bool" for K :: "nat set" and N :: nat where
  get_check: "k \<in> K \<Longrightarrow> cpc s k = CIdle \<Longrightarrow> pHead (que s) \<noteq> None \<Longrightarrow>
    tstep K N s (s\<lparr>cpc := (cpc s)(k := CChecked)\<rparr>)"
| get_lock: "cpc s k = CChecked \<Longrightarrow> headLock s = None \<Longrightarrow>
    tstep K N s (s\<lparr>headLock := Some k, cpc := (cpc s)(k := CLocked)\<rparr>)"
| get_count: "cpc s k = CLocked \<Longrightarrow>
    tstep K N s (s\<lparr>que := (que s)\<lparr>m_iProcessNum := m_iProcessNum (que s) + 1\<rparr>, cpc := (cpc s)(k := CCounted)\<rparr>)"
| get_long: "cpc s k = CCounted \<Longrightarrow> 3 < count (que s) \<Longrightarrow>
    tstep K N s (s\<lparr>cpc := (cpc s)(k := CReady False)\<rparr>)"
| get_short: "cpc s k = CCounted \<Longrightarrow> count (que s) \<le> 3 \<Longrightarrow> tailLock s = None \<Longrightarrow>
    tstep K N s (s\<lparr>tailLock := Some (Consumer k), cpc := (cpc s)(k := CReady True)\<rparr>)"
| get_take: "cpc s k = CReady f \<Longrightarrow> pHead (que s) = Some p \<Longrightarrow> heap (que s) p = Some n \<Longrightarrow>
    tstep K N s (s\<lparr>que := (que s)\<lparr>pHead := next_node n, heap := (heap (que s))(p := None)\<rparr>,
      got := got s @ [payload n], cpc := (cpc s)(k := CTaken f)\<rparr>)"
| get_unlock: "cpc s k = CTaken f \<Longrightarrow>
    tstep K N s (s\<lparr>headLock := None, tailLock := (if f then None else tailLock s), cpc := (cpc s)(k := CIdle)\<rparr>)"
| add_new: "i < N \<Longrightarrow> ppc s i = PIdle \<Longrightarrow> heap (que s) p = None \<Longrightarrow>
    tstep K N s (s\<lparr>que := (que s)\<lparr>heap := (heap (que s))(p \<mapsto> new_node)\<rparr>, ppc := (ppc s)(i := PAlloc p x)\<rparr>)"
| add_full: "ppc s i = PAlloc p x \<Longrightarrow> 1000 \<le> count (que s) \<Longrightarrow>
    tstep K N s (s\<lparr>ppc := (ppc s)(i := PIdle)\<rparr>)"
| add_room: "ppc s i = PAlloc p x \<Longrightarrow> count (que s) < 1000 \<Longrightarrow>
    tstep K N s (s\<lparr>ppc := (ppc s)(i := PNew p x)\<rparr>)"
| add_lock: "ppc s i = PNew p x \<Longrightarrow> tailLock s = None \<Longrightarrow>
    tstep K N s (s\<lparr>tailLock := Some (Producer i), ppc := (ppc s)(i := PLocked p x)\<rparr>)"
| add_count: "ppc s i = PLocked p x \<Longrightarrow>
    tstep K N s (s\<lparr>que := (que s)\<lparr>m_iRecvNum := m_iRecvNum (que s) + 1\<rparr>, ppc := (ppc s)(i := PCounted p x)\<rparr>)"
| add_first: "ppc s i = PCounted p x \<Longrightarrow> pHead (que s) = None \<Longrightarrow>
    tstep K N s (s\<lparr>ppc := (ppc s)(i := PFirst p x)\<rparr>)"
| add_fill: "ppc s i = PFirst p x \<Longrightarrow> heap (que s) p \<noteq> None \<Longrightarrow>
    q = (if m_iRecvNum (que s) > 1000000 then (que s)\<lparr>m_iRecvNum := 1, m_iProcessNum := 0\<rparr> else que s) \<Longrightarrow>
    tstep K N s (s\<lparr>que := q\<lparr>heap := (heap q)(p \<mapsto> filled x)\<rparr>, ppc := (ppc s)(i := PFilled p x)\<rparr>)"
| add_publish: "ppc s i = PFilled p x \<Longrightarrow>
    tstep K N s (s\<lparr>que := (que s)\<lparr>pTail := Some p, pHead := Some p\<rparr>, sent := sent s @ [x], ppc := (ppc s)(i := PDone)\<rparr>)"
| add_else: "ppc s i = PCounted p x \<Longrightarrow> pHead (que s) \<noteq> None \<Longrightarrow>
    tstep K N s (s\<lparr>ppc := (ppc s)(i := PElse p x)\<rparr>)"
| add_link: "ppc s i = PElse p x \<Longrightarrow> pTail (que s) = Some t \<Longrightarrow> heap (que s) t = Some tn \<Longrightarrow>
    tstep K N s (s\<lparr>que := (que s)\<lparr>heap := (heap (que s))(t \<mapsto> tn\<lparr>next_node := Some p\<rparr>)\<rparr>, ppc := (ppc s)(i := PLinked p x)\<rparr>)"
| add_last: "ppc s i = PLinked p x \<Longrightarrow> heap (que s) p \<noteq> None \<Longrightarrow>
    tstep K N s (s\<lparr>que := (que s)\<lparr>heap := (heap (que s))(p \<mapsto> filled x), pTail := Some p\<rparr>, sent := sent s @ [x],
      ppc := (ppc s)(i := PDone)\<rparr>)"
| add_unlock: "ppc s i = PDone \<Longrightarrow>
    tstep K N s (s\<lparr>tailLock := None, ppc := (ppc s)(i := PIdle)\<rparr>)"

inductive treach :: "nat set \<Rightarrow> nat \<Rightarrow> threads \<Rightarrow> bool" for K N where
  start: "treach K N init_threads"
| move: "treach K N s \<Longrightarrow> tstep K N s s' \<Longrightarrow> treach K N s'"

definition bad_pointer :: "cqueue \<Rightarrow> nat option \<Rightarrow> bool" where
  "bad_pointer q a \<longleftrightarrow> (case a of None \<Rightarrow> True | Some p \<Rightarrow> heap q p = None)"

definition faults :: "threads \<Rightarrow> bool" where
  "faults s \<longleftrightarrow> (\<exists>k f. cpc s k = CReady f \<and> bad_pointer (que s) (pHead (que s)))
     \<or> (\<exists>i p x. ppc s i = PElse p x \<and> bad_pointer (que s) (pTail (que s)))
     \<or> (\<exists>i p x. (ppc s i = PFirst p x \<or> ppc s i = PLinked p x) \<and> bad_pointer (que s) (Some p))"

section \<open>The invariant with one consumer\<close>

text \<open>A list segment: like \<open>chain\<close>, but the last node points to \<open>e\<close>.\<close>

fun seg :: "(nat \<Rightarrow> node option) \<Rightarrow> nat option \<Rightarrow> nat list \<Rightarrow> msg list \<Rightarrow> nat option \<Rightarrow> bool" where
  "seg h p [] [] e \<longleftrightarrow> p = e"
| "seg h p (a # as) (x # xs) e \<longleftrightarrow> p = Some a \<and> (\<exists>n. h a = Some n \<and> payload n = x \<and> seg h (next_node n) as xs e)"
| "seg h p _ _ e \<longleftrightarrow> False"

lemma seg_alloc: "seg h p as xs e \<Longrightarrow> a \<in> set as \<Longrightarrow> h a \<noteq> None"
  by (induction h p as xs e rule: seg.induct) auto

lemma seg_upd: "seg h p as xs e \<Longrightarrow> a \<notin> set as \<Longrightarrow> seg (h(a := v)) p as xs e"
  by (induction h p as xs e rule: seg.induct) auto

lemma seg_length: "seg h p as xs e \<Longrightarrow> length as = length xs"
  by (induction h p as xs e rule: seg.induct) auto

lemma seg_end: "seg h p as xs None \<Longrightarrow> p = None \<longleftrightarrow> as = []"
  by (cases as; cases xs) auto

lemma seg_link:
  "seg h p as xs e \<Longrightarrow> distinct as \<Longrightarrow> as \<noteq> [] \<Longrightarrow> h (last as) = Some tn \<Longrightarrow>
    seg (h(last as \<mapsto> tn\<lparr>next_node := e'\<rparr>)) p as xs e'"
proof (induction h p as xs e rule: seg.induct)
  case (2 h p a as x xs e)
  show ?case
  proof (cases "as = []")
    case True
    with 2 show ?thesis by (cases xs) (auto simp: payload_def)
  next
    case False
    with 2 have "a \<noteq> last as" using last_in_set by auto
    with 2 False show ?thesis by auto
  qed
qed auto

lemma seg_snoc:
  "seg h p as xs (Some b) \<Longrightarrow> b \<notin> set as \<Longrightarrow> next_node n = None \<Longrightarrow>
    seg (h(b \<mapsto> n)) p (as @ [b]) (xs @ [payload n]) None"
  by (induction h p as xs "Some b" rule: seg.induct) auto

definition node_of :: "pphase \<Rightarrow> nat option" where
  "node_of ph = (case ph of PIdle \<Rightarrow> None | PDone \<Rightarrow> None | PAlloc p x \<Rightarrow> Some p | PNew p x \<Rightarrow> Some p
     | PLocked p x \<Rightarrow> Some p | PCounted p x \<Rightarrow> Some p | PFirst p x \<Rightarrow> Some p | PFilled p x \<Rightarrow> Some p
     | PElse p x \<Rightarrow> Some p | PLinked p x \<Rightarrow> Some p)"

definition holding :: "pphase \<Rightarrow> bool" where
  "holding ph \<longleftrightarrow> (case ph of PIdle \<Rightarrow> False | PAlloc _ _ \<Rightarrow> False | PNew _ _ \<Rightarrow> False | _ \<Rightarrow> True)"

text \<open>Counted but not yet in the list; checked but not yet counted; the end of the list.\<close>

definition in_flight :: "pphase \<Rightarrow> bool" where
  "in_flight ph \<longleftrightarrow> (case ph of PCounted _ _ \<Rightarrow> True | PFirst _ _ \<Rightarrow> True | PFilled _ _ \<Rightarrow> True
     | PElse _ _ \<Rightarrow> True | PLinked _ _ \<Rightarrow> True | _ \<Rightarrow> False)"

definition waiting :: "pphase \<Rightarrow> bool" where
  "waiting ph \<longleftrightarrow> (case ph of PNew _ _ \<Rightarrow> True | PLocked _ _ \<Rightarrow> True | _ \<Rightarrow> False)"

definition end_of :: "pphase \<Rightarrow> nat option" where
  "end_of ph = (case ph of PLinked p _ \<Rightarrow> Some p | _ \<Rightarrow> None)"

definition starting :: "pphase \<Rightarrow> bool" where
  "starting ph \<longleftrightarrow> (case ph of PFirst _ _ \<Rightarrow> True | PFilled _ _ \<Rightarrow> True | _ \<Rightarrow> False)"

definition linking :: "pphase \<Rightarrow> bool" where
  "linking ph \<longleftrightarrow> (case ph of PElse _ _ \<Rightarrow> True | PLinked _ _ \<Rightarrow> True | _ \<Rightarrow> False)"

definition owner_phase :: "threads \<Rightarrow> pphase" where
  "owner_phase s = (case tailLock s of Some (Producer i) \<Rightarrow> ppc s i | _ \<Rightarrow> PIdle)"

definition waiters :: "nat \<Rightarrow> (nat \<Rightarrow> pphase) \<Rightarrow> nat set" where
  "waiters N f = {i. i < N \<and> waiting (f i)}"

definition inv_list :: "threads \<Rightarrow> nat list \<Rightarrow> msg list \<Rightarrow> bool" where
  "inv_list s as xs \<longleftrightarrow> seg (heap (que s)) (pHead (que s)) as xs (end_of (owner_phase s)) \<and> distinct as
     \<and> (as \<noteq> [] \<longrightarrow> pTail (que s) = Some (last as)) \<and> sent s = got s @ xs"

definition inv_count :: "nat \<Rightarrow> threads \<Rightarrow> nat list \<Rightarrow> bool" where
  "inv_count N s as \<longleftrightarrow> length as + (if in_flight (owner_phase s) then 1 else 0)
       = count (que s) + (if cpc s 0 = CCounted \<or> (\<exists>f. cpc s 0 = CReady f) then 1 else 0)
     \<and> count (que s) + card (waiters N (ppc s)) \<le> 1000 + N"

definition inv_phase :: "threads \<Rightarrow> nat list \<Rightarrow> bool" where
  "inv_phase s as \<longleftrightarrow>
     (cpc s 0 = CIdle \<or> (\<exists>f. cpc s 0 = CTaken f) \<or> as \<noteq> []) \<and> (cpc s 0 = CReady False \<longrightarrow> 4 \<le> length as)
     \<and> (starting (owner_phase s) \<longrightarrow> as = []) \<and> (linking (owner_phase s) \<longrightarrow> as \<noteq> [])
     \<and> (\<forall>p x. owner_phase s = PFilled p x \<longrightarrow> heap (que s) p = Some (filled x))"

definition inv_locks :: "nat \<Rightarrow> threads \<Rightarrow> bool" where
  "inv_locks N s \<longleftrightarrow> (\<forall>i. holding (ppc s i) \<longleftrightarrow> tailLock s = Some (Producer i))
     \<and> (\<forall>k. tailLock s = Some (Consumer k) \<longleftrightarrow> k = 0 \<and> (cpc s 0 = CReady True \<or> cpc s 0 = CTaken True))
     \<and> (\<forall>k. k \<noteq> 0 \<longrightarrow> cpc s k = CIdle) \<and> (headLock s = None \<longleftrightarrow> cpc s 0 = CIdle \<or> cpc s 0 = CChecked)
     \<and> (\<forall>i. N \<le> i \<longrightarrow> ppc s i = PIdle)"

definition inv_nodes :: "threads \<Rightarrow> nat list \<Rightarrow> bool" where
  "inv_nodes s as \<longleftrightarrow> (\<forall>i p. node_of (ppc s i) = Some p \<longrightarrow> heap (que s) p \<noteq> None \<and> p \<notin> set as)
     \<and> (\<forall>i j p. node_of (ppc s i) = Some p \<and> node_of (ppc s j) = Some p \<longrightarrow> i = j)"

definition qinv :: "nat \<Rightarrow> threads \<Rightarrow> nat list \<Rightarrow> msg list \<Rightarrow> bool" where
  "qinv N s as xs \<longleftrightarrow> inv_list s as xs \<and> inv_count N s as \<and> inv_phase s as \<and> inv_locks N s \<and> inv_nodes s as"

lemmas phase_defs = node_of_def holding_def in_flight_def waiting_def end_of_def starting_def linking_def
lemmas inv_defs = qinv_def inv_list_def inv_count_def inv_phase_def inv_locks_def inv_nodes_def

lemma inv_init: "qinv N init_threads [] []"
  by (simp add: inv_defs phase_defs waiters_def init_threads_def CQueue_def owner_phase_def count_def)


lemma phase_simps [simp]:
  "node_of PIdle = None" "node_of PDone = None" "node_of (PAlloc p x) = Some p" "node_of (PNew p x) = Some p"
  "node_of (PLocked p x) = Some p" "node_of (PCounted p x) = Some p" "node_of (PFirst p x) = Some p"
  "node_of (PFilled p x) = Some p" "node_of (PElse p x) = Some p" "node_of (PLinked p x) = Some p"
  "\<not> holding PIdle" "\<not> holding (PAlloc p x)" "\<not> holding (PNew p x)" "holding (PLocked p x)" "holding (PCounted p x)"
  "holding (PFirst p x)" "holding (PFilled p x)" "holding (PElse p x)" "holding (PLinked p x)" "holding PDone"
  "\<not> in_flight PIdle" "\<not> in_flight (PLocked p x)" "in_flight (PCounted p x)"
  "in_flight (PFirst p x)" "in_flight (PFilled p x)" "in_flight (PElse p x)" "in_flight (PLinked p x)" "\<not> in_flight PDone"
  "\<not> waiting PIdle" "\<not> waiting (PAlloc p x)" "waiting (PNew p x)" "waiting (PLocked p x)" "\<not> waiting (PCounted p x)"
  "\<not> waiting (PFirst p x)" "\<not> waiting (PFilled p x)" "\<not> waiting (PElse p x)" "\<not> waiting (PLinked p x)" "\<not> waiting PDone"
  "end_of PIdle = None" "end_of (PLocked p x) = None" "end_of (PCounted p x) = None" "end_of (PFirst p x) = None"
  "end_of (PFilled p x) = None" "end_of (PElse p x) = None" "end_of (PLinked p x) = Some p" "end_of PDone = None"
  "\<not> starting PIdle" "\<not> starting (PLocked p x)" "\<not> starting (PCounted p x)" "starting (PFirst p x)"
  "starting (PFilled p x)" "\<not> starting (PElse p x)" "\<not> starting (PLinked p x)" "\<not> starting PDone"
  "\<not> linking PIdle" "\<not> linking (PLocked p x)" "\<not> linking (PCounted p x)" "\<not> linking (PFirst p x)"
  "\<not> linking (PFilled p x)" "linking (PElse p x)" "linking (PLinked p x)" "\<not> linking PDone"
  by (simp_all add: phase_defs)

lemma end_of_linking: "end_of ph \<noteq> None \<Longrightarrow> linking ph"
  by (cases ph) (simp_all add: phase_defs)

section \<open>Steps of the consumer\<close>

lemma owner_phase_simps [simp]:
  "owner_phase (s\<lparr>cpc := c\<rparr>) = owner_phase s" "owner_phase (s\<lparr>que := q\<rparr>) = owner_phase s"
  "owner_phase (s\<lparr>headLock := h\<rparr>) = owner_phase s" "owner_phase (s\<lparr>got := g\<rparr>) = owner_phase s"
  "owner_phase (s\<lparr>sent := g\<rparr>) = owner_phase s"
  by (simp_all add: owner_phase_def split: option.split owner.split)

lemma count_simps [simp]: "count (q\<lparr>heap := h\<rparr>) = count q" "count (q\<lparr>pHead := a\<rparr>) = count q" "count (q\<lparr>pTail := a\<rparr>) = count q"
  by (simp_all add: count_def)

lemma only_consumer: "inv_locks N s \<Longrightarrow> cpc s k \<noteq> CIdle \<Longrightarrow> k = 0"
  by (auto simp: inv_locks_def)

lemma inv_get_check:
  assumes "qinv N s as xs" "cpc s 0 = CIdle" "pHead (que s) \<noteq> None" 
  shows "qinv N (s\<lparr>cpc := (cpc s)(0 := CChecked)\<rparr>) as xs"
proof -
  have "as \<noteq> []"
  proof
    assume "as = []"
    then have "end_of (owner_phase s) \<noteq> None" using assms(1,3) by (cases xs) (auto simp: inv_defs)
    from end_of_linking [OF this] \<open>as = []\<close> assms(1) show False by (simp add: inv_defs)
  qed
  with assms show ?thesis by (auto simp: inv_defs)
qed

lemma inv_get_lock:
  assumes "qinv N s as xs" "cpc s 0 = CChecked" "headLock s = None"
  shows "qinv N (s\<lparr>headLock := Some 0, cpc := (cpc s)(0 := CLocked)\<rparr>) as xs"
  using assms by (auto simp: inv_defs)

lemma count_dec: "0 < count q \<Longrightarrow> Suc (count (q\<lparr>m_iProcessNum := m_iProcessNum q + 1\<rparr>)) = count q"
  using word_pred_diff [of "m_iRecvNum q" "m_iProcessNum q"] by (simp add: count_def)

lemma inv_get_count:
  assumes "qinv N s as xs" "cpc s 0 = CLocked"
  shows "qinv N (s\<lparr>que := (que s)\<lparr>m_iProcessNum := m_iProcessNum (que s) + 1\<rparr>, cpc := (cpc s)(0 := CCounted)\<rparr>) as xs"
proof -
  have "as \<noteq> []" using assms by (auto simp: inv_defs)
  then have "0 < count (que s)" using assms by (cases as) (auto simp: inv_defs split: if_splits)
  from count_dec [OF this] assms \<open>as \<noteq> []\<close> show ?thesis by (auto simp: inv_defs split: if_splits)
qed

lemma inv_get_long:
  assumes "qinv N s as xs" "cpc s 0 = CCounted" "3 < count (que s)"
  shows "qinv N (s\<lparr>cpc := (cpc s)(0 := CReady False)\<rparr>) as xs"
  using assms by (auto simp: inv_defs split: if_splits)

lemma inv_get_short:
  assumes "qinv N s as xs" "cpc s 0 = CCounted" "tailLock s = None"
  shows "qinv N (s\<lparr>tailLock := Some (Consumer 0), cpc := (cpc s)(0 := CReady True)\<rparr>) as xs"
proof -
  have "owner_phase (s\<lparr>tailLock := Some (Consumer 0), cpc := (cpc s)(0 := CReady True)\<rparr>) = owner_phase s"
    using assms(3) by (simp add: owner_phase_def)
  with assms show ?thesis by (auto simp: inv_defs)
qed

lemma inv_get_take:
  assumes "qinv N s as xs" "cpc s 0 = CReady f" "pHead (que s) = Some p" "heap (que s) p = Some n"
  shows "qinv N (s\<lparr>que := (que s)\<lparr>pHead := next_node n, heap := (heap (que s))(p := None)\<rparr>,
      got := got s @ [payload n], cpc := (cpc s)(0 := CTaken f)\<rparr>) (tl as) (tl xs)"
proof -
  have ne: "as \<noteq> []" using assms(1,2) by (auto simp: inv_defs)
  then obtain bs x ys where c: "as = p # bs" "xs = x # ys" "payload n = x" "seg (heap (que s)) (next_node n) bs ys (end_of (owner_phase s))"
    using assms(1,3,4) by (cases as; cases xs) (auto simp: inv_defs)
  have f: "bs \<noteq> [] \<or> (f \<and> owner_phase s = PIdle)"
    using assms(1,2) c by (cases f) (auto simp: inv_defs owner_phase_def split: option.splits owner.splits)
  have d: "\<forall>q y. owner_phase s = PFilled q y \<longrightarrow> p \<noteq> q" using assms(1) ne by (auto simp: inv_defs)
  have np: "p \<notin> set bs" using assms(1) c by (auto simp: inv_defs)
  let ?s = "s\<lparr>que := (que s)\<lparr>pHead := next_node n, heap := (heap (que s))(p := None)\<rparr>,
      got := got s @ [payload n], cpc := (cpc s)(0 := CTaken f)\<rparr>"
  have "inv_list ?s bs ys" using assms(1) c np by (auto simp: inv_defs seg_upd)
  moreover have "inv_count N ?s bs" using assms(1,2) c by (simp add: inv_defs split: if_splits)
  moreover have "inv_phase s as" "starting (owner_phase s) \<longrightarrow> as = []" using assms(1) by (auto simp: qinv_def inv_phase_def)
  then have "inv_phase ?s bs" using c f d by (auto simp: inv_phase_def)
  moreover have "inv_locks N s" using assms(1) by (simp add: qinv_def)
  then have "inv_locks N ?s" using assms(2) by (auto simp: inv_locks_def)
  moreover have "inv_nodes s as" using assms(1) by (simp add: qinv_def)
  then have "inv_nodes ?s bs" using c unfolding inv_nodes_def by simp
  ultimately show ?thesis using c by (simp add: qinv_def)
qed

lemma inv_get_unlock:
  assumes "qinv N s as xs" "cpc s 0 = CTaken f"
  shows "qinv N (s\<lparr>headLock := None, tailLock := (if f then None else tailLock s), cpc := (cpc s)(0 := CIdle)\<rparr>) as xs"
proof -
  have "owner_phase (s\<lparr>headLock := None, tailLock := (if f then None else tailLock s), cpc := (cpc s)(0 := CIdle)\<rparr>) = owner_phase s"
    using assms by (cases f) (auto simp: owner_phase_def qinv_def inv_locks_def split: option.split owner.split)
  note o = this
  let ?s = "s\<lparr>headLock := None, tailLock := (if f then None else tailLock s), cpc := (cpc s)(0 := CIdle)\<rparr>"
  have L: "inv_locks N s" using assms(1) by (simp add: qinv_def)
  have I: "inv_list s as xs" "inv_nodes s as" "inv_count N s as" "inv_phase s as" using assms(1) by (simp_all add: qinv_def)
  have "inv_list ?s as xs" using I(1) o by (simp add: inv_list_def)
  moreover have "inv_nodes ?s as" using I(2) by (simp add: inv_nodes_def)
  moreover have "inv_count N ?s as" using I(3) assms(2) o by (simp add: inv_count_def)
  moreover have "inv_phase ?s as" using I(4) assms(2) o by (simp add: inv_phase_def)
  moreover have "inv_locks N ?s"
  proof (cases f)
    case True
    with L assms(2) have "tailLock s = Some (Consumer 0)" by (simp add: inv_locks_def)
    with L assms(2) True show ?thesis by (simp add: inv_locks_def)
  next
    case False
    with L assms(2) show ?thesis by (simp add: inv_locks_def)
  qed
  ultimately show ?thesis by (simp add: qinv_def)
qed

section \<open>Steps of a producer\<close>

lemma owner_is: "inv_locks N s \<Longrightarrow> holding (ppc s i) \<Longrightarrow> tailLock s = Some (Producer i) \<and> owner_phase s = ppc s i"
  by (simp add: inv_locks_def owner_phase_def)

lemma owner_upd: "tailLock s = Some (Producer i) \<Longrightarrow> owner_phase (s\<lparr>ppc := (ppc s)(i := v)\<rparr>) = v"
  by (simp add: owner_phase_def)

lemma owner_other: "inv_locks N s \<Longrightarrow> \<not> holding (ppc s i) \<Longrightarrow> owner_phase (s\<lparr>ppc := (ppc s)(i := v)\<rparr>) = owner_phase s"
  by (auto simp: inv_locks_def owner_phase_def split: option.split owner.split)

lemma finite_waiters [simp]: "finite (waiters N f)"
  by (simp add: waiters_def)

lemma waiters_le: "card (waiters N f) \<le> N"
proof -
  have "card (waiters N f) \<le> card {..<N}" by (rule card_mono) (auto simp: waiters_def)
  then show ?thesis by simp
qed

lemma waiters_same: "waiting v = waiting (f i) \<Longrightarrow> waiters N (f(i := v)) = waiters N f"
  by (auto simp: waiters_def)

lemma waiters_out: "waiting (f i) \<Longrightarrow> \<not> waiting v \<Longrightarrow> i < N \<Longrightarrow> Suc (card (waiters N (f(i := v)))) = card (waiters N f)"
proof -
  assume a: "waiting (f i)" "\<not> waiting v" "i < N"
  then have "waiters N f = insert i (waiters N (f(i := v)))" "i \<notin> waiters N (f(i := v))" by (auto simp: waiters_def)
  then show ?thesis by simp
qed

text \<open>A step of a producer that keeps its node, when the list and the allocated nodes stay.\<close>

lemma inv_nodes_same:
  assumes "inv_nodes s as" "node_of v = node_of (ppc s i) \<or> node_of v = None"
    "\<And>a. heap (que s) a \<noteq> None \<Longrightarrow> heap q a \<noteq> None"
  shows "inv_nodes (s\<lparr>que := q, ppc := (ppc s)(i := v)\<rparr>) as"
  using assms by (fastforce simp: inv_nodes_def)

lemma inv_locks_same:
  assumes "inv_locks N s" "holding v = holding (ppc s i)" "i < N"
  shows "inv_locks N (s\<lparr>ppc := (ppc s)(i := v)\<rparr>)"
  using assms by (auto simp: inv_locks_def)

lemma inv_locks_simps [simp]:
  "inv_locks N (s\<lparr>que := q\<rparr>) = inv_locks N s" "inv_locks N (s\<lparr>sent := x\<rparr>) = inv_locks N s"
  by (simp_all add: inv_locks_def)

lemma locks_consumer: "inv_locks N s \<Longrightarrow> tailLock s = Some (Consumer 0) \<longleftrightarrow> cpc s 0 = CReady True \<or> cpc s 0 = CTaken True"
  by (simp add: inv_locks_def)

lemma producer_id: "inv_locks N s \<Longrightarrow> ppc s i \<noteq> PIdle \<Longrightarrow> i < N"
  by (rule ccontr) (simp add: inv_locks_def)

lemma invI: "inv_list s as xs \<Longrightarrow> inv_count N s as \<Longrightarrow> inv_phase s as \<Longrightarrow> inv_locks N s \<Longrightarrow> inv_nodes s as \<Longrightarrow> qinv N s as xs"
  by (simp add: qinv_def)

lemma invD: "qinv N s as xs \<Longrightarrow> inv_list s as xs" "qinv N s as xs \<Longrightarrow> inv_count N s as" "qinv N s as xs \<Longrightarrow> inv_phase s as"
  "qinv N s as xs \<Longrightarrow> inv_locks N s" "qinv N s as xs \<Longrightarrow> inv_nodes s as"
  by (simp_all add: qinv_def)

lemma inv_add_new:
  assumes "qinv N s as xs" "i < N" "ppc s i = PIdle" "heap (que s) p = None"
  shows "qinv N (s\<lparr>que := (que s)\<lparr>heap := (heap (que s))(p \<mapsto> new_node)\<rparr>, ppc := (ppc s)(i := PAlloc p x)\<rparr>) as xs"
proof -
  let ?q = "(que s)\<lparr>heap := (heap (que s))(p \<mapsto> new_node)\<rparr>"
  note I = invD [OF assms(1)]
  have o: "owner_phase (s\<lparr>que := ?q, ppc := (ppc s)(i := PAlloc p x)\<rparr>) = owner_phase s"
    using owner_other [of N "s\<lparr>que := ?q\<rparr>" i "PAlloc p x"] I(4) assms(3) by simp
  have np: "p \<notin> set as" using I(1) assms(4) by (auto simp: inv_list_def dest: seg_alloc)
  show ?thesis
  proof (rule invI)
    show "inv_list (s\<lparr>que := ?q, ppc := (ppc s)(i := PAlloc p x)\<rparr>) as xs"
      using I(1) o np by (simp add: inv_list_def seg_upd)
    show "inv_count N (s\<lparr>que := ?q, ppc := (ppc s)(i := PAlloc p x)\<rparr>) as"
      using I(2) o waiters_same [of "PAlloc p x" "ppc s" i N] assms(3) by (simp add: inv_count_def del: fun_upd_apply)
    show "inv_phase (s\<lparr>que := ?q, ppc := (ppc s)(i := PAlloc p x)\<rparr>) as"
      using I(3) o assms(4) by (auto simp: inv_phase_def)
    show "inv_locks N (s\<lparr>que := ?q, ppc := (ppc s)(i := PAlloc p x)\<rparr>)"
      using inv_locks_same [of N "s\<lparr>que := ?q\<rparr>" "PAlloc p x" i] I(4) assms(2,3) by simp
    show "inv_nodes (s\<lparr>que := ?q, ppc := (ppc s)(i := PAlloc p x)\<rparr>) as"
    proof -
      have "node_of (ppc s j) \<noteq> Some p" for j using I(5) assms(4) unfolding inv_nodes_def by blast
      then show ?thesis using I(5) np by (auto simp: inv_nodes_def)
    qed
  qed
qed

lemma inv_add_check:
  assumes "qinv N s as xs" "ppc s i = PAlloc p x" "v = PIdle \<or> v = PNew p x \<and> count (que s) < 1000"
  shows "qinv N (s\<lparr>ppc := (ppc s)(i := v)\<rparr>) as xs"
proof -
  note I = invD [OF assms(1)]
  have N: "i < N" using producer_id [OF I(4)] assms(2) by simp
  have h: "\<not> holding (ppc s i)" "\<not> holding v" using assms(2,3) by auto
  note o = owner_other [OF I(4) h(1)]
  show ?thesis
  proof (rule invI)
    show "inv_list (s\<lparr>ppc := (ppc s)(i := v)\<rparr>) as xs" using I(1) o by (simp add: inv_list_def)
    have "count (que s) + card (waiters N ((ppc s)(i := v))) \<le> 1000 + N"
    proof (cases "v = PIdle")
      case True
      then have "waiters N ((ppc s)(i := v)) = waiters N (ppc s)" using assms(2) by (intro waiters_same) simp
      then show ?thesis using I(2) by (simp add: inv_count_def)
    next
      case False
      then show ?thesis using assms(3) waiters_le [of N "(ppc s)(i := v)"] by simp
    qed
    then show "inv_count N (s\<lparr>ppc := (ppc s)(i := v)\<rparr>) as"
      using I(2) o by (simp add: inv_count_def)
    show "inv_phase (s\<lparr>ppc := (ppc s)(i := v)\<rparr>) as" using I(3) o by (simp add: inv_phase_def)
    show "inv_locks N (s\<lparr>ppc := (ppc s)(i := v)\<rparr>)" using inv_locks_same [OF I(4) _ N] h by simp
    show "inv_nodes (s\<lparr>ppc := (ppc s)(i := v)\<rparr>) as"
      using inv_nodes_same [OF I(5), of v i "que s"] assms(2,3) by auto
  qed
qed

lemma inv_add_lock:
  assumes "qinv N s as xs" "ppc s i = PNew p x" "tailLock s = None"
  shows "qinv N (s\<lparr>tailLock := Some (Producer i), ppc := (ppc s)(i := PLocked p x)\<rparr>) as xs"
proof -
  note I = invD [OF assms(1)]
  have N: "i < N" using producer_id [OF I(4)] assms(2) by simp
  have o: "owner_phase s = PIdle" "owner_phase (s\<lparr>tailLock := Some (Producer i), ppc := (ppc s)(i := PLocked p x)\<rparr>) = PLocked p x"
    using assms(3) by (simp_all add: owner_phase_def)
  show ?thesis
  proof (rule invI)
    show "inv_list (s\<lparr>tailLock := Some (Producer i), ppc := (ppc s)(i := PLocked p x)\<rparr>) as xs" using I(1) o by (simp add: inv_list_def)
    show "inv_count N (s\<lparr>tailLock := Some (Producer i), ppc := (ppc s)(i := PLocked p x)\<rparr>) as"
      using I(2) o assms(2) waiters_same [of "PLocked p x" "ppc s" i N] by (simp add: inv_count_def del: fun_upd_apply)
    show "inv_phase (s\<lparr>tailLock := Some (Producer i), ppc := (ppc s)(i := PLocked p x)\<rparr>) as" using I(3) o by (simp add: inv_phase_def)
    show "inv_locks N (s\<lparr>tailLock := Some (Producer i), ppc := (ppc s)(i := PLocked p x)\<rparr>)"
      (is "inv_locks N ?s")
    proof -
      have h: "\<not> holding (ppc s j)" for j using I(4) assms(3) by (simp add: inv_locks_def)
      have "holding (ppc ?s j) \<longleftrightarrow> tailLock ?s = Some (Producer j)" for j using h [of j] by (cases "j = i") simp_all
      moreover have "N \<le> j \<Longrightarrow> ppc ?s j = PIdle" for j using I(4) N by (simp add: inv_locks_def)
      ultimately show ?thesis using I(4) assms(3) unfolding inv_locks_def by simp
    qed
    show "inv_nodes (s\<lparr>tailLock := Some (Producer i), ppc := (ppc s)(i := PLocked p x)\<rparr>) as"
      using inv_nodes_same [OF I(5), of "PLocked p x" i "que s"] assms(2) unfolding inv_nodes_def by (simp del: fun_upd_apply)
  qed
qed

text \<open>A step of the producer that holds the lock, which keeps its node and the list: what is left to
  show is the counting and the phase.\<close>

lemma inv_owner_step:
  assumes "qinv N s as xs" "ppc s i = u" "holding u" "holding v" "node_of v = node_of u"
    and "que s' = q" "ppc s' = (ppc s)(i := v)" "tailLock s' = tailLock s" "headLock s' = headLock s" "cpc s' = cpc s"
    and "\<And>a. heap (que s) a \<noteq> None \<Longrightarrow> heap q a \<noteq> None"
    and "inv_list s' as xs" "inv_phase s' as" "inv_count N s' as"
  shows "qinv N s' as xs"
proof -
  note I = invD [OF assms(1)]
  have "ppc s i \<noteq> PIdle" using assms(2,3) by auto
  then have N: "i < N" using producer_id [OF I(4)] by simp
  have "inv_locks N (s\<lparr>ppc := (ppc s)(i := v)\<rparr>)" using inv_locks_same [OF I(4) _ N, of v] assms(2-4) by simp
  then have "inv_locks N s'" unfolding inv_locks_def by (simp add: assms(7-10) del: fun_upd_apply)
  moreover have "inv_nodes (s\<lparr>que := q, ppc := (ppc s)(i := v)\<rparr>) as"
    by (rule inv_nodes_same [OF I(5)]) (use assms(2,5,11) in auto)
  then have "inv_nodes s' as" unfolding inv_nodes_def by (simp add: assms(6,7) del: fun_upd_apply)
  ultimately show ?thesis using assms(12-14) by (simp add: qinv_def)
qed

lemma owner_facts:
  assumes "qinv N s as xs" "ppc s i = u" "holding u"
  shows "tailLock s = Some (Producer i)" "owner_phase s = u" "i < N" "cpc s 0 \<noteq> CReady True" "cpc s 0 \<noteq> CTaken True"
proof -
  note I = invD [OF assms(1)]
  show t: "tailLock s = Some (Producer i)" "owner_phase s = u" using owner_is [OF I(4), of i] assms(2,3) by simp_all
  show "cpc s 0 \<noteq> CReady True" "cpc s 0 \<noteq> CTaken True" using locks_consumer [OF I(4)] t(1) by simp_all
  have "ppc s i \<noteq> PIdle" using assms(2,3) by auto
  then show "i < N" by (rule producer_id [OF I(4)])
qed

lemma owner_upd': "tailLock s = Some (Producer i) \<Longrightarrow>
    owner_phase (s\<lparr>que := q, ppc := (ppc s)(i := v)\<rparr>) = v"
  "tailLock s = Some (Producer i) \<Longrightarrow> owner_phase (s\<lparr>que := q, sent := y, ppc := (ppc s)(i := v)\<rparr>) = v"
  "tailLock s = Some (Producer i) \<Longrightarrow> owner_phase (s\<lparr>que := q, ppc := (ppc s)(i := v), sent := y\<rparr>) = v"
  by (simp_all add: owner_phase_def)

lemma count_inc: "count q < 2 ^ 32 - 1 \<Longrightarrow> count (q\<lparr>m_iRecvNum := m_iRecvNum q + 1\<rparr>) = Suc (count q)"
proof -
  assume a: "count q < 2 ^ 32 - 1"
  have e: "m_iRecvNum q + 1 - m_iProcessNum q = (m_iRecvNum q - m_iProcessNum q) + 1" by simp
  have "count (q\<lparr>m_iRecvNum := m_iRecvNum q + 1\<rparr>) = unat (m_iRecvNum q + 1 - m_iProcessNum q)" by (simp add: count_def)
  also have "\<dots> = Suc (count q)" using a unfolding e count_def by (simp add: unat_word_ariths)
  finally show ?thesis .
qed

lemma inv_add_count:
  assumes "qinv N s as xs" "ppc s i = PLocked p x" "N \<le> 1000000"
  shows "qinv N (s\<lparr>que := (que s)\<lparr>m_iRecvNum := m_iRecvNum (que s) + 1\<rparr>, ppc := (ppc s)(i := PCounted p x)\<rparr>) as xs"
proof -
  let ?q = "(que s)\<lparr>m_iRecvNum := m_iRecvNum (que s) + 1\<rparr>"
  let ?s = "s\<lparr>que := ?q, ppc := (ppc s)(i := PCounted p x)\<rparr>"
  note I = invD [OF assms(1)]
  note o = owner_facts [OF assms(1,2)]
  have oo: "owner_phase ?s = PCounted p x" using owner_upd' o(1) by simp
  have "count (que s) < 2 ^ 32 - 1" using I(2) assms(3) by (simp add: inv_count_def)
  note c = count_inc [OF this]
  have w: "Suc (card (waiters N (ppc ?s))) = card (waiters N (ppc s))"
    using waiters_out [of "ppc s" i "PCounted p x" N] o(3) assms(2) by (simp del: fun_upd_apply)
  show ?thesis
  proof (rule inv_owner_step [where q = ?q and i = i and v = "PCounted p x", OF assms(1,2)])
    show "inv_list ?s as xs" using I(1) o(2) oo by (simp add: inv_list_def)
    show "inv_phase ?s as" using I(3) o(2) oo by (simp add: inv_phase_def)
    show "inv_count N ?s as" using I(2) c w o(2) oo by (simp add: inv_count_def del: fun_upd_apply)
  qed simp_all
qed

lemma count_same: "waiting v = waiting (ppc s i) \<Longrightarrow> inv_count N s as \<Longrightarrow> in_flight (owner_phase s') = in_flight (owner_phase s) \<Longrightarrow>
    count (que s') = count (que s) \<Longrightarrow> cpc s' = cpc s \<Longrightarrow> ppc s' = (ppc s)(i := v) \<Longrightarrow> inv_count N s' as"
  by (simp add: inv_count_def waiters_same)

lemma inv_add_branch:
  assumes "qinv N s as xs" "ppc s i = PCounted p x" "if pHead (que s) = None then v = PFirst p x else v = PElse p x"
  shows "qinv N (s\<lparr>ppc := (ppc s)(i := v)\<rparr>) as xs"
proof -
  let ?s = "s\<lparr>ppc := (ppc s)(i := v)\<rparr>"
  note I = invD [OF assms(1)]
  note o = owner_facts [OF assms(1,2)]
  have v: "holding v" "node_of v = Some p" "end_of v = None" "in_flight v" "\<not> waiting v" using assms(3) by (auto split: if_splits)
  have oo: "owner_phase ?s = v" using owner_upd o(1) by simp
  have "seg (heap (que s)) (pHead (que s)) as xs None" using I(1) o(2) by (simp add: inv_list_def)
  note e = seg_end [OF this]
  show ?thesis
  proof (rule inv_owner_step [where q = "que s" and i = i and v = v, OF assms(1,2)])
    show "inv_list ?s as xs" using I(1) o(2) oo v by (simp add: inv_list_def)
    show "inv_phase ?s as" using I(3) oo e assms(3) by (auto simp: inv_phase_def split: if_splits)
    show "inv_count N ?s as" by (rule count_same [OF _ I(2)]) (use o(2) oo v assms(2) in simp_all)
  qed (use v in simp_all)
qed

lemma inv_add_fill:
  assumes "qinv N s as xs" "ppc s i = PFirst p x"
    and q: "q = (if m_iRecvNum (que s) > 1000000 then (que s)\<lparr>m_iRecvNum := 1, m_iProcessNum := 0\<rparr> else que s)"
  shows "qinv N (s\<lparr>que := q\<lparr>heap := (heap q)(p \<mapsto> filled x)\<rparr>, ppc := (ppc s)(i := PFilled p x)\<rparr>) as xs"
proof -
  let ?q = "q\<lparr>heap := (heap q)(p \<mapsto> filled x)\<rparr>"
  let ?s = "s\<lparr>que := ?q, ppc := (ppc s)(i := PFilled p x)\<rparr>"
  note I = invD [OF assms(1)]
  note o = owner_facts [OF assms(1,2)]
  have oo: "owner_phase ?s = PFilled p x" using owner_upd' o(1) by simp
  have nil: "as = []" using I(3) o(2) by (simp add: inv_phase_def)
  have idle: "cpc s 0 = CIdle \<or> (\<exists>f. cpc s 0 = CTaken f)" using I(3) nil by (simp add: inv_phase_def)
  then have "\<not> (cpc s 0 = CCounted \<or> (\<exists>f. cpc s 0 = CReady f))" by auto
  moreover have "length as + 1 = count (que s) + (if cpc s 0 = CCounted \<or> (\<exists>f. cpc s 0 = CReady f) then 1 else 0)"
    using I(2) o(2) by (simp add: inv_count_def)
  ultimately have c1: "count (que s) = 1" using nil by (simp only: if_False) simp
  have "count (r\<lparr>m_iRecvNum := 1, m_iProcessNum := 0\<rparr>) = 1" for r by (simp add: count_def)
  with c1 have c: "count q = 1" unfolding q by (simp only: split: if_split) simp
  have hq: "heap q = heap (que s)" "pHead q = pHead (que s)" "pTail q = pTail (que s)" by (simp_all add: q)
  show ?thesis
  proof (rule inv_owner_step [where q = ?q and i = i and v = "PFilled p x", OF assms(1,2)])
    show "inv_list ?s as xs" using I(1) o(2) oo nil hq by (cases xs) (simp_all add: inv_list_def)
    show "inv_phase ?s as" using I(3) o(2) oo nil by (simp add: inv_phase_def)
    show "inv_count N ?s as" by (rule count_same [OF _ I(2)]) (use o(2) oo assms(2) c c1 in simp_all)
  qed (simp_all add: hq)
qed

lemma filled_facts [simp]: "payload (filled x) = x" "next_node (filled x) = None"
  by (simp_all add: filled_def payload_def)

lemma inv_add_publish:
  assumes "qinv N s as xs" "ppc s i = PFilled p x"
  shows "qinv N (s\<lparr>que := (que s)\<lparr>pTail := Some p, pHead := Some p\<rparr>, sent := sent s @ [x], ppc := (ppc s)(i := PDone)\<rparr>) [p] [x]"
proof -
  let ?s = "s\<lparr>que := (que s)\<lparr>pTail := Some p, pHead := Some p\<rparr>, sent := sent s @ [x], ppc := (ppc s)(i := PDone)\<rparr>"
  note I = invD [OF assms(1)]
  note o = owner_facts [OF assms(1,2)]
  have oo: "owner_phase ?s = PDone" using owner_upd' o(1) by simp
  have nil: "as = []" "heap (que s) p = Some (filled x)" using I(3) o(2) by (simp_all only: inv_phase_def phase_simps)
  then have xs: "xs = []" using I(1) by (auto simp: inv_list_def dest: seg_length)
  have idle: "cpc s 0 = CIdle \<or> (\<exists>f. cpc s 0 = CTaken f)" using I(3) nil by (simp add: inv_phase_def)
  show ?thesis
  proof (rule invI)
    show "inv_list ?s [p] [x]" using I(1) oo nil xs by (simp add: inv_list_def)
    show "inv_phase ?s [p]" using oo idle by (auto simp: inv_phase_def)
    have "waiters N (ppc ?s) = waiters N (ppc s)" using waiters_same [of PDone "ppc s" i N] assms(2) by (simp del: fun_upd_apply)
    then show "inv_count N ?s [p]" using I(2) o(2) oo nil(1) by (simp add: inv_count_def del: fun_upd_apply)
    show "inv_locks N ?s" using inv_locks_same [OF I(4), of PDone i] o(3) assms(2) by (simp add: inv_locks_def del: fun_upd_apply)
    have n: "node_of (ppc s i) = Some p" using assms(2) by simp
    have "node_of (ppc ?s j) = Some a \<Longrightarrow> node_of (ppc s j) = Some a \<and> a \<noteq> p" for j a
    proof (cases "j = i")
      case False
      assume "node_of (ppc ?s j) = Some a"
      with False have "node_of (ppc s j) = Some a" by simp
      with n False I(5) show ?thesis unfolding inv_nodes_def by blast
    qed simp
    then show "inv_nodes ?s [p]" using I(5) unfolding inv_nodes_def by (simp del: fun_upd_apply) blast
  qed
qed

lemma inv_add_link:
  assumes "qinv N s as xs" "ppc s i = PElse p x" "pTail (que s) = Some t" "heap (que s) t = Some tn"
  shows "qinv N (s\<lparr>que := (que s)\<lparr>heap := (heap (que s))(t \<mapsto> tn\<lparr>next_node := Some p\<rparr>)\<rparr>, ppc := (ppc s)(i := PLinked p x)\<rparr>) as xs"
proof -
  let ?q = "(que s)\<lparr>heap := (heap (que s))(t \<mapsto> tn\<lparr>next_node := Some p\<rparr>)\<rparr>"
  let ?s = "s\<lparr>que := ?q, ppc := (ppc s)(i := PLinked p x)\<rparr>"
  note I = invD [OF assms(1)]
  note o = owner_facts [OF assms(1,2)]
  have oo: "owner_phase ?s = PLinked p x" using owner_upd' o(1) by simp
  have ne: "as \<noteq> []" using I(3) o(2) by (simp add: inv_phase_def)
  then have t: "last as = t" using I(1) assms(3) by (simp add: inv_list_def)
  show ?thesis
  proof (rule inv_owner_step [where q = ?q and i = i and v = "PLinked p x", OF assms(1,2)])
    have "seg (heap (que s)) (pHead (que s)) as xs None" "distinct as" using I(1) o(2) by (simp_all add: inv_list_def)
    from seg_link [OF this(1,2) ne, of tn "Some p"] assms(4) have
      "seg (heap ?q) (pHead (que s)) as xs (Some p)" by (simp add: t)
    then show "inv_list ?s as xs" using I(1) oo by (simp add: inv_list_def)
    show "inv_phase ?s as" using I(3) o(2) oo ne by (simp add: inv_phase_def)
    show "inv_count N ?s as" by (rule count_same [OF _ I(2)]) (use o(2) oo assms(2) in simp_all)
  qed (use assms(4) in auto)
qed

lemma inv_add_last:
  assumes "qinv N s as xs" "ppc s i = PLinked p x"
  shows "qinv N (s\<lparr>que := (que s)\<lparr>heap := (heap (que s))(p \<mapsto> filled x), pTail := Some p\<rparr>, sent := sent s @ [x],
      ppc := (ppc s)(i := PDone)\<rparr>) (as @ [p]) (xs @ [x])"
proof -
  let ?q = "(que s)\<lparr>heap := (heap (que s))(p \<mapsto> filled x), pTail := Some p\<rparr>"
  let ?s = "s\<lparr>que := ?q, sent := sent s @ [x], ppc := (ppc s)(i := PDone)\<rparr>"
  note I = invD [OF assms(1)]
  note o = owner_facts [OF assms(1,2)]
  have oo: "owner_phase ?s = PDone" using owner_upd' o(1) by simp
  have n: "node_of (ppc s i) = Some p" using assms(2) by simp
  then have np: "p \<notin> set as" using I(5) unfolding inv_nodes_def by blast
  show ?thesis
  proof (rule invI)
    show "inv_list ?s (as @ [p]) (xs @ [x])"
      using I(1) o(2) oo np seg_snoc [of "heap (que s)" "pHead (que s)" as xs p "filled x"] by (simp add: inv_list_def)
    show "inv_phase ?s (as @ [p])" using I(3) oo by (auto simp: inv_phase_def)
    have "waiters N (ppc ?s) = waiters N (ppc s)" using waiters_same [of PDone "ppc s" i N] assms(2) by (simp del: fun_upd_apply)
    then show "inv_count N ?s (as @ [p])" using I(2) o(2) oo by (simp add: inv_count_def del: fun_upd_apply)
    show "inv_locks N ?s" using inv_locks_same [OF I(4), of PDone i] o(3) assms(2) by (simp add: inv_locks_def del: fun_upd_apply)
    have "node_of (ppc ?s j) = Some a \<Longrightarrow> node_of (ppc s j) = Some a \<and> a \<noteq> p" for j a
    proof (cases "j = i")
      case False
      assume "node_of (ppc ?s j) = Some a"
      with False have "node_of (ppc s j) = Some a" by simp
      with n False I(5) show ?thesis unfolding inv_nodes_def by blast
    qed simp
    then show "inv_nodes ?s (as @ [p])" using I(5) unfolding inv_nodes_def by (simp del: fun_upd_apply) (metis fun_upd_apply option.distinct(1))
  qed
qed

lemma inv_add_unlock:
  assumes "qinv N s as xs" "ppc s i = PDone"
  shows "qinv N (s\<lparr>tailLock := None, ppc := (ppc s)(i := PIdle)\<rparr>) as xs"
proof -
  let ?s = "s\<lparr>tailLock := None, ppc := (ppc s)(i := PIdle)\<rparr>"
  note I = invD [OF assms(1)]
  note o = owner_facts [OF assms(1,2)]
  have oo: "owner_phase ?s = PIdle" by (simp add: owner_phase_def)
  show ?thesis
  proof (rule invI)
    show "inv_list ?s as xs" using I(1) o(2) oo by (simp add: inv_list_def)
    show "inv_phase ?s as" using I(3) oo by (simp add: inv_phase_def)
    have "waiters N (ppc ?s) = waiters N (ppc s)" using waiters_same [of PIdle "ppc s" i N] assms(2) by (simp del: fun_upd_apply)
    then show "inv_count N ?s as" using I(2) o(2) oo by (simp add: inv_count_def del: fun_upd_apply)
    have "holding (ppc ?s j) \<longleftrightarrow> tailLock ?s = Some (Producer j)" for j
      using I(4) o(1) by (cases "j = i") (simp_all add: inv_locks_def)
    then show "inv_locks N ?s" using I(4) o(4,5) unfolding inv_locks_def by simp
    show "inv_nodes ?s as" using inv_nodes_same [OF I(5), of PIdle i "que s"] unfolding inv_nodes_def by (simp del: fun_upd_apply)
  qed
qed

section \<open>Every step\<close>

lemma inv_step:
  assumes "tstep {0} N s s'" "qinv N s as xs" "N \<le> 1000000"
  shows "\<exists>as xs. qinv N s' as xs"
  using assms(1)
proof cases
  case (get_check k)
  then show ?thesis using inv_get_check [OF assms(2)] by auto
next
  case (get_lock k)
  moreover have "k = 0" using only_consumer [OF invD(4) [OF assms(2)], of k] get_lock by auto
  ultimately show ?thesis using inv_get_lock [OF assms(2)] by auto
next
  case (get_count k)
  moreover have "k = 0" using only_consumer [OF invD(4) [OF assms(2)], of k] get_count by auto
  ultimately show ?thesis using inv_get_count [OF assms(2)] by auto
next
  case (get_long k)
  moreover have "k = 0" using only_consumer [OF invD(4) [OF assms(2)], of k] get_long by auto
  ultimately show ?thesis using inv_get_long [OF assms(2)] by auto
next
  case (get_short k)
  moreover have "k = 0" using only_consumer [OF invD(4) [OF assms(2)], of k] get_short by auto
  ultimately show ?thesis using inv_get_short [OF assms(2)] by auto
next
  case (get_take k f p n)
  moreover have "k = 0" using only_consumer [OF invD(4) [OF assms(2)], of k] get_take by auto
  ultimately show ?thesis using inv_get_take [OF assms(2)] by blast
next
  case (get_unlock k f)
  moreover have "k = 0" using only_consumer [OF invD(4) [OF assms(2)], of k] get_unlock by auto
  ultimately show ?thesis using inv_get_unlock [OF assms(2)] by blast
next
  case add_new
  then show ?thesis using inv_add_new [OF assms(2)] by blast
next
  case add_full
  then show ?thesis using inv_add_check [OF assms(2)] by blast
next
  case add_room
  then show ?thesis using inv_add_check [OF assms(2)] by blast
next
  case add_lock
  then show ?thesis using inv_add_lock [OF assms(2)] by blast
next
  case add_count
  then show ?thesis using inv_add_count [OF assms(2) _ assms(3)] by blast
next
  case (add_first i p x)
  then have "qinv N s' as xs" using inv_add_branch [OF assms(2), of i p x "PFirst p x"] by auto
  then show ?thesis by blast
next
  case add_fill
  then show ?thesis using inv_add_fill [OF assms(2)] by blast
next
  case add_publish
  then show ?thesis using inv_add_publish [OF assms(2)] by blast
next
  case (add_else i p x)
  then have "qinv N s' as xs" using inv_add_branch [OF assms(2), of i p x "PElse p x"] by auto
  then show ?thesis by blast
next
  case add_link
  then show ?thesis using inv_add_link [OF assms(2)] by blast
next
  case add_last
  then show ?thesis using inv_add_last [OF assms(2)] by blast
next
  case add_unlock
  then show ?thesis using inv_add_unlock [OF assms(2)] by blast
qed

lemma inv_reach: "treach {0} N s \<Longrightarrow> N \<le> 1000000 \<Longrightarrow> \<exists>as xs. qinv N s as xs"
proof (induction rule: treach.induct)
  case start
  then show ?case using inv_init by blast
next
  case (move s s')
  then show ?case using inv_step by blast
qed

lemma seg_last_alloc: "seg h p as xs e \<Longrightarrow> as \<noteq> [] \<Longrightarrow> h (last as) \<noteq> None"
  by (rule seg_alloc) auto

lemma inv_no_fault:
  assumes "qinv N s as xs"
  shows "\<not> faults s"
proof -
  note I = invD [OF assms]
  have S: "seg (heap (que s)) (pHead (que s)) as xs (end_of (owner_phase s))" using I(1) by (simp add: inv_list_def)
  have "\<not> bad_pointer (que s) (pHead (que s))" if "cpc s k = CReady f" for k f
  proof -
    have "k = 0" using only_consumer [OF I(4), of k] that by auto
    then have ne: "as \<noteq> []" using I(3) that by (auto simp: inv_phase_def)
    with S show ?thesis by (cases as; cases xs) (auto simp: bad_pointer_def)
  qed
  moreover have "\<not> bad_pointer (que s) (pTail (que s))" if "ppc s i = PElse p x" for i p x
  proof -
    have ne: "as \<noteq> []" using owner_facts(2) [OF assms that] I(3) by (simp add: inv_phase_def)
    then show ?thesis using seg_last_alloc [OF S ne] I(1) by (simp add: inv_list_def bad_pointer_def)
  qed
  moreover have "\<not> bad_pointer (que s) (Some p)" if "ppc s i = PFirst p x \<or> ppc s i = PLinked p x" for i p x
  proof -
    have "node_of (ppc s i) = Some p" using that by auto
    then have "heap (que s) p \<noteq> None" using I(5) unfolding inv_nodes_def by blast
    then show ?thesis by (simp add: bad_pointer_def)
  qed
  ultimately show ?thesis unfolding faults_def by blast
qed

section \<open>Runs\<close>

definition th :: "(nat \<Rightarrow> node option) \<Rightarrow> nat option \<Rightarrow> nat option \<Rightarrow> 32 word \<Rightarrow> 32 word \<Rightarrow> nat option \<Rightarrow> owner option
    \<Rightarrow> cphase \<Rightarrow> cphase \<Rightarrow> pphase \<Rightarrow> msg list \<Rightarrow> msg list \<Rightarrow> threads" where
  "th h a b pn rn hl lk c0 c1 p0 xs ys = \<lparr>que = \<lparr>heap = h, pHead = a, pTail = b, m_iProcessNum = pn, m_iRecvNum = rn\<rparr>,
     headLock = hl, tailLock = lk, cpc = (\<lambda>_. CIdle)(0 := c0, 1 := c1), ppc = (\<lambda>_. PIdle)(0 := p0), sent = xs, got = ys\<rparr>"

abbreviation m0 :: msg where "m0 \<equiv> ([1], [], 0)"

lemma reach_go: "treach K N s \<Longrightarrow> tstep K N s s' \<Longrightarrow> s' = t \<Longrightarrow> treach K N t"
  by (auto intro: treach.move)

lemma th_simps [simp]: "que (th h a b pn rn hl lk c0 c1 p0 xs ys) = \<lparr>heap = h, pHead = a, pTail = b, m_iProcessNum = pn, m_iRecvNum = rn\<rparr>"
  "headLock (th h a b pn rn hl lk c0 c1 p0 xs ys) = hl" "tailLock (th h a b pn rn hl lk c0 c1 p0 xs ys) = lk"
  "cpc (th h a b pn rn hl lk c0 c1 p0 xs ys) 0 = c0" "cpc (th h a b pn rn hl lk c0 c1 p0 xs ys) (Suc 0) = c1"
  "ppc (th h a b pn rn hl lk c0 c1 p0 xs ys) 0 = p0"
  by (simp_all add: th_def)

lemma one_added:
  assumes "0 \<in> K"
  shows "treach K 1 (th [7 \<mapsto> filled m0] (Some 7) (Some 7) 0 1 None None CIdle CIdle PIdle [m0] [])"
proof -
  let ?h = "[7 \<mapsto> new_node] :: nat \<Rightarrow> node option" and ?f = "[7 \<mapsto> filled m0] :: nat \<Rightarrow> node option"
  have "treach K 1 (th Map.empty None None 0 0 None None CIdle CIdle PIdle [] [])"
    using treach.start by (simp add: th_def init_threads_def CQueue_def fun_upd_idem)
  then have "treach K 1 (th ?h None None 0 0 None None CIdle CIdle (PAlloc 7 m0) [] [])"
    by (rule reach_go) (rule add_new [of 0 _ _ 7 K m0], auto simp: th_def fun_eq_iff)
  then have "treach K 1 (th ?h None None 0 0 None None CIdle CIdle (PNew 7 m0) [] [])"
    by (rule reach_go) (rule add_room [of _ 0 7 m0], auto simp: th_def fun_eq_iff count_def)
  then have "treach K 1 (th ?h None None 0 0 None (Some (Producer 0)) CIdle CIdle (PLocked 7 m0) [] [])"
    by (rule reach_go) (rule add_lock [of _ 0 7 m0], auto simp: th_def fun_eq_iff count_def)
  then have "treach K 1 (th ?h None None 0 1 None (Some (Producer 0)) CIdle CIdle (PCounted 7 m0) [] [])"
    by (rule reach_go) (rule add_count [of _ 0 7 m0], auto simp: th_def fun_eq_iff count_def)
  then have "treach K 1 (th ?h None None 0 1 None (Some (Producer 0)) CIdle CIdle (PFirst 7 m0) [] [])"
    by (rule reach_go) (rule add_first [of _ 0 7 m0], auto simp: th_def fun_eq_iff count_def)
  then have "treach K 1 (th ?f None None 0 1 None (Some (Producer 0)) CIdle CIdle (PFilled 7 m0) [] [])"
    by (rule reach_go) (rule add_fill [of _ 0 7 m0], auto simp: th_def fun_eq_iff count_def)
  then have "treach K 1 (th ?f (Some 7) (Some 7) 0 1 None (Some (Producer 0)) CIdle CIdle PDone [m0] [])"
    by (rule reach_go) (rule add_publish [of _ 0 7 m0], auto simp: th_def fun_eq_iff count_def)
  then show ?thesis
    by (rule reach_go) (rule add_unlock [of _ 0], auto simp: th_def fun_eq_iff count_def)
qed

section \<open>The properties\<close>

text \<open>C3: with one consumer and any number of producers up to a million, no interleaving of their steps follows an invalid pointer, the elements taken out followed by those in the list are exactly the elements put in, in the order of the tail lock, and the list never exceeds its capacity by more than the number of producers.\<close>

theorem one_consumer_safe:
  assumes "treach {0} N s" "N \<le> 1000000"
  shows "\<not> faults s \<and> count (que s) \<le> 1000 + N
    \<and> (\<exists>as xs e. seg (heap (que s)) (pHead (que s)) as xs e \<and> sent s = got s @ xs)"
proof -
  from inv_reach [OF assms] obtain as xs where I: "qinv N s as xs" by blast
  then have "count (que s) \<le> 1000 + N" by (simp add: qinv_def inv_count_def)
  moreover have "seg (heap (que s)) (pHead (que s)) as xs (end_of (owner_phase s)) \<and> sent s = got s @ xs"
    using I by (simp add: qinv_def inv_list_def)
  ultimately show ?thesis using inv_no_fault [OF I] by blast
qed

theorem one_consumer_safe_witness:
  "\<exists>s. treach {0} 1 s \<and> sent s = [m0] \<and> \<not> faults s \<and> count (que s) \<le> 1000 + 1"
proof -
  let ?s = "th [7 \<mapsto> filled m0] (Some 7) (Some 7) 0 1 None None CIdle CIdle PIdle [m0] []"
  have r: "treach {0} 1 ?s" by (rule one_added) simp
  from one_consumer_safe [OF r] have "\<not> faults ?s" "count (que ?s) \<le> 1000 + 1" by simp_all
  moreover have "sent ?s = [m0]" by (simp add: th_def)
  ultimately show ?thesis using r by blast
qed

text \<open>Why one consumer: a run in which two consumers find the same element before either takes the lock ends in
  a state where a thread follows an invalid pointer. The program has one consumer for each of its queues.\<close>

lemma two_consumers_fault: "\<exists>s. treach {0, 1} 1 s \<and> faults s"
proof -
  let ?K = "{0, 1} :: nat set" and ?f = "[7 \<mapsto> filled m0] :: nat \<Rightarrow> node option"
  have "treach ?K 1 (th ?f (Some 7) (Some 7) 0 1 None None CIdle CIdle PIdle [m0] [])" by (rule one_added) simp
  then have "treach ?K 1 (th ?f (Some 7) (Some 7) 0 1 None None CChecked CIdle PIdle [m0] [])"
    by (rule reach_go) (rule get_check [of 0], auto simp: th_def fun_eq_iff)
  then have "treach ?K 1 (th ?f (Some 7) (Some 7) 0 1 None None CChecked CChecked PIdle [m0] [])"
    by (rule reach_go) (rule get_check [of 1], auto simp: th_def fun_eq_iff)
  then have "treach ?K 1 (th ?f (Some 7) (Some 7) 0 1 (Some 0) None CLocked CChecked PIdle [m0] [])"
    by (rule reach_go) (rule get_lock [of _ 0], auto simp: th_def fun_eq_iff)
  then have "treach ?K 1 (th ?f (Some 7) (Some 7) 1 1 (Some 0) None CCounted CChecked PIdle [m0] [])"
    by (rule reach_go) (rule get_count [of _ 0], auto simp: th_def fun_eq_iff)
  then have "treach ?K 1 (th ?f (Some 7) (Some 7) 1 1 (Some 0) (Some (Consumer 0)) (CReady True) CChecked PIdle [m0] [])"
    by (rule reach_go) (rule get_short [of _ 0], auto simp: th_def fun_eq_iff count_def)
  then have "treach ?K 1 (th Map.empty None (Some 7) 1 1 (Some 0) (Some (Consumer 0)) (CTaken True) CChecked PIdle [m0] [m0])"
    by (rule reach_go) (rule get_take [of _ 0 True 7 "filled m0"], auto simp: th_def fun_eq_iff)
  then have "treach ?K 1 (th Map.empty None (Some 7) 1 1 None None CIdle CChecked PIdle [m0] [m0])"
    by (rule reach_go) (rule get_unlock [of _ 0 True], auto simp: th_def fun_eq_iff)
  then have "treach ?K 1 (th Map.empty None (Some 7) 1 1 (Some 1) None CIdle CLocked PIdle [m0] [m0])"
    by (rule reach_go) (rule get_lock [of _ 1], auto simp: th_def fun_eq_iff)
  then have "treach ?K 1 (th Map.empty None (Some 7) 2 1 (Some 1) None CIdle CCounted PIdle [m0] [m0])"
    by (rule reach_go) (rule get_count [of _ 1], auto simp: th_def fun_eq_iff)
  then have r: "treach ?K 1 (th Map.empty None (Some 7) 2 1 (Some 1) None CIdle (CReady False) PIdle [m0] [m0])"
    by (rule reach_go) (rule get_long [of _ 1], auto simp: th_def fun_eq_iff count_def unsigned_minus_1_eq_mask mask_eq_exp_minus_1)
  have "faults (th Map.empty None (Some 7) 2 1 (Some 1) None CIdle (CReady False) PIdle [m0] [m0])"
    unfolding faults_def bad_pointer_def by (intro disjI1 exI [of _ "1 :: nat"] exI [of _ False]) (simp add: th_def)
  with r show ?thesis by blast
qed

end
