(* ===== verification/Box.thy ===== *)
theory Box
  imports Prelude
begin

text \<open>
  The table of the locker's boxes, class \<open>CBox\<close> of \<open>Box.h\<close> in the \<open>ssmapp\<close> directory. An array is a list
  (the NULL pointer the empty list: \<open>Init\<close> never allocates an array of no elements), an access outside
  it is \<open>None\<close>. Box and cabinet numbers and the counters are far from the bounds of \<open>int\<close> and are
  integers. \<open>_GetField\<close> and \<open>_GetFieldCount\<close> come from a library without source and are the parameters
  \<open>field\<close> and \<open>field_count\<close>; \<open>rand()\<close> is a parameter too. \<open>PrintAllStatus\<close> and \<open>PrintWarning\<close> only log.
\<close>

section \<open>The table\<close>

record box_size =
  size_l :: int
  size_w :: int
  size_h :: int

record cbox =
  m_iCabinetCount :: int
  m_piCabinetID :: "int list"
  m_piBoxCount :: "int list"
  m_iBoxCountTotal :: int
  m_piBoxHostTimeoutAvailable :: "int list"
  m_piBoxHostPackageAvailable :: "int list"
  m_piBoxLocalPackage :: "int list"
  m_piBoxHardwareNotEmpty :: "int list"
  m_piBoxHardwareClose :: "int list"
  m_piBoxSpec :: "int list"
  m_piBoxHigh :: "int list"
  m_piBoxLength :: "int list"
  m_piBoxWidth :: "int list"
  m_piBoxHeight :: "int list"
  m_piStatus :: "int list"
  m_piBoxHide :: "int list"
  m_piOpenFail :: "int list"
  m_piCloseFail :: "int list"
  m_piEmptyFail :: "int list"
  m_piNotEmptyFail :: "int list"
  m_pBoxName :: "bytes list"
  m_iOpenFailMaxTimes :: int
  m_iEmptyFailMaxTimes :: int
  m_iBoxSizeCount :: int
  m_pCBoxSize :: "box_size list"

definition at :: "'a list \<Rightarrow> int \<Rightarrow> 'a option" where
  "at xs i = (if 0 \<le> i \<and> i < int (length xs) then Some (xs ! nat i) else None)"

definition put_at :: "'a list \<Rightarrow> int \<Rightarrow> 'a \<Rightarrow> 'a list option" where
  "put_at xs i v = (if 0 \<le> i \<and> i < int (length xs) then Some (xs[nat i := v]) else None)"

text \<open>Storing to the first \<open>n\<close> elements.\<close>

definition put_first :: "'a list \<Rightarrow> int \<Rightarrow> 'a list \<Rightarrow> 'a list option" where
  "put_first xs n vs = (if n \<le> int (length xs) then Some (take (nat n) vs @ drop (nat n) xs) else None)"

definition CBox :: cbox where
  "CBox = \<lparr>m_iCabinetCount = 0, m_piCabinetID = [], m_piBoxCount = [], m_iBoxCountTotal = 0,
     m_piBoxHostTimeoutAvailable = [], m_piBoxHostPackageAvailable = [], m_piBoxLocalPackage = [],
     m_piBoxHardwareNotEmpty = [], m_piBoxHardwareClose = [], m_piBoxSpec = [], m_piBoxHigh = [],
     m_piBoxLength = [], m_piBoxWidth = [], m_piBoxHeight = [], m_piStatus = [], m_piBoxHide = [],
     m_piOpenFail = [], m_piCloseFail = [], m_piEmptyFail = [], m_piNotEmptyFail = [], m_pBoxName = [],
     m_iOpenFailMaxTimes = 3, m_iEmptyFailMaxTimes = 3, m_iBoxSizeCount = 0, m_pCBoxSize = []\<rparr>"

text \<open>A negative count makes \<open>new\<close> fail.\<close>

definition Init :: "int \<Rightarrow> int \<Rightarrow> int \<Rightarrow> cbox \<Rightarrow> (bool \<times> cbox) option" where
  "Init iCabinetCount iBoxCountTotal iBoxSizeCount b =
     (if iCabinetCount = 0 \<or> iBoxCountTotal = 0 \<or> iBoxSizeCount = 0 then Some (False, b)
      else if iCabinetCount < 0 \<or> iBoxCountTotal < 0 \<or> iBoxSizeCount < 0 then None
      else (let z = replicate (nat iBoxCountTotal) 0; c = replicate (nat iCabinetCount) 0 in
        Some (True, b\<lparr>m_iCabinetCount := iCabinetCount, m_piBoxCount := c, m_piCabinetID := c,
          m_iBoxCountTotal := iBoxCountTotal, m_piBoxHostTimeoutAvailable := z, m_piBoxHostPackageAvailable := z,
          m_piBoxLocalPackage := z, m_piBoxHardwareNotEmpty := z, m_piBoxHardwareClose := z, m_piBoxSpec := z,
          m_piBoxHigh := z, m_piBoxLength := z, m_piBoxWidth := z, m_piBoxHeight := z, m_piStatus := z,
          m_piBoxHide := z, m_piOpenFail := z, m_piCloseFail := z, m_piEmptyFail := z, m_piNotEmptyFail := z,
          m_pBoxName := replicate (nat iBoxCountTotal) [], m_iBoxSizeCount := iBoxSizeCount,
          m_pCBoxSize := replicate (nat iBoxSizeCount) \<lparr>size_l = 0, size_w = 0, size_h = 0\<rparr>\<rparr>)))"

section \<open>Filling the table\<close>

type_synonym fields = "bytes \<Rightarrow> nat \<Rightarrow> bytes"

definition numbers :: "fields \<Rightarrow> bytes \<Rightarrow> int \<Rightarrow> int list" where
  "numbers field data n = map (\<lambda>i. atol (field data (Suc i))) [0..<nat n]"

definition InitBoxCountBatch :: "(bytes \<Rightarrow> int) \<Rightarrow> fields \<Rightarrow> bytes \<Rightarrow> cbox \<Rightarrow> (bool \<times> cbox) option" where
  "InitBoxCountBatch field_count field data b =
     (if m_piBoxCount b = [] \<or> field_count data > m_iCabinetCount b then Some (False, b)
      else do { c \<leftarrow> put_first (m_piBoxCount b) (m_iCabinetCount b) (numbers field data (m_iCabinetCount b));
                Some (True, b\<lparr>m_piBoxCount := c\<rparr>) })"

text \<open>One box: its kind, and its dimensions when the kind is one of the sizes.\<close>

definition init_type :: "fields \<Rightarrow> bytes \<Rightarrow> cbox \<Rightarrow> nat \<Rightarrow> cbox option" where
  "init_type field data b i = (let v = atol (field data (Suc i)) in do {
     s \<leftarrow> put_at (m_piBoxSpec b) (int i) v;
     if 0 < v \<and> v \<le> m_iBoxSizeCount b then do {
       z \<leftarrow> at (m_pCBoxSize b) (v - 1);
       l \<leftarrow> put_at (m_piBoxLength b) (int i) (size_l z);
       h \<leftarrow> put_at (m_piBoxHeight b) (int i) (size_h z);
       w \<leftarrow> put_at (m_piBoxWidth b) (int i) (size_w z);
       Some (b\<lparr>m_piBoxSpec := s, m_piBoxLength := l, m_piBoxHeight := h, m_piBoxWidth := w\<rparr>) }
     else Some (b\<lparr>m_piBoxSpec := s\<rparr>) })"

fun init_types :: "fields \<Rightarrow> bytes \<Rightarrow> nat list \<Rightarrow> cbox \<Rightarrow> cbox option" where
  "init_types field data [] b = Some b"
| "init_types field data (i # is) b = do { b1 \<leftarrow> init_type field data b i; init_types field data is b1 }"

definition InitBoxTypeBatch :: "(bytes \<Rightarrow> int) \<Rightarrow> fields \<Rightarrow> bytes \<Rightarrow> cbox \<Rightarrow> (bool \<times> cbox) option" where
  "InitBoxTypeBatch field_count field data b =
     (if m_piBoxSpec b = [] \<or> field_count data < m_iBoxCountTotal b \<or> m_pCBoxSize b = [] then Some (False, b)
      else map_option (Pair True) (init_types field data [0..<nat (m_iBoxCountTotal b)] b))"

definition InitBoxHighBatch :: "(bytes \<Rightarrow> int) \<Rightarrow> fields \<Rightarrow> bytes \<Rightarrow> cbox \<Rightarrow> (bool \<times> cbox) option" where
  "InitBoxHighBatch field_count field data b =
     (if m_piBoxHigh b = [] \<or> field_count data > m_iBoxCountTotal b then Some (False, b)
      else do { c \<leftarrow> put_first (m_piBoxHigh b) (m_iBoxCountTotal b) (numbers field data (m_iBoxCountTotal b));
                Some (True, b\<lparr>m_piBoxHigh := c\<rparr>) })"

definition InitBoxNameBatch :: "(bytes \<Rightarrow> int) \<Rightarrow> fields \<Rightarrow> bytes \<Rightarrow> cbox \<Rightarrow> (bool \<times> cbox) option" where
  "InitBoxNameBatch field_count field data b =
     (if m_pBoxName b = [] \<or> field_count data > m_iBoxCountTotal b then Some (False, b)
      else do { c \<leftarrow> put_first (m_pBoxName b) (m_iBoxCountTotal b)
                  (map (\<lambda>i. field data (Suc i)) [0..<nat (m_iBoxCountTotal b)]);
                Some (True, b\<lparr>m_pBoxName := c\<rparr>) })"

definition InitBoxSize :: "int \<Rightarrow> int \<Rightarrow> int \<Rightarrow> int \<Rightarrow> cbox \<Rightarrow> (bool \<times> cbox) option" where
  "InitBoxSize no l w h b =
     (if m_iBoxSizeCount b = 0 \<or> no > m_iBoxSizeCount b then Some (False, b)
      else do { z \<leftarrow> put_at (m_pCBoxSize b) (no - 1) \<lparr>size_l = l, size_w = w, size_h = h\<rparr>;
                Some (True, b\<lparr>m_pCBoxSize := z\<rparr>) })"

section \<open>Reading and writing the columns\<close>

text \<open>The getters answer -1 outside the table; the setters take 0 for every box and check nothing else.\<close>

definition getter :: "int list \<Rightarrow> cbox \<Rightarrow> int \<Rightarrow> int option" where
  "getter xs b iLogicalBox =
     (if xs = [] \<or> iLogicalBox \<le> 0 \<or> iLogicalBox > m_iBoxCountTotal b then Some (- 1) else at xs (iLogicalBox - 1))"

definition setter :: "'a list \<Rightarrow> cbox \<Rightarrow> int \<Rightarrow> 'a \<Rightarrow> 'a list option" where
  "setter xs b iLogicalBox v =
     (if iLogicalBox = 0 then put_first xs (m_iBoxCountTotal b) (replicate (nat (m_iBoxCountTotal b)) v)
      else put_at xs (iLogicalBox - 1) v)"

definition GetStatus where "GetStatus b = getter (m_piStatus b) b"
definition GetBoxHostTimeoutAvailable where "GetBoxHostTimeoutAvailable b = getter (m_piBoxHostTimeoutAvailable b) b"
definition GetBoxHostPackageAvailable where "GetBoxHostPackageAvailable b = getter (m_piBoxHostPackageAvailable b) b"
definition GetBoxLocalPackage where "GetBoxLocalPackage b = getter (m_piBoxLocalPackage b) b"
definition GetBoxHardwareClose where "GetBoxHardwareClose b = getter (m_piBoxHardwareClose b) b"
definition GetBoxHardwareNotEmpty where "GetBoxHardwareNotEmpty b = getter (m_piBoxHardwareNotEmpty b) b"
definition GetBoxLength where "GetBoxLength b = getter (m_piBoxLength b) b"
definition GetBoxWidth where "GetBoxWidth b = getter (m_piBoxWidth b) b"
definition GetBoxHeight where "GetBoxHeight b = getter (m_piBoxHeight b) b"
definition GetBoxSpec where "GetBoxSpec b = getter (m_piBoxSpec b) b"
definition GetOpenFail where "GetOpenFail b = getter (m_piOpenFail b) b"
definition GetCloseFail where "GetCloseFail b = getter (m_piCloseFail b) b"
definition GetEmptyFail where "GetEmptyFail b = getter (m_piEmptyFail b) b"
definition GetNotEmptyFail where "GetNotEmptyFail b = getter (m_piNotEmptyFail b) b"

definition SetStatus where "SetStatus no v b = map_option (\<lambda>xs. b\<lparr>m_piStatus := xs\<rparr>) (setter (m_piStatus b) b no v)"
definition SetBoxHostTimeoutAvailable where "SetBoxHostTimeoutAvailable no v b =
  map_option (\<lambda>xs. b\<lparr>m_piBoxHostTimeoutAvailable := xs\<rparr>) (setter (m_piBoxHostTimeoutAvailable b) b no v)"
definition SetBoxHostPackageAvailable where "SetBoxHostPackageAvailable no v b =
  map_option (\<lambda>xs. b\<lparr>m_piBoxHostPackageAvailable := xs\<rparr>) (setter (m_piBoxHostPackageAvailable b) b no v)"
definition SetBoxLocalPackage where "SetBoxLocalPackage no v b =
  map_option (\<lambda>xs. b\<lparr>m_piBoxLocalPackage := xs\<rparr>) (setter (m_piBoxLocalPackage b) b no v)"
definition SetBoxHardwareClose where "SetBoxHardwareClose no v b =
  map_option (\<lambda>xs. b\<lparr>m_piBoxHardwareClose := xs\<rparr>) (setter (m_piBoxHardwareClose b) b no v)"
definition SetBoxHardwareNotEmpty where "SetBoxHardwareNotEmpty no v b =
  map_option (\<lambda>xs. b\<lparr>m_piBoxHardwareNotEmpty := xs\<rparr>) (setter (m_piBoxHardwareNotEmpty b) b no v)"
definition SetBoxHide where "SetBoxHide no v b = map_option (\<lambda>xs. b\<lparr>m_piBoxHide := xs\<rparr>) (setter (m_piBoxHide b) b no v)"
definition SetOpenFail where "SetOpenFail no v b = map_option (\<lambda>xs. b\<lparr>m_piOpenFail := xs\<rparr>) (setter (m_piOpenFail b) b no v)"
definition SetCloseFail where "SetCloseFail no v b = map_option (\<lambda>xs. b\<lparr>m_piCloseFail := xs\<rparr>) (setter (m_piCloseFail b) b no v)"
definition SetEmptyFail where "SetEmptyFail no v b = map_option (\<lambda>xs. b\<lparr>m_piEmptyFail := xs\<rparr>) (setter (m_piEmptyFail b) b no v)"
definition SetNotEmptyFail where "SetNotEmptyFail no v b =
  map_option (\<lambda>xs. b\<lparr>m_piNotEmptyFail := xs\<rparr>) (setter (m_piNotEmptyFail b) b no v)"

text \<open>With number 0 \<open>SetBoxName\<close> empties the names, whatever the second argument.\<close>

definition SetBoxName :: "int \<Rightarrow> bytes \<Rightarrow> cbox \<Rightarrow> cbox option" where
  "SetBoxName no name b =
     map_option (\<lambda>xs. b\<lparr>m_pBoxName := xs\<rparr>) (setter (m_pBoxName b) b no (if no = 0 then [] else name))"

definition GetBoxName :: "cbox \<Rightarrow> int \<Rightarrow> bytes option" where
  "GetBoxName b no = (if m_pBoxName b = [] \<or> no \<le> 0 \<or> no > m_iBoxCountTotal b then Some []
     else at (m_pBoxName b) (no - 1))"

fun find_name :: "bytes \<Rightarrow> bytes list \<Rightarrow> nat \<Rightarrow> nat \<Rightarrow> int option" where
  "find_name name xs i 0 = Some (- 1)"
| "find_name name [] i (Suc n) = None"
| "find_name name (x # xs) i (Suc n) = (if name = x then Some (int i + 1) else find_name name xs (Suc i) n)"

definition GetLogicalBoxByBoxName :: "cbox \<Rightarrow> bytes \<Rightarrow> int option" where
  "GetLogicalBoxByBoxName b name =
     (if name \<noteq> [] then find_name name (m_pBoxName b) 0 (nat (m_iBoxCountTotal b)) else Some (- 1))"

definition SetAllowErrorTimes :: "int \<Rightarrow> int \<Rightarrow> cbox \<Rightarrow> cbox" where
  "SetAllowErrorTimes iOpen iEmpty b =
     (let b1 = (if 0 < iOpen then b\<lparr>m_iOpenFailMaxTimes := iOpen\<rparr> else b) in
      if 0 < iEmpty then b1\<lparr>m_iEmptyFailMaxTimes := iEmpty\<rparr> else b1)"

definition SetCabinetID where "SetCabinetID no v b = map_option (\<lambda>xs. b\<lparr>m_piCabinetID := xs\<rparr>) (put_at (m_piCabinetID b) (no - 1) v)"
definition GetCabinetID where "GetCabinetID b no =
  (if no \<le> 0 \<or> no > m_iCabinetCount b then Some (- 1) else at (m_piCabinetID b) (no - 1))"
definition SetBoxCount where "SetBoxCount no v b = map_option (\<lambda>xs. b\<lparr>m_piBoxCount := xs\<rparr>) (put_at (m_piBoxCount b) (no - 1) v)"
definition GetBoxCount where "GetBoxCount b no = at (m_piBoxCount b) (no - 1)"
definition SetBoxCountTotal where "SetBoxCountTotal n b = b\<lparr>m_iBoxCountTotal := min (m_iBoxCountTotal b) n\<rparr>"
definition SetCabinetCount where "SetCabinetCount n b = b\<lparr>m_iCabinetCount := min (m_iCabinetCount b) n\<rparr>"
definition SetBoxSizeCount where "SetBoxSizeCount n b = b\<lparr>m_iBoxSizeCount := min (m_iBoxSizeCount b) n\<rparr>"

definition GetClassifyBoxSpec :: "cbox \<Rightarrow> int \<Rightarrow> int option" where
  "GetClassifyBoxSpec b no =
     (if no > 0 \<and> no \<le> m_iBoxCountTotal b then at (m_piBoxSpec b) (no - 1) else Some (- 1))"

section \<open>Logical boxes and physical boxes\<close>

text \<open>The loops over the cabinets: numbers of boxes (and identifiers) still to be read, and how many the
  loop still reads.\<close>

fun physical_box :: "int list \<Rightarrow> nat \<Rightarrow> int \<Rightarrow> int option" where
  "physical_box cs 0 no = Some (- 1)"
| "physical_box [] (Suc n) no = None"
| "physical_box (c # cs) (Suc n) no = (if no \<le> c then Some no else physical_box cs n (no - c))"

definition GetPhysicalBox :: "cbox \<Rightarrow> int \<Rightarrow> int option" where
  "GetPhysicalBox b = physical_box (m_piBoxCount b) (nat (m_iCabinetCount b))"

fun physical_cabinet :: "int list \<Rightarrow> int list \<Rightarrow> nat \<Rightarrow> int \<Rightarrow> int option" where
  "physical_cabinet cs ids 0 no = Some (- 1)"
| "physical_cabinet (c # cs) (k # ids) (Suc n) no =
     (if no \<le> c then Some (if k > 0 then k else - 1) else physical_cabinet cs ids n (no - c))"
| "physical_cabinet _ _ (Suc n) no = None"

definition GetPhysicalCabinet :: "cbox \<Rightarrow> int \<Rightarrow> int option" where
  "GetPhysicalCabinet b = physical_cabinet (m_piBoxCount b) (m_piCabinetID b) (nat (m_iCabinetCount b))"

text \<open>The last cabinet with the identifier.\<close>

definition cabinet_no :: "cbox \<Rightarrow> int \<Rightarrow> int option" where
  "cabinet_no b k = (let n = nat (m_iCabinetCount b) in
     if n > length (m_piCabinetID b) then None
     else Some (foldl (\<lambda>r i. if m_piCabinetID b ! i = k then int i else r) (- 1) [0..<n]))"

definition boxes_before :: "cbox \<Rightarrow> int \<Rightarrow> int option" where
  "boxes_before b n = (if nat n > length (m_piBoxCount b) then None else Some (sum_list (take (nat n) (m_piBoxCount b))))"

definition GetLogicalBoxByPhysicalCabinetID :: "cbox \<Rightarrow> int \<Rightarrow> int \<Rightarrow> int option" where
  "GetLogicalBoxByPhysicalCabinetID b k box = do {
     n \<leftarrow> cabinet_no b k;
     if n > - 1 then map_option (\<lambda>m. box + m) (boxes_before b n) else Some (- 1) }"

definition GetLogicalBoxByPhysicalCabinetNO :: "cbox \<Rightarrow> int \<Rightarrow> int \<Rightarrow> int option" where
  "GetLogicalBoxByPhysicalCabinetNO b n box =
     (if n < 0 \<or> n > m_iCabinetCount b - 1 \<or> box = 0 then Some (- 1)
      else map_option (\<lambda>m. box + m) (boxes_before b n))"

section \<open>Status\<close>

text \<open>0 empty, 1 timed out, 2 holding a parcel, 3 out of order. The tests of the source, in its order.\<close>

definition box_status :: "cbox \<Rightarrow> nat \<Rightarrow> int option" where
  "box_status b i = do {
     spec \<leftarrow> at (m_piBoxSpec b) (int i);
     if spec = 0 then Some 3 else do {
     timeout \<leftarrow> at (m_piBoxHostTimeoutAvailable b) (int i);
     parcel \<leftarrow> at (m_piBoxLocalPackage b) (int i);
     if timeout \<noteq> 0 \<and> parcel \<noteq> 0 then Some 1
     else if parcel \<noteq> 0 then Some 2 else do {
     sensor \<leftarrow> at (m_piBoxHardwareNotEmpty b) (int i);
     if sensor \<noteq> 0 then Some 3 else do {
     ne \<leftarrow> GetNotEmptyFail b (int i + 1);
     if m_iEmptyFailMaxTimes b \<le> ne then Some 3 else do {
     op \<leftarrow> GetOpenFail b (int i + 1);
     if m_iOpenFailMaxTimes b \<le> op then Some 3 else Some 0 }}}}}"

definition UpdateStatus :: "cbox \<Rightarrow> cbox option" where
  "UpdateStatus b = do {
     vs \<leftarrow> those (map (box_status b) [0..<nat (m_iBoxCountTotal b)]);
     xs \<leftarrow> put_first (m_piStatus b) (m_iBoxCountTotal b) vs;
     Some (b\<lparr>m_piStatus := xs\<rparr>) }"

section \<open>Choosing a box\<close>

text \<open>-1 stands for any value; hidden boxes do not count.\<close>

definition classified :: "cbox \<Rightarrow> int \<Rightarrow> int \<Rightarrow> int \<Rightarrow> nat \<Rightarrow> bool option" where
  "classified b iStatus iSpec iHigh i = do {
     s \<leftarrow> at (m_piStatus b) (int i); k \<leftarrow> at (m_piBoxSpec b) (int i); h \<leftarrow> at (m_piBoxHigh b) (int i);
     d \<leftarrow> at (m_piBoxHide b) (int i);
     Some ((iStatus = - 1 \<or> s = iStatus) \<and> (iSpec = - 1 \<or> k = iSpec) \<and> (iHigh = - 1 \<or> h = iHigh) \<and> d = 0) }"

definition GetClassifyBoxCount :: "cbox \<Rightarrow> int \<Rightarrow> int \<Rightarrow> int \<Rightarrow> int option" where
  "GetClassifyBoxCount b iStatus iSpec iHigh = do {
     cs \<leftarrow> those (map (classified b iStatus iSpec iHigh) [0..<nat (m_iBoxCountTotal b)]);
     Some (int (length (filter id cs))) }"

fun nth_classified :: "bool list \<Rightarrow> nat \<Rightarrow> nat \<Rightarrow> int" where
  "nth_classified [] i k = - 1"
| "nth_classified (c # cs) i k =
     (if c then (if k = 0 then int i + 1 else nth_classified cs (Suc i) (k - 1)) else nth_classified cs (Suc i) k)"

definition GetClassifyBoxID :: "nat \<Rightarrow> cbox \<Rightarrow> int \<Rightarrow> int \<Rightarrow> int \<Rightarrow> int option" where
  "GetClassifyBoxID rand b iStatus iSpec iHigh = do {
     n \<leftarrow> GetClassifyBoxCount b iStatus iSpec iHigh;
     if n \<le> 0 then Some (- 1) else do {
       cs \<leftarrow> those (map (classified b iStatus iSpec iHigh) [0..<nat (m_iBoxCountTotal b)]);
       Some (nth_classified cs 0 (rand mod nat n)) } }"

end
