(* ===== verification/BoxProofs.thy ===== *)
theory BoxProofs
  imports Box
begin

text \<open>
  Correctness of the box table: the invariant \<open>box_ok\<close> (every column covers the boxes it is read for)
  holds in every table the operations can build (\<open>box_reach\<close>), so no access of the reading operations is
  outside an array; the status column is the function \<open>status_of\<close> of the others; the choice of a box is
  sound and complete; logical numbers and pairs of cabinet and physical number are in bijection.
\<close>

section \<open>The invariant\<close>

definition columns :: "cbox \<Rightarrow> int list list" where
  "columns b = [m_piBoxHostTimeoutAvailable b, m_piBoxHostPackageAvailable b, m_piBoxLocalPackage b,
     m_piBoxHardwareNotEmpty b, m_piBoxHardwareClose b, m_piBoxSpec b, m_piBoxHigh b, m_piBoxLength b, m_piBoxWidth b,
     m_piBoxHeight b, m_piStatus b, m_piBoxHide b, m_piOpenFail b, m_piCloseFail b, m_piEmptyFail b, m_piNotEmptyFail b]"

definition box_ok :: "cbox \<Rightarrow> bool" where
  "box_ok b \<longleftrightarrow> list_all (\<lambda>xs. m_iBoxCountTotal b \<le> int (length xs)) (columns b)
     \<and> m_iBoxCountTotal b \<le> int (length (m_pBoxName b))
     \<and> m_iCabinetCount b \<le> int (length (m_piCabinetID b)) \<and> m_iCabinetCount b \<le> int (length (m_piBoxCount b))
     \<and> m_iBoxSizeCount b \<le> int (length (m_pCBoxSize b))"

lemmas box_defs = box_ok_def columns_def

lemma put_at_len: "put_at xs i v = Some ys \<Longrightarrow> length ys = length xs"
  by (auto simp: put_at_def split: if_splits)

lemma put_first_len: "put_first xs n vs = Some ys \<Longrightarrow> length vs = nat n \<Longrightarrow> length ys = length xs"
  by (auto simp: put_first_def split: if_splits)

lemma setter_len: "setter xs b no v = Some ys \<Longrightarrow> length ys = length xs"
  by (auto simp: setter_def dest: put_at_len put_first_len split: if_splits)

lemma those_some: "(\<And>i. i \<in> set is \<Longrightarrow> f i = Some (g i)) \<Longrightarrow> those (map f is) = Some (map g is)"
  by (induction "is") auto

lemma those_len: "those xs = Some ys \<Longrightarrow> length ys = length xs"
  by (induction xs arbitrary: ys) (auto split: option.splits)

lemma Init_ok: "Init c t s b = Some (True, b') \<Longrightarrow> box_ok b'"
  by (auto simp: Init_def Let_def box_defs split: if_splits)

lemma init_type_ok: "box_ok b \<Longrightarrow> init_type field data b i = Some b' \<Longrightarrow> box_ok b' \<and> m_iBoxCountTotal b' = m_iBoxCountTotal b"
  by (auto simp: init_type_def Let_def box_defs dest!: put_at_len split: if_splits Option.bind_splits)

lemma init_types_ok: "box_ok b \<Longrightarrow> init_types field data is b = Some b' \<Longrightarrow> box_ok b'"
  by (induction "is" arbitrary: b) (auto split: Option.bind_splits dest: init_type_ok)

lemma numbers_len [simp]: "length (numbers field data n) = nat n"
  by (simp add: numbers_def)

lemma counts_ok: "box_ok b \<Longrightarrow> InitBoxCountBatch fc field data b = Some (r, b1) \<Longrightarrow> box_ok b1"
  by (auto simp: InitBoxCountBatch_def box_defs dest!: put_first_len split: if_splits Option.bind_splits)

lemma types_ok: "box_ok b \<Longrightarrow> InitBoxTypeBatch fc field data b = Some (r, b1) \<Longrightarrow> box_ok b1"
  using init_types_ok by (auto simp: InitBoxTypeBatch_def split: if_splits)

lemma highs_ok: "box_ok b \<Longrightarrow> InitBoxHighBatch fc field data b = Some (r, b1) \<Longrightarrow> box_ok b1"
  by (auto simp: InitBoxHighBatch_def box_defs dest!: put_first_len split: if_splits Option.bind_splits)

lemma names_ok: "box_ok b \<Longrightarrow> InitBoxNameBatch fc field data b = Some (r, b1) \<Longrightarrow> box_ok b1"
  by (auto simp: InitBoxNameBatch_def box_defs dest!: put_first_len split: if_splits Option.bind_splits)

lemma sizes_ok: "box_ok b \<Longrightarrow> InitBoxSize no l w h b = Some (r, b1) \<Longrightarrow> box_ok b1"
  by (auto simp: InitBoxSize_def box_defs dest!: put_at_len split: if_splits Option.bind_splits)

lemma SetStatus_ok: "box_ok b \<Longrightarrow> SetStatus no v b = Some b1 \<Longrightarrow> box_ok b1"
  by (auto simp: SetStatus_def box_defs dest!: setter_len put_at_len)

lemma SetBoxHostTimeoutAvailable_ok: "box_ok b \<Longrightarrow> SetBoxHostTimeoutAvailable no v b = Some b1 \<Longrightarrow> box_ok b1"
  by (auto simp: SetBoxHostTimeoutAvailable_def box_defs dest!: setter_len put_at_len)

lemma SetBoxHostPackageAvailable_ok: "box_ok b \<Longrightarrow> SetBoxHostPackageAvailable no v b = Some b1 \<Longrightarrow> box_ok b1"
  by (auto simp: SetBoxHostPackageAvailable_def box_defs dest!: setter_len put_at_len)

lemma SetBoxLocalPackage_ok: "box_ok b \<Longrightarrow> SetBoxLocalPackage no v b = Some b1 \<Longrightarrow> box_ok b1"
  by (auto simp: SetBoxLocalPackage_def box_defs dest!: setter_len put_at_len)

lemma SetBoxHardwareClose_ok: "box_ok b \<Longrightarrow> SetBoxHardwareClose no v b = Some b1 \<Longrightarrow> box_ok b1"
  by (auto simp: SetBoxHardwareClose_def box_defs dest!: setter_len put_at_len)

lemma SetBoxHardwareNotEmpty_ok: "box_ok b \<Longrightarrow> SetBoxHardwareNotEmpty no v b = Some b1 \<Longrightarrow> box_ok b1"
  by (auto simp: SetBoxHardwareNotEmpty_def box_defs dest!: setter_len put_at_len)

lemma SetBoxHide_ok: "box_ok b \<Longrightarrow> SetBoxHide no v b = Some b1 \<Longrightarrow> box_ok b1"
  by (auto simp: SetBoxHide_def box_defs dest!: setter_len put_at_len)

lemma SetOpenFail_ok: "box_ok b \<Longrightarrow> SetOpenFail no v b = Some b1 \<Longrightarrow> box_ok b1"
  by (auto simp: SetOpenFail_def box_defs dest!: setter_len put_at_len)

lemma SetCloseFail_ok: "box_ok b \<Longrightarrow> SetCloseFail no v b = Some b1 \<Longrightarrow> box_ok b1"
  by (auto simp: SetCloseFail_def box_defs dest!: setter_len put_at_len)

lemma SetEmptyFail_ok: "box_ok b \<Longrightarrow> SetEmptyFail no v b = Some b1 \<Longrightarrow> box_ok b1"
  by (auto simp: SetEmptyFail_def box_defs dest!: setter_len put_at_len)

lemma SetNotEmptyFail_ok: "box_ok b \<Longrightarrow> SetNotEmptyFail no v b = Some b1 \<Longrightarrow> box_ok b1"
  by (auto simp: SetNotEmptyFail_def box_defs dest!: setter_len put_at_len)

lemma SetBoxName_ok: "box_ok b \<Longrightarrow> SetBoxName no v b = Some b1 \<Longrightarrow> box_ok b1"
  by (auto simp: SetBoxName_def box_defs dest!: setter_len put_at_len)

lemma SetCabinetID_ok: "box_ok b \<Longrightarrow> SetCabinetID no v b = Some b1 \<Longrightarrow> box_ok b1"
  by (auto simp: SetCabinetID_def box_defs dest!: setter_len put_at_len)

lemma SetBoxCount_ok: "box_ok b \<Longrightarrow> SetBoxCount no v b = Some b1 \<Longrightarrow> box_ok b1"
  by (auto simp: SetBoxCount_def box_defs dest!: setter_len put_at_len)

lemma UpdateStatus_ok: "box_ok b \<Longrightarrow> UpdateStatus b = Some b1 \<Longrightarrow> box_ok b1"
  by (auto simp: UpdateStatus_def box_defs dest!: those_len put_first_len split: Option.bind_splits)

lemma others_ok: "box_ok b \<Longrightarrow> box_ok (SetAllowErrorTimes x y b)" "box_ok b \<Longrightarrow> box_ok (SetBoxCountTotal n b)"
  "box_ok b \<Longrightarrow> box_ok (SetCabinetCount n b)" "box_ok b \<Longrightarrow> box_ok (SetBoxSizeCount n b)"
  by (auto simp: SetAllowErrorTimes_def SetBoxCountTotal_def SetCabinetCount_def SetBoxSizeCount_def Let_def box_defs)

section \<open>Every table the program can build\<close>

inductive box_reach :: "cbox \<Rightarrow> bool" where
  start: "box_reach CBox"
| init: "box_reach b \<Longrightarrow> Init c t s b = Some (r, b') \<Longrightarrow> box_reach b'"
| counts: "box_reach b \<Longrightarrow> InitBoxCountBatch fc field data b = Some (r, b') \<Longrightarrow> box_reach b'"
| types: "box_reach b \<Longrightarrow> InitBoxTypeBatch fc field data b = Some (r, b') \<Longrightarrow> box_reach b'"
| highs: "box_reach b \<Longrightarrow> InitBoxHighBatch fc field data b = Some (r, b') \<Longrightarrow> box_reach b'"
| names: "box_reach b \<Longrightarrow> InitBoxNameBatch fc field data b = Some (r, b') \<Longrightarrow> box_reach b'"
| sizes: "box_reach b \<Longrightarrow> InitBoxSize no l w h b = Some (r, b') \<Longrightarrow> box_reach b'"
| update: "box_reach b \<Longrightarrow> UpdateStatus b = Some b' \<Longrightarrow> box_reach b'"
| status: "box_reach b \<Longrightarrow> SetStatus no v b = Some b' \<Longrightarrow> box_reach b'"
| host_timeout: "box_reach b \<Longrightarrow> SetBoxHostTimeoutAvailable no v b = Some b' \<Longrightarrow> box_reach b'"
| host_package: "box_reach b \<Longrightarrow> SetBoxHostPackageAvailable no v b = Some b' \<Longrightarrow> box_reach b'"
| local_package: "box_reach b \<Longrightarrow> SetBoxLocalPackage no v b = Some b' \<Longrightarrow> box_reach b'"
| hardware_close: "box_reach b \<Longrightarrow> SetBoxHardwareClose no v b = Some b' \<Longrightarrow> box_reach b'"
| hardware_not_empty: "box_reach b \<Longrightarrow> SetBoxHardwareNotEmpty no v b = Some b' \<Longrightarrow> box_reach b'"
| hide: "box_reach b \<Longrightarrow> SetBoxHide no v b = Some b' \<Longrightarrow> box_reach b'"
| open_fail: "box_reach b \<Longrightarrow> SetOpenFail no v b = Some b' \<Longrightarrow> box_reach b'"
| close_fail: "box_reach b \<Longrightarrow> SetCloseFail no v b = Some b' \<Longrightarrow> box_reach b'"
| empty_fail: "box_reach b \<Longrightarrow> SetEmptyFail no v b = Some b' \<Longrightarrow> box_reach b'"
| not_empty_fail: "box_reach b \<Longrightarrow> SetNotEmptyFail no v b = Some b' \<Longrightarrow> box_reach b'"
| name: "box_reach b \<Longrightarrow> SetBoxName no nm b = Some b' \<Longrightarrow> box_reach b'"
| cabinet_id: "box_reach b \<Longrightarrow> SetCabinetID no v b = Some b' \<Longrightarrow> box_reach b'"
| box_count: "box_reach b \<Longrightarrow> SetBoxCount no v b = Some b' \<Longrightarrow> box_reach b'"
| allow: "box_reach b \<Longrightarrow> box_reach (SetAllowErrorTimes x y b)"
| total: "box_reach b \<Longrightarrow> box_reach (SetBoxCountTotal n b)"
| cabinets: "box_reach b \<Longrightarrow> box_reach (SetCabinetCount n b)"
| size_count: "box_reach b \<Longrightarrow> box_reach (SetBoxSizeCount n b)"

lemma Init_keeps: "box_ok b \<Longrightarrow> Init c t s b = Some (r, b') \<Longrightarrow> box_ok b'"
  using Init_ok by (cases r) (auto simp: Init_def Let_def split: if_splits)

lemmas ops_ok = Init_keeps counts_ok types_ok highs_ok names_ok sizes_ok UpdateStatus_ok
  SetStatus_ok SetBoxHostTimeoutAvailable_ok SetBoxHostPackageAvailable_ok SetBoxLocalPackage_ok SetBoxHardwareClose_ok SetBoxHardwareNotEmpty_ok SetBoxHide_ok
  SetOpenFail_ok SetCloseFail_ok SetEmptyFail_ok SetNotEmptyFail_ok SetBoxName_ok SetCabinetID_ok SetBoxCount_ok others_ok

lemma reach_ok: "box_reach b \<Longrightarrow> box_ok b"
proof (induction rule: box_reach.induct)
  case start
  then show ?case by (simp add: box_defs CBox_def)
qed (erule (1) ops_ok | erule ops_ok)+

lemma getter_total: "m_iBoxCountTotal b \<le> int (length xs) \<Longrightarrow> \<exists>v. getter xs b no = Some v"
  by (auto simp: getter_def at_def)

lemma at_some: "0 \<le> i \<Longrightarrow> i < int (length xs) \<Longrightarrow> at xs i = Some (xs ! nat i)"
  by (simp add: at_def)

lemma ok_len:
  assumes "box_ok b" "int i < m_iBoxCountTotal b"
  shows "i < length (m_piBoxHostTimeoutAvailable b)" "i < length (m_piBoxLocalPackage b)"
    "i < length (m_piBoxHardwareNotEmpty b)" "i < length (m_piBoxSpec b)" "i < length (m_piStatus b)"
    "i < length (m_piBoxHigh b)" "i < length (m_piBoxHide b)" "i < length (m_piOpenFail b)" "i < length (m_piNotEmptyFail b)"
  using assms by (auto simp: box_defs)

lemma getter_in: "i < length xs \<Longrightarrow> int i < m_iBoxCountTotal b \<Longrightarrow> getter xs b (int i + 1) = Some (xs ! i)"
  by (auto simp: getter_def at_def)

text \<open>What the status of a box says, in one formula.\<close>

definition in_order :: "cbox \<Rightarrow> nat \<Rightarrow> bool" where
  "in_order b i \<longleftrightarrow> m_piBoxSpec b ! i \<noteq> 0 \<and> m_piBoxHardwareNotEmpty b ! i = 0
     \<and> m_piNotEmptyFail b ! i < m_iEmptyFailMaxTimes b \<and> m_piOpenFail b ! i < m_iOpenFailMaxTimes b"

definition status_of :: "cbox \<Rightarrow> nat \<Rightarrow> int" where
  "status_of b i = (if m_piBoxSpec b ! i = 0 then 3
     else if m_piBoxLocalPackage b ! i \<noteq> 0 then (if m_piBoxHostTimeoutAvailable b ! i \<noteq> 0 then 1 else 2)
     else if in_order b i then 0 else 3)"

lemma box_status_of: "box_ok b \<Longrightarrow> int i < m_iBoxCountTotal b \<Longrightarrow> box_status b i = Some (status_of b i)"
  using ok_len [of b i]
  by (simp add: box_status_def status_of_def in_order_def at_some GetNotEmptyFail_def GetOpenFail_def getter_in not_le)

lemma UpdateStatus_of: "box_ok b \<Longrightarrow> UpdateStatus b = Some (b\<lparr>m_piStatus :=
    map (status_of b) [0..<nat (m_iBoxCountTotal b)] @ drop (nat (m_iBoxCountTotal b)) (m_piStatus b)\<rparr>)"
proof -
  assume ok: "box_ok b"
  have "those (map (box_status b) [0..<nat (m_iBoxCountTotal b)]) = Some (map (status_of b) [0..<nat (m_iBoxCountTotal b)])"
    by (rule those_some) (use box_status_of [OF ok] in auto)
  moreover have "m_iBoxCountTotal b \<le> int (length (m_piStatus b))" using ok by (simp add: box_defs)
  ultimately show ?thesis by (simp add: UpdateStatus_def put_first_def)
qed

section \<open>Choosing a box\<close>

definition qualifies :: "cbox \<Rightarrow> int \<Rightarrow> int \<Rightarrow> int \<Rightarrow> nat \<Rightarrow> bool" where
  "qualifies b s k h i \<longleftrightarrow> (s = - 1 \<or> m_piStatus b ! i = s) \<and> (k = - 1 \<or> m_piBoxSpec b ! i = k)
     \<and> (h = - 1 \<or> m_piBoxHigh b ! i = h) \<and> m_piBoxHide b ! i = 0"

lemma classified_of: "box_ok b \<Longrightarrow> int i < m_iBoxCountTotal b \<Longrightarrow> classified b s k h i = Some (qualifies b s k h i)"
  using ok_len [of b i] by (simp add: classified_def qualifies_def at_some)

definition chosen :: "cbox \<Rightarrow> int \<Rightarrow> int \<Rightarrow> int \<Rightarrow> nat list" where
  "chosen b s k h = filter (qualifies b s k h) [0..<nat (m_iBoxCountTotal b)]"

lemma set_chosen: "i \<in> set (chosen b s k h) \<longleftrightarrow> int i < m_iBoxCountTotal b \<and> qualifies b s k h i"
  by (auto simp: chosen_def)

lemma nth_classified_filter:
  "k < length (filter id cs) \<Longrightarrow> nth_classified cs i k = int (filter (\<lambda>j. cs ! (j - i)) [i..<i + length cs] ! k) + 1"
proof (induction cs arbitrary: i k)
  case (Cons c cs)
  have "[i..<i + length (c # cs)] = i # [Suc i..<Suc i + length cs]"
    by (simp add: upt_conv_Cons del: upt_Suc)
  moreover have "filter (\<lambda>j. (c # cs) ! (j - i)) [Suc i..<Suc i + length cs]
      = filter (\<lambda>j. cs ! (j - Suc i)) [Suc i..<Suc i + length cs]"
    by (rule filter_cong) (auto simp: nth_Cons')
  ultimately show ?case using Cons by (cases c; cases k) auto
qed simp

lemma classify_all:
  assumes "box_ok b"
  shows "those (map (classified b s k h) [0..<nat (m_iBoxCountTotal b)])
    = Some (map (qualifies b s k h) [0..<nat (m_iBoxCountTotal b)])"
  by (rule those_some) (use classified_of [OF assms] in auto)

lemma GetClassifyBoxCount_of: "box_ok b \<Longrightarrow> GetClassifyBoxCount b s k h = Some (int (length (chosen b s k h)))"
  by (simp add: GetClassifyBoxCount_def classify_all filter_map comp_def chosen_def)

lemma GetClassifyBoxID_of:
  assumes "box_ok b"
  shows "GetClassifyBoxID r b s k h = Some (if chosen b s k h = [] then - 1
    else int (chosen b s k h ! (r mod length (chosen b s k h))) + 1)"
proof (cases "chosen b s k h = []")
  case True
  with assms show ?thesis by (simp add: GetClassifyBoxID_def GetClassifyBoxCount_of)
next
  case False
  let ?n = "nat (m_iBoxCountTotal b)" and ?cs = "map (qualifies b s k h) [0..<nat (m_iBoxCountTotal b)]"
  let ?k = "r mod length (chosen b s k h)"
  have l: "length (filter id ?cs) = length (chosen b s k h)" by (simp add: filter_map comp_def chosen_def)
  have "filter (\<lambda>j. ?cs ! (j - 0)) [0..<0 + length ?cs] = chosen b s k h"
    unfolding chosen_def by (rule filter_cong) simp_all
  moreover have "?k < length (filter id ?cs)" unfolding l using False by simp
  ultimately have "nth_classified ?cs 0 ?k = int (chosen b s k h ! ?k) + 1"
    using nth_classified_filter [of ?k ?cs 0] by simp
  with False assms show ?thesis
    by (simp add: GetClassifyBoxID_def GetClassifyBoxCount_of classify_all)
qed

section \<open>Logical and physical numbers\<close>

lemma physical_box_at:
  "c < n \<Longrightarrow> n \<le> length cs \<Longrightarrow> 0 < box \<Longrightarrow> box \<le> cs ! c \<Longrightarrow> \<forall>i<c. 0 \<le> cs ! i \<Longrightarrow>
    physical_box cs n (sum_list (take c cs) + box) = Some box"
proof (induction cs n "sum_list (take c cs) + box" arbitrary: c rule: physical_box.induct)
  case (3 d ds n)
  show ?case
  proof (cases c)
    case 0
    with 3 show ?thesis by simp
  next
    case (Suc c')
    have nn: "\<forall>i<c'. 0 \<le> ds ! i" using 3(6) Suc by auto
    then have "0 \<le> sum_list (take c' ds)" using 3(2,3) Suc by (intro sum_list_nonneg) (auto simp: in_set_conv_nth)
    then have "\<not> sum_list (take c (d # ds)) + box \<le> d" using Suc 3(4) by simp
    with 3 Suc nn show ?thesis by simp
  qed
qed auto

lemma physical_cabinet_at:
  "c < n \<Longrightarrow> n \<le> length cs \<Longrightarrow> n \<le> length ids \<Longrightarrow> 0 < box \<Longrightarrow> box \<le> cs ! c \<Longrightarrow> \<forall>i<c. 0 \<le> cs ! i \<Longrightarrow>
    physical_cabinet cs ids n (sum_list (take c cs) + box) = Some (if ids ! c > 0 then ids ! c else - 1)"
proof (induction cs ids n "sum_list (take c cs) + box" arbitrary: c rule: physical_cabinet.induct)
  case (2 d ds k ids n)
  show ?case
  proof (cases c)
    case 0
    with 2 show ?thesis by simp
  next
    case (Suc c')
    have nn: "\<forall>i<c'. 0 \<le> ds ! i" using 2(7) Suc by auto
    then have "0 \<le> sum_list (take c' ds)" using 2(2,3) Suc by (intro sum_list_nonneg) (auto simp: in_set_conv_nth)
    then have "\<not> sum_list (take c (d # ds)) + box \<le> d" using Suc 2(5) by simp
    with 2 Suc nn show ?thesis by simp
  qed
qed auto

lemma locate:
  "0 < no \<Longrightarrow> no \<le> sum_list (take n cs) \<Longrightarrow> n \<le> length cs \<Longrightarrow>
    \<exists>c (box :: int). c < n \<and> no = sum_list (take c cs) + box \<and> 0 < box \<and> box \<le> cs ! c"
proof (induction n)
  case (Suc n)
  then have e: "sum_list (take (Suc n) cs) = sum_list (take n cs) + cs ! n" by (simp add: take_Suc_conv_app_nth)
  show ?case
  proof (cases "no \<le> sum_list (take n cs)")
    case True
    with Suc show ?thesis by (metis Suc_leD less_SucI)
  next
    case False
    with Suc.prems e show ?thesis by (intro exI [of _ n] exI [of _ "no - sum_list (take n cs)"]) simp
  qed
qed simp

lemma cabinet_no_at:
  assumes "c < nat (m_iCabinetCount b)" "nat (m_iCabinetCount b) \<le> length (m_piCabinetID b)"
    and "distinct (take (nat (m_iCabinetCount b)) (m_piCabinetID b))"
  shows "cabinet_no b (m_piCabinetID b ! c) = Some (int c)"
proof -
  let ?ids = "m_piCabinetID b"
  have "foldl (\<lambda>r i. if ?ids ! i = ?ids ! c then int i else r) (- 1) [0..<n] = (if c < n then int c else - 1)"
    if "n \<le> nat (m_iCabinetCount b)" for n
    using that
  proof (induction n)
    case (Suc n)
    have "?ids ! n = ?ids ! c \<longleftrightarrow> n = c"
      using assms Suc.prems nth_eq_iff_index_eq [OF assms(3), of n c] by simp
    with Suc show ?case by auto
  qed simp
  from this [of "nat (m_iCabinetCount b)"] show ?thesis using assms(1,2) by (simp add: cabinet_no_def Let_def)
qed

definition cabinets_ok :: "cbox \<Rightarrow> bool" where
  "cabinets_ok b \<longleftrightarrow> distinct (take (nat (m_iCabinetCount b)) (m_piCabinetID b))
     \<and> (\<forall>c < nat (m_iCabinetCount b). 0 < m_piCabinetID b ! c \<and> 0 \<le> m_piBoxCount b ! c)"

text \<open>A small table: two cabinets of three and two boxes.\<close>

definition sample_box :: cbox where
  "sample_box = CBox\<lparr>m_iCabinetCount := 2, m_piCabinetID := [7, 4], m_piBoxCount := [3, 2], m_iBoxCountTotal := 5,
     m_piBoxHostTimeoutAvailable := [0, 0, 0, 0, 0], m_piBoxHostPackageAvailable := [0, 0, 0, 0, 0],
     m_piBoxLocalPackage := [0, 1, 0, 0, 0], m_piBoxHardwareNotEmpty := [0, 0, 0, 0, 0], m_piBoxHardwareClose := [0, 0, 0, 0, 0],
     m_piBoxSpec := [1, 1, 1, 1, 1], m_piBoxHigh := [0, 0, 0, 0, 0], m_piBoxLength := [0, 0, 0, 0, 0],
     m_piBoxWidth := [0, 0, 0, 0, 0], m_piBoxHeight := [0, 0, 0, 0, 0], m_piStatus := [0, 0, 0, 0, 0],
     m_piBoxHide := [0, 0, 0, 0, 0], m_piOpenFail := [0, 0, 0, 0, 0], m_piCloseFail := [0, 0, 0, 0, 0],
     m_piEmptyFail := [0, 0, 0, 0, 0], m_piNotEmptyFail := [0, 0, 0, 0, 0], m_pBoxName := replicate 5 [],
     m_iBoxSizeCount := 1, m_pCBoxSize := [\<lparr>size_l = 0, size_w = 0, size_h = 0\<rparr>]\<rparr>"

definition sample_fields :: fields where
  "sample_fields d i = [0x31]"

lemma sample_reach: "box_reach sample_box"
proof -
  define s1 where "s1 = snd (the (Init 2 5 1 CBox))"
  define s2 where "s2 = the (SetCabinetID 1 7 s1)"
  define s3 where "s3 = the (SetCabinetID 2 4 s2)"
  define s4 where "s4 = the (SetBoxCount 1 3 s3)"
  define s5 where "s5 = the (SetBoxCount 2 2 s4)"
  define s6 where "s6 = snd (the (InitBoxTypeBatch (\<lambda>_. 5) sample_fields [] s5))"
  define s7 where "s7 = the (SetBoxLocalPackage 2 1 s6)"
  note ss = s1_def s2_def s3_def s4_def s5_def s6_def s7_def
  have 1: "box_reach s1" by (rule box_reach.init [OF box_reach.start, of 2 5 1 True]) (simp add: ss Init_def Let_def)
  have 2: "box_reach s2" by (rule box_reach.cabinet_id [OF 1, of 1 7]) (simp add: ss Init_def Let_def SetCabinetID_def put_at_def)
  have 3: "box_reach s3" by (rule box_reach.cabinet_id [OF 2, of 2 4]) (simp add: ss Init_def Let_def SetCabinetID_def put_at_def)
  have 4: "box_reach s4" by (rule box_reach.box_count [OF 3, of 1 3]) (simp add: ss Init_def Let_def SetCabinetID_def SetBoxCount_def put_at_def)
  have 5: "box_reach s5" by (rule box_reach.box_count [OF 4, of 2 2]) (simp add: ss Init_def Let_def SetCabinetID_def SetBoxCount_def put_at_def)
  have "InitBoxTypeBatch (\<lambda>_. 5) sample_fields [] s5 = Some (True, s6)" unfolding ss by code_simp
  then have 6: "box_reach s6" by (rule box_reach.types [OF 5])
  have "SetBoxLocalPackage 2 1 s6 = Some sample_box" unfolding ss by code_simp
  then show ?thesis by (rule box_reach.local_package [OF 6])
qed

section \<open>The properties\<close>

text \<open>C25: a box chosen for a delivery (status 0) right after UpdateStatus is a box of the table that is not masked, not hidden, holds no parcel the table knows of, and whose sensor sees nothing.\<close>

theorem delivery_box_free:
  assumes "box_reach b" "UpdateStatus b = Some b'" "GetClassifyBoxID r b' 0 k h = Some no" "no \<noteq> - 1"
  shows "0 < no \<and> no \<le> m_iBoxCountTotal b \<and> GetBoxLocalPackage b no = Some 0 \<and> GetBoxHardwareNotEmpty b no = Some 0
    \<and> GetBoxSpec b no \<noteq> Some 0 \<and> m_piBoxHide b ! nat (no - 1) = 0"
proof -
  have ok: "box_ok b" using assms(1) by (rule reach_ok)
  have "box_reach b'" using assms(1,2) by (rule box_reach.update)
  then have ok': "box_ok b'" by (rule reach_ok)
  have b': "b' = b\<lparr>m_piStatus := map (status_of b) [0..<nat (m_iBoxCountTotal b)] @ drop (nat (m_iBoxCountTotal b)) (m_piStatus b)\<rparr>"
    using assms(2) UpdateStatus_of [OF ok] by simp
  have ne: "chosen b' 0 k h \<noteq> []"
    and c: "no = int (chosen b' 0 k h ! (r mod length (chosen b' 0 k h))) + 1"
    using assms(3,4) GetClassifyBoxID_of [OF ok', of r 0 k h] by (auto split: if_splits)
  have "chosen b' 0 k h ! (r mod length (chosen b' 0 k h)) \<in> set (chosen b' 0 k h)" using ne by (intro nth_mem) simp
  with c obtain i where no: "no = int i + 1" and "i \<in> set (chosen b' 0 k h)" by blast
  then have i: "int i < m_iBoxCountTotal b" "qualifies b' 0 k h i" unfolding set_chosen by (simp_all add: b')
  then have st: "m_piStatus b' ! i = 0" "m_piBoxHide b ! i = 0" by (simp_all add: qualifies_def b')
  have "m_piStatus b' ! i = status_of b i" using i(1) by (simp add: b' nth_append nat_less_iff zless_nat_eq_int_zless)
  with st have "m_piBoxSpec b ! i \<noteq> 0" "m_piBoxLocalPackage b ! i = 0" "m_piBoxHardwareNotEmpty b ! i = 0"
    by (auto simp: status_of_def in_order_def split: if_splits)
  with ok_len [OF ok i(1)] i(1) st(2) show ?thesis unfolding no
    by (simp add: GetBoxLocalPackage_def GetBoxHardwareNotEmpty_def GetBoxSpec_def getter_in)
qed

theorem delivery_box_free_witness:
  "\<exists>b' no. UpdateStatus sample_box = Some b' \<and> GetClassifyBoxID 1 b' 0 1 0 = Some no \<and> GetBoxLocalPackage sample_box no = Some 0"
proof -
  have u: "UpdateStatus sample_box = Some (sample_box\<lparr>m_piStatus := [0, 2, 0, 0, 0]\<rparr>)"
    by code_simp
  have "GetClassifyBoxID 1 (sample_box\<lparr>m_piStatus := [0, 2, 0, 0, 0]\<rparr>) 0 1 0 = Some 3" by code_simp
  from delivery_box_free [OF sample_reach u this] u this show ?thesis by auto
qed

text \<open>C33: in every reachable table UpdateStatus stays inside the arrays, changes only the status column, and gives each box the status its other columns determine: masked boxes are out of order, a parcel is timed out or waiting, and an empty box is out of order when its sensor sees something or it failed too often; numbers outside the table answer -1.\<close>

theorem UpdateStatus_spec:
  assumes "box_reach b"
  shows "\<exists>b'. UpdateStatus b = Some b' \<and> b' = b\<lparr>m_piStatus := m_piStatus b'\<rparr>
    \<and> (\<forall>no. 0 < no \<and> no \<le> m_iBoxCountTotal b \<longrightarrow> GetStatus b' no = Some (status_of b (nat (no - 1))))
    \<and> (\<forall>no. no \<le> 0 \<or> m_iBoxCountTotal b < no \<longrightarrow> GetStatus b' no = Some (- 1))"
proof -
  have ok: "box_ok b" using assms by (rule reach_ok)
  have l: "m_iBoxCountTotal b \<le> int (length (m_piStatus b))" using ok by (simp add: box_defs)
  show ?thesis unfolding UpdateStatus_of [OF ok]
    using l by (auto simp: GetStatus_def getter_def at_def nth_append nat_less_iff)
qed

theorem UpdateStatus_spec_witness:
  "\<exists>b'. UpdateStatus sample_box = Some b' \<and> GetStatus b' 2 = Some 2"
proof -
  have "status_of sample_box 1 = 2" by (simp add: status_of_def sample_box_def)
  moreover have "m_iBoxCountTotal sample_box = 5" by (simp add: sample_box_def)
  ultimately show ?thesis using UpdateStatus_spec [OF sample_reach] by fastforce
qed

text \<open>C34: GetClassifyBoxID can return exactly the boxes that match the three criteria and are not hidden, each for some value of rand, and returns -1 exactly when there is none.\<close>

theorem GetClassifyBoxID_complete:
  assumes "box_reach b"
  shows "(\<exists>r. GetClassifyBoxID r b s k h = Some no) \<longleftrightarrow>
    (if \<exists>i. int i < m_iBoxCountTotal b \<and> qualifies b s k h i
     then 0 < no \<and> no \<le> m_iBoxCountTotal b \<and> qualifies b s k h (nat (no - 1)) else no = - 1)"
proof -
  have ok: "box_ok b" using assms by (rule reach_ok)
  let ?c = "chosen b s k h"
  have ne: "?c = [] \<longleftrightarrow> \<not> (\<exists>i. int i < m_iBoxCountTotal b \<and> qualifies b s k h i)"
    using set_chosen [of _ b s k h] by (metis last_in_set list.set(1) empty_iff)
  show ?thesis
  proof (cases "?c = []")
    case True
    with ne show ?thesis by (auto simp: GetClassifyBoxID_of [OF ok])
  next
    case False
    have "(\<exists>r. GetClassifyBoxID r b s k h = Some no) \<longleftrightarrow> (\<exists>i\<in>set ?c. no = int i + 1)"
    proof
      assume "\<exists>r. GetClassifyBoxID r b s k h = Some no"
      then obtain r where "no = int (?c ! (r mod length ?c)) + 1" using False by (auto simp: GetClassifyBoxID_of [OF ok])
      moreover have "?c ! (r mod length ?c) \<in> set ?c" using False by (intro nth_mem) simp
      ultimately show "\<exists>i\<in>set ?c. no = int i + 1" by blast
    next
      assume "\<exists>i\<in>set ?c. no = int i + 1"
      then obtain r where "r < length ?c" "no = int (?c ! r) + 1" by (metis in_set_conv_nth)
      then have "GetClassifyBoxID r b s k h = Some no" using False by (simp add: GetClassifyBoxID_of [OF ok])
      then show "\<exists>r. GetClassifyBoxID r b s k h = Some no" by blast
    qed
    also have "\<dots> \<longleftrightarrow> 0 < no \<and> no \<le> m_iBoxCountTotal b \<and> qualifies b s k h (nat (no - 1))"
      by (auto simp: set_chosen Bex_def intro!: exI [of _ "nat (no - 1)"])
    finally show ?thesis using False ne by simp
  qed
qed

theorem GetClassifyBoxID_complete_witness:
  "\<exists>r. GetClassifyBoxID r sample_box (- 1) 1 (- 1) = Some 5"
proof -
  have q: "int 4 < m_iBoxCountTotal sample_box \<and> qualifies sample_box (- 1) 1 (- 1) 4"
    by (simp add: qualifies_def sample_box_def)
  then have e: "\<exists>i. int i < m_iBoxCountTotal sample_box \<and> qualifies sample_box (- 1) 1 (- 1) i" by blast
  have "m_iBoxCountTotal sample_box = 5" by (simp add: sample_box_def)
  with q show ?thesis using GetClassifyBoxID_complete [OF sample_reach, of "- 1" 1 "- 1" 5] unfolding if_P [OF e] by simp
qed

text \<open>C24: in a table whose cabinets have distinct positive identifiers every logical number up to the sum of the box counts has a cabinet and a physical number, and these lead back to it.\<close>

theorem logical_physical:
  assumes "box_reach b" "cabinets_ok b" "0 < no" "no \<le> sum_list (take (nat (m_iCabinetCount b)) (m_piBoxCount b))"
  shows "\<exists>k box. GetPhysicalCabinet b no = Some k \<and> GetPhysicalBox b no = Some box \<and> 0 < k \<and> 0 < box
    \<and> GetLogicalBoxByPhysicalCabinetID b k box = Some no"
proof -
  let ?n = "nat (m_iCabinetCount b)" and ?cs = "m_piBoxCount b" and ?ids = "m_piCabinetID b"
  have l: "?n \<le> length ?cs" "?n \<le> length ?ids" using reach_ok [OF assms(1)] by (auto simp: box_defs)
  from locate [OF assms(3,4) l(1)] obtain c box where c: "c < ?n" "no = sum_list (take c ?cs) + box" "0 < box" "box \<le> ?cs ! c"
    by blast
  have nn: "\<forall>i<c. 0 \<le> ?cs ! i" using assms(2) c(1) by (auto simp: cabinets_ok_def)
  have k: "0 < ?ids ! c" using assms(2) c(1) by (auto simp: cabinets_ok_def)
  have "GetPhysicalBox b no = Some box" using physical_box_at [OF c(1) l(1) c(3,4) nn] c(2) by (simp add: GetPhysicalBox_def)
  moreover have "GetPhysicalCabinet b no = Some (?ids ! c)"
    using physical_cabinet_at [OF c(1) l c(3,4) nn] c(2) k by (simp add: GetPhysicalCabinet_def)
  moreover have "cabinet_no b (?ids ! c) = Some (int c)"
    using cabinet_no_at [OF c(1) l(2)] assms(2) by (simp add: cabinets_ok_def)
  then have "GetLogicalBoxByPhysicalCabinetID b (?ids ! c) box = Some no"
    using c l by (simp add: GetLogicalBoxByPhysicalCabinetID_def boxes_before_def)
  ultimately show ?thesis using k c(3) by blast
qed

theorem logical_physical_witness:
  "\<exists>k box. GetPhysicalCabinet sample_box 4 = Some k \<and> GetPhysicalBox sample_box 4 = Some box
    \<and> GetLogicalBoxByPhysicalCabinetID sample_box k box = Some 4"
proof -
  have "cabinets_ok sample_box" by (simp add: cabinets_ok_def sample_box_def All_less_Suc numeral_2_eq_2)
  moreover have "(4 :: int) \<le> sum_list (take (nat (m_iCabinetCount sample_box)) (m_piBoxCount sample_box))"
    by (simp add: sample_box_def)
  ultimately show ?thesis using logical_physical [OF sample_reach, of 4] by auto
qed

end
