(* ===== verification/Kiosk.thy ===== *)
theory Kiosk
  imports BoxProofs ToolsText
begin

text \<open>
  The locker program, class \<open>CTranProDlg\<close> of \<open>TranProDlg.cpp\<close> in the \<open>ssmapp\<close> directory: the package
  database, the exchange with the host and its queue of transactions to repeat, and the doors. The
  locker controller, the database server, the sockets, \<open>rand\<close> and the clock are not part of the
  repository: a \<open>world\<close> holds what they answer, as functions of a state \<open>'e\<close> of theirs. So are the
  texts made and read by the XML library, \<open>pack_body\<close> (the \<open>GZYZPack\<close> routines) and \<open>unpack\<close>, \<open>save\<close>
  (\<open>Unpack\<close> and \<open>SaveResponse\<close>). Logging is left out.
\<close>

section \<open>State\<close>

text \<open>A row of the table \<open>Package\<close>, in the order of its columns.\<close>

record pkg =
  p_box :: bytes
  p_pw :: bytes
  p_mail :: bytes
  p_time :: bytes
  p_deadline :: bytes
  p_postman :: bytes
  p_mobile :: bytes
  p_name :: bytes
  p_address :: bytes
  p_col9 :: bytes
  p_verify :: bytes
  p_flag :: bytes
  p_extra :: bytes

text \<open>A row of the table \<open>TransQueue\<close>.\<close>

record tq =
  t_box :: bytes
  t_bar :: bytes
  t_code :: bytes
  t_serial :: bytes
  t_time :: bytes
  t_data :: bytes
  t_max :: int
  t_tries :: int

text \<open>The members of the class the operations below use. \<open>env\<close> is the state of the world; \<open>screen\<close> holds
  the answers sent to the screen, oldest first, by their code and numbers (\<open>TRSHOW\<close>; the texts in Chinese
  are left out). \<open>m_idname\<close>, \<open>m_idcode\<close> and \<open>m_address\<close> are the fields of \<open>m_cIDCardData\<close>, the two locker
  fields those of \<open>m_stHardWare[DEVICE_LOCKER]\<close>.\<close>

datatype msg = ConfirmDeposit nat | OpenDoor nat | OpenedDoor int "bytes list"

record 'e kiosk =
  env :: 'e
  m_cbox :: cbox
  m_iWorkMode :: int
  m_iLogicalCurrentBox :: int
  m_csCurrentBoxID :: bytes
  m_iCurrentOpenBox :: int
  m_vBoxDoorStatus :: "int \<Rightarrow> int option"
  m_bSendBoxStatus :: bool
  m_tranCode :: bytes
  m_iSerial :: int
  m_pw :: bytes
  m_barCode :: "nat \<Rightarrow> bytes"
  m_iBarCodeCount :: int
  m_postmanID :: bytes
  m_PostLoginID :: bytes
  m_csExtraData :: bytes
  m_idcode :: bytes
  m_idname :: bytes
  m_iIsTakeoutDelaySend :: int
  m_bSendTrans :: bool
  m_bNetWorkFail :: bool
  m_bReboot :: bool
  m_csMobile :: bytes
  m_address :: bytes
  m_iDeadline :: int
  m_iVerifyType :: int
  m_iIsPostDelaySend :: int
  m_iIsPostFailOpenDoor :: int
  m_auHostKey :: bytes
  m_iLockerExist :: int
  m_iLockerStatus :: int
  m_iIsUpdateingStatusLocker :: bool
  m_iIsUpdateingBoxStatus :: bool
  m_bIsCheckingOpenDoor :: bool
  screen :: "msg list"

datatype cond = AllRows | Flag2 | BoxIs int | MailIs bytes | PwIs bytes

datatype table = Recycle | PickupHistory

text \<open>A query that fails is \<open>None\<close>, a result that cannot be stored has no rows. For the other statements
  the truth value is the one the program tests: \<open>ExeSQLQuery\<close>, and the number of affected rows being
  positive where it looks at it.\<close>

record 'e world =
  lock_open :: "int \<Rightarrow> int \<Rightarrow> 'e \<Rightarrow> bool \<times> 'e"
  lock_status :: "int \<Rightarrow> int \<Rightarrow> 'e \<Rightarrow> int list option \<times> 'e"
  rnd :: "'e \<Rightarrow> nat \<times> 'e"
  now :: "'e \<Rightarrow> bytes"
  idle :: "'e \<Rightarrow> bool \<times> 'e"
  stop_check :: "'e \<Rightarrow> bool \<times> 'e"
  db_select :: "cond \<Rightarrow> 'e \<Rightarrow> pkg list option \<times> 'e"
  db_insert_pkg :: "pkg \<Rightarrow> 'e \<Rightarrow> bool \<times> 'e"
  db_insert_history :: "table \<Rightarrow> bytes list \<Rightarrow> 'e \<Rightarrow> bool \<times> 'e"
  db_delete_mail :: "bytes \<Rightarrow> 'e \<Rightarrow> bool \<times> 'e"
  db_commit :: "'e \<Rightarrow> 'e"
  db_rollback :: "'e \<Rightarrow> 'e"
  db_autocommit :: "bool \<Rightarrow> 'e \<Rightarrow> 'e"
  db_postmen :: "'e \<Rightarrow> (bytes \<times> bytes) list option \<times> 'e"
  db_set_timeout :: "bytes \<Rightarrow> bytes \<Rightarrow> 'e \<Rightarrow> bool \<times> 'e"
  db_tq_rows :: "'e \<Rightarrow> tq list option \<times> 'e"
  db_tq_insert :: "tq \<Rightarrow> 'e \<Rightarrow> bool \<times> 'e"
  db_tq_delete :: "bytes \<Rightarrow> 'e \<Rightarrow> bool \<times> 'e"
  db_tq_try :: "bytes \<Rightarrow> int \<Rightarrow> 'e \<Rightarrow> bool \<times> 'e"
  net_socket :: "'e \<Rightarrow> bool \<times> 'e"
  net_connect :: "'e \<Rightarrow> bool \<times> 'e"
  net_send :: "bytes \<Rightarrow> 'e \<Rightarrow> int \<times> 'e"
  net_recv :: "'e \<Rightarrow> (int \<times> bytes) \<times> 'e"
  pack_body :: "'e kiosk \<Rightarrow> bytes"
  unpack :: "bytes \<Rightarrow> 'e kiosk \<Rightarrow> int \<times> 'e kiosk"
  save :: "'e kiosk \<Rightarrow> 'e kiosk"

definition WORKMODE_POST :: int where "WORKMODE_POST = 1"
definition WORKMODE_POSTMAN_TAKE :: int where "WORKMODE_POSTMAN_TAKE = 2"
definition WORKMODE_TAKE :: int where "WORKMODE_TAKE = 3"
definition WORKMODE_MANAGER_TAKE :: int where "WORKMODE_MANAGER_TAKE = 5"

lemmas modes = WORKMODE_POST_def WORKMODE_POSTMAN_TAKE_def WORKMODE_TAKE_def WORKMODE_MANAGER_TAKE_def

definition int_text :: "int \<Rightarrow> bytes" where
  "int_text n = (if n < 0 then 0x2D # dec_digits (nat (- n)) else dec_digits (nat n))"

definition tran :: "nat \<Rightarrow> bytes" where "tran n = dec_digits n"

section \<open>The package table\<close>

text \<open>The password of the first row, if there is one. The members it fills are those every caller passes.\<close>

definition LoadPackageByBoxIDFromDB :: "'e world \<Rightarrow> int \<Rightarrow> 'e kiosk \<Rightarrow> bytes option \<times> 'e kiosk" where
  "LoadPackageByBoxIDFromDB w iBox k =
     (if iBox = 0 then (None, k)
      else (let (r, e) = db_select w (BoxIs iBox) (env k) in
        case r of
          Some (p # _) \<Rightarrow> (Some (p_pw p), k\<lparr>env := e, m_iBarCodeCount := 1, m_barCode := (m_barCode k)(0 := p_mail p),
            m_postmanID := p_postman p, m_csExtraData := p_extra p\<rparr>)
        | _ \<Rightarrow> (None, k\<lparr>env := e\<rparr>)))"

text \<open>\<open>CheckMailNo\<close>, \<open>CheckBoxNo\<close>, \<open>FindPickupPWFromDB\<close>: whether there is such a row.\<close>

definition exists_row :: "'e world \<Rightarrow> cond \<Rightarrow> 'e \<Rightarrow> bool \<times> 'e" where
  "exists_row w c e = (let (r, e') = db_select w c e in (case r of Some (_ # _) \<Rightarrow> True | _ \<Rightarrow> False, e'))"

definition CheckMailNo :: "'e world \<Rightarrow> bytes \<Rightarrow> 'e \<Rightarrow> bool \<times> 'e" where
  "CheckMailNo w m = exists_row w (MailIs m)"

definition CheckBoxNo :: "'e world \<Rightarrow> int \<Rightarrow> 'e \<Rightarrow> bool \<times> 'e" where
  "CheckBoxNo w b = exists_row w (BoxIs b)"

definition FindPickupPWFromDB :: "'e world \<Rightarrow> bytes \<Rightarrow> 'e \<Rightarrow> bool \<times> 'e" where
  "FindPickupPWFromDB w p = exists_row w (PwIs p)"

text \<open>\<open>CString::Replace\<close> by nothing: from the left, going on behind each occurrence; \<open>TrimRight\<close>.\<close>

function cs_remove :: "bytes \<Rightarrow> bytes \<Rightarrow> bytes" where
  "cs_remove pat [] = []"
| "cs_remove pat (c # r) = (if pat \<noteq> [] \<and> take (length pat) (c # r) = pat then cs_remove pat (drop (length pat) (c # r))
     else c # cs_remove pat r)"
  by pat_completeness auto
termination by (relation "measure (length \<circ> snd)") (auto simp: neq_Nil_conv)

definition trim_right :: "byte \<Rightarrow> bytes \<Rightarrow> bytes" where
  "trim_right c s = rev (dropWhile (\<lambda>x. x = c) (rev s))"

text \<open>The boxes of one postman, \<open>row[7]\<close>: \<open>None\<close> when the number is not found in the text.\<close>

definition drop_box :: "int \<Rightarrow> bytes \<Rightarrow> bytes option" where
  "drop_box iBoxNo boxes = (let s = boxes @ [0x2C]; pat = int_text iBoxNo @ [0x2C] in
     case find_sub pat s of None \<Rightarrow> None | Some _ \<Rightarrow> Some (trim_right 0x2C (cs_remove pat s)))"

fun update_postmen :: "'e world \<Rightarrow> int \<Rightarrow> (bytes \<times> bytes) list \<Rightarrow> bool \<Rightarrow> 'e \<Rightarrow> bool \<times> 'e" where
  "update_postmen w iBoxNo [] ok e = (ok, e)"
| "update_postmen w iBoxNo ((i, boxes) # ps) ok e = (case drop_box iBoxNo boxes of
       None \<Rightarrow> update_postmen w iBoxNo ps ok e
     | Some t \<Rightarrow> (let (a, e') = db_set_timeout w i t e in update_postmen w iBoxNo ps (ok \<and> a) e'))"

text \<open>The postmen come in the order of the \<open>std::map\<close> they are put into.\<close>

definition UpdateTimeoutBoxToPostman :: "'e world \<Rightarrow> int \<Rightarrow> 'e \<Rightarrow> bool \<times> 'e" where
  "UpdateTimeoutBoxToPostman w iBoxNo e = (let (r, e') = db_postmen w e in
     update_postmen w iBoxNo (case r of None \<Rightarrow> [] | Some ps \<Rightarrow> ps) True e')"

text \<open>Rows moved into a history table, each committed or rolled back by itself.\<close>

definition history_row :: "bytes \<Rightarrow> bytes list \<Rightarrow> pkg \<Rightarrow> bytes list" where
  "history_row strDateTime who p = [p_box p, p_pw p, p_mail p, p_time p, p_deadline p, p_postman p, p_mobile p, p_name p,
     p_address p, strDateTime] @ who @ [[0x30]]"

fun move_rows :: "'e world \<Rightarrow> table \<Rightarrow> bytes \<Rightarrow> bytes list \<Rightarrow> pkg list \<Rightarrow> bool \<Rightarrow> 'e \<Rightarrow> bool \<times> 'e" where
  "move_rows w tab t who [] ok e = (ok, e)"
| "move_rows w tab t who (p # ps) ok e = (let (i, e1) = db_insert_history w tab (history_row t who p) e in
     if i then (let (d, e2) = db_delete_mail w (p_mail p) e1 in
       if d then move_rows w tab t who ps ok (db_commit w e2) else move_rows w tab t who ps False (db_rollback w e2))
     else move_rows w tab t who ps False e1)"

definition move_box :: "'e world \<Rightarrow> table \<Rightarrow> bytes list \<Rightarrow> int \<Rightarrow> 'e \<Rightarrow> bool \<times> 'e" where
  "move_box w tab who iBoxNo e = (let e0 = db_autocommit w False e; t = now w e0; (r, e1) = db_select w (BoxIs iBoxNo) e0 in
     case r of
       Some (p # ps) \<Rightarrow> (let (ok, e2) = move_rows w tab t who (p # ps) True e1 in (ok, db_autocommit w True e2))
     | _ \<Rightarrow> (False, db_autocommit w True e1))"

definition UpdateDataToDB :: "'e world \<Rightarrow> int \<Rightarrow> 'e kiosk \<Rightarrow> bool \<times> 'e kiosk" where
  "UpdateDataToDB w iBoxNo k =
     (if m_iWorkMode k = WORKMODE_POSTMAN_TAKE
      then (let (ok, e) = move_box w Recycle [m_PostLoginID k] iBoxNo (env k) in (ok, k\<lparr>env := e\<rparr>))
      else if m_iWorkMode k = WORKMODE_TAKE \<or> m_iWorkMode k = WORKMODE_MANAGER_TAKE
      then (let k1 = (if m_iWorkMode k = WORKMODE_MANAGER_TAKE
              then k\<lparr>m_idcode := m_PostLoginID k, m_idname := [0x50, 0x6F, 0x73, 0x74, 0x6D, 0x61, 0x6E]\<rparr> else k);
              (ok, e) = move_box w PickupHistory [m_idcode k1, m_idname k1] iBoxNo (env k1) in (ok, k1\<lparr>env := e\<rparr>))
      else (True, k\<lparr>env := db_autocommit w True (db_autocommit w False (env k))\<rparr>))"

text \<open>\<open>SavePackageToDB\<close>: one row for each code; a row that is refused is tried again without the name and
  the address, and a second refusal asks for a restart. The flag of a new parcel is 1.\<close>

definition new_pkg :: "int \<Rightarrow> bytes \<Rightarrow> bytes \<Rightarrow> bytes \<Rightarrow> bytes \<Rightarrow> bytes \<Rightarrow> bytes \<Rightarrow> int \<Rightarrow> int \<Rightarrow> bytes \<Rightarrow> bytes \<Rightarrow> bytes \<Rightarrow> pkg" where
  "new_pkg iBox csPW csPostLoginID csName csAddress csMobile t iDeadline iVerifyType csExtraData flag csBarCode =
     \<lparr>p_box = int_text iBox, p_pw = csPW, p_mail = csBarCode, p_time = t,
      p_deadline = int_text (if iDeadline > 0 then iDeadline else 1), p_postman = csPostLoginID, p_mobile = csMobile,
      p_name = csName, p_address = csAddress, p_col9 = [0x30], p_verify = int_text iVerifyType, p_flag = flag,
      p_extra = csExtraData\<rparr>"

fun save_rows :: "'e world \<Rightarrow> (bytes \<Rightarrow> pkg) \<Rightarrow> bytes list \<Rightarrow> 'e \<Rightarrow> bool \<times> 'e" where
  "save_rows w row [] e = (True, e)"
| "save_rows w row (c # cs) e = (let (a, e1) = db_insert_pkg w (row c) e in
     if a then save_rows w row cs (db_commit w e1)
     else (let (a', e2) = db_insert_pkg w ((row c)\<lparr>p_name := [], p_address := []\<rparr>) e1 in
       if a' then save_rows w row cs (db_commit w e2) else (False, e2)))"

text \<open>The array of the codes has ten elements.\<close>

definition SavePackageToDB :: "'e world \<Rightarrow> int \<Rightarrow> bytes \<Rightarrow> int \<Rightarrow> (nat \<Rightarrow> bytes) \<Rightarrow> bytes \<Rightarrow> bytes \<Rightarrow> bytes \<Rightarrow> bytes \<Rightarrow> int \<Rightarrow> int \<Rightarrow> bytes
    \<Rightarrow> 'e kiosk \<Rightarrow> (bool \<times> 'e kiosk) option" where
  "SavePackageToDB w iBox csPW iBarCodeCount csBarCode csPostLoginID csName csAddress csMobile iDeadline iVerifyType csExtraData k =
     (if iBarCodeCount > 10 then None
      else if iBox = 0 \<or> iBox > m_iBoxCountTotal (m_cbox k) then Some (False, k)
      else (let row = new_pkg iBox csPW csPostLoginID csName csAddress csMobile (now w (env k)) iDeadline iVerifyType csExtraData [0x31];
                (ok, e) = save_rows w row (map csBarCode [0..<nat iBarCodeCount]) (env k) in
            Some (ok, k\<lparr>env := e, m_bReboot := (m_bReboot k \<or> \<not> ok)\<rparr>)))"

text \<open>\<open>UpdateLocalPackageStatus\<close>: every box with a row holds a parcel. The second query, for the rows with flag 2,
  sets the same column again.\<close>

fun mark_rows :: "pkg list \<Rightarrow> cbox \<Rightarrow> cbox option" where
  "mark_rows [] b = Some b"
| "mark_rows (p # ps) b = (let iBoxID = atol (p_box p) in
     if 0 < iBoxID \<and> iBoxID \<le> m_iBoxCountTotal b
     then do { b' \<leftarrow> SetBoxLocalPackage iBoxID 1 b; mark_rows ps b' } else mark_rows ps b)"

definition UpdateLocalPackageStatus :: "'e world \<Rightarrow> 'e kiosk \<Rightarrow> 'e kiosk option" where
  "UpdateLocalPackageStatus w k = do {
     b0 \<leftarrow> SetBoxLocalPackage 0 0 (m_cbox k);
     let (r1, e1) = db_select w AllRows (env k);
     b1 \<leftarrow> mark_rows (case r1 of Some ps \<Rightarrow> ps | None \<Rightarrow> []) b0;
     let (r2, e2) = db_select w Flag2 e1;
     b2 \<leftarrow> mark_rows (case r2 of Some ps \<Rightarrow> ps | None \<Rightarrow> []) b1;
     Some (k\<lparr>env := e2, m_cbox := b2\<rparr>) }"

section \<open>The host\<close>

text \<open>The return value of \<open>SendDataToService\<close> and the bytes received. The text is sent as it is here: its
  conversion to UTF-8 belongs to the sockets of the world.\<close>

definition SendDataToService :: "'e world \<Rightarrow> bytes \<Rightarrow> 'e \<Rightarrow> (int \<times> bytes) \<times> 'e" where
  "SendDataToService w pSendData e = (let (s, e1) = net_socket w e in
     if \<not> s then ((- 1, []), e1)
     else (let (c, e2) = net_connect w e1 in
       if \<not> c then ((- 2, []), e2)
       else (let (n, e3) = net_send w pSendData e2 in
         if n \<le> 0 then ((- 3, []), e3)
         else (let ((r, d), e4) = net_recv w e3 in
           if r \<le> 0 then ((- 4, []), e4) else ((r, d), e4)))))"

definition TransactionInsertQueueToDB :: "'e world \<Rightarrow> bytes \<Rightarrow> bytes \<Rightarrow> bytes \<Rightarrow> int \<Rightarrow> 'e kiosk \<Rightarrow> bool \<times> 'e kiosk" where
  "TransactionInsertQueueToDB w csTranCode csSerialNO csTranData iMaxRetryTime k =
     (if iMaxRetryTime < 0 then (False, k)
      else (let (a, e) = db_tq_insert w \<lparr>t_box = m_csCurrentBoxID k, t_bar = m_barCode k 0, t_code = csTranCode, t_serial = csSerialNO,
                  t_time = now w (env k), t_data = csTranData, t_max = iMaxRetryTime, t_tries = 0\<rparr> (env k) in
        if a then (True, k\<lparr>env := db_commit w e\<rparr>) else (False, k\<lparr>env := e, m_bReboot := True\<rparr>)))"

definition RETRY_ENDLESS :: int where "RETRY_ENDLESS = 0"

definition GetSerialNOString :: "'e kiosk \<Rightarrow> bytes" where
  "GetSerialNOString k = fmt0 6 (m_iSerial k)"

definition FreshSerialNO :: "'e kiosk \<Rightarrow> 'e kiosk" where
  "FreshSerialNO k = k\<lparr>m_iSerial := (if m_iSerial k < 999999 then m_iSerial k + 1 else 1)\<rparr>"

definition Pack_text :: "'e world \<Rightarrow> 'e kiosk \<Rightarrow> bytes \<times> 'e kiosk" where
  "Pack_text w k = (if m_tranCode k = [] then ([], k)
     else (let k' = FreshSerialNO k in
       (if m_tranCode k' \<in> set (map tran [600001, 600006, 600003, 600007, 600002, 600004, 600008, 600009, 600015, 600016, 600017, 600018])
        then pack_body w k' else [], k')))"

definition Transaction :: "'e world \<Rightarrow> bytes \<Rightarrow> bool \<Rightarrow> 'e kiosk \<Rightarrow> int \<times> 'e kiosk" where
  "Transaction w sendText bInsertQueueWhileFail k =
     (if sendText = [] then (0, k)
      else (let ((iRes, d), e) = SendDataToService w sendText (env k);
                k1 = k\<lparr>m_bSendTrans := True, env := e\<rparr>;
                (iRes, k2) = (if iRes \<le> 0 then (if iRes = 0 then - 4 else iRes, k1\<lparr>m_bNetWorkFail := True\<rparr>)
                   else (let (r, k') = unpack w d k1 in (if r = 0 then 0 else - 5, k'\<lparr>m_bNetWorkFail := False\<rparr>))) in
        if iRes = 0 then (iRes, save w k2)
        else if bInsertQueueWhileFail
        then (iRes, snd (TransactionInsertQueueToDB w (m_tranCode k2) (GetSerialNOString k2) sendText RETRY_ENDLESS k2))
        else (iRes, k2)))"

end
