(* ===== verification/Doors.thy ===== *)
theory Doors
  imports Kiosk
begin

text \<open>
  The doors of the locker (\<open>TranProDlg.cpp\<close>): opening one box, choosing a box by its kind and trying again,
  the sensors, the check for doors left open, and putting a parcel in. \<open>None\<close> is an access outside an
  array, or a loop that does not end.
\<close>

section \<open>One door\<close>

definition OpenLogicalBox :: "'e world \<Rightarrow> int \<Rightarrow> 'e kiosk \<Rightarrow> (bool \<times> 'e kiosk) option" where
  "OpenLogicalBox w iLogicalBoxID k =
     (if iLogicalBoxID = 0 then Some (False, k)
      else do {
        iPhysicalCabinet \<leftarrow> GetPhysicalCabinet (m_cbox k) iLogicalBoxID;
        iPhysicalBox \<leftarrow> GetPhysicalBox (m_cbox k) iLogicalBoxID;
        let (r, e) = lock_open w iPhysicalCabinet iPhysicalBox (env k);
        Some (r, k\<lparr>env := e\<rparr>) })"

text \<open>The buffer the controller writes its answer to: 64 numbers, what it does not write stays.\<close>

definition filled_buf :: "int list \<Rightarrow> int list \<Rightarrow> int list" where
  "filled_buf st buf = take (length buf) (st @ drop (length st) buf)"

definition new_buf :: "int list" where
  "new_buf = - 1 # replicate 63 0"

text \<open>Whether the door is closed, and \<open>iIsPutPackage\<close>, which keeps its value when the controller does not answer.\<close>

definition CloseLogicalBox :: "'e world \<Rightarrow> int \<Rightarrow> int \<Rightarrow> 'e kiosk \<Rightarrow> ((bool \<times> int) \<times> 'e kiosk) option" where
  "CloseLogicalBox w iLogicalBoxID iIsPutPackage k =
     (if iLogicalBoxID = 0 then Some ((False, iIsPutPackage), k)
      else do {
        c \<leftarrow> GetPhysicalCabinet (m_cbox k) iLogicalBoxID;
        p \<leftarrow> GetPhysicalBox (m_cbox k) iLogicalBoxID;
        let (r, e) = lock_status w c p (env k);
        case r of None \<Rightarrow> Some ((False, iIsPutPackage), k\<lparr>env := e\<rparr>)
        | Some st \<Rightarrow> (let buf = filled_buf st new_buf; put = (if buf ! 1 \<noteq> 0 then 1 else 0) in
            if buf ! 0 \<noteq> 0 then (let (r', e') = lock_status w c p e in
              case r' of None \<Rightarrow> Some ((False, put), k\<lparr>env := e'\<rparr>)
              | Some st' \<Rightarrow> Some ((filled_buf st' buf ! 0 \<noteq> 0, put), k\<lparr>env := e'\<rparr>))
            else Some ((False, put), k\<lparr>env := e\<rparr>)) })"

text \<open>The result is true when the box holds something, or when the controller does not answer.\<close>

definition IsEmptyLogicalBox :: "'e world \<Rightarrow> int \<Rightarrow> 'e kiosk \<Rightarrow> (bool \<times> 'e kiosk) option" where
  "IsEmptyLogicalBox w iLogicalBoxID k =
     (if iLogicalBoxID = 0 then Some (False, k)
      else do {
        c \<leftarrow> GetPhysicalCabinet (m_cbox k) iLogicalBoxID;
        p \<leftarrow> GetPhysicalBox (m_cbox k) iLogicalBoxID;
        let (r, e) = lock_status w c p (env k);
        Some (case r of None \<Rightarrow> True | Some st \<Rightarrow> filled_buf st new_buf ! 1 \<noteq> 0, k\<lparr>env := e\<rparr>) })"

text \<open>\<open>%s\<close> with a number is an invalid pointer.\<close>

definition TransformBoxNoToBoxID :: "cbox \<Rightarrow> int \<Rightarrow> bytes option" where
  "TransformBoxNoToBoxID b iBoxNo = do {
     iPhysicalCabinet \<leftarrow> GetPhysicalCabinet b iBoxNo;
     _ \<leftarrow> GetPhysicalBox b iBoxNo;
     if 0 < iPhysicalCabinet \<and> iPhysicalCabinet < 27 then None else Some [] }"

text \<open>\<open>atoi\<close> has to meet a character that ends the number inside the ten bytes.\<close>

definition atoi_stops :: "bytes \<Rightarrow> bool" where
  "atoi_stops s = (let t = dropWhile c_isspace s in
     case t of [] \<Rightarrow> False
     | c # r \<Rightarrow> dropWhile is_digit (if c = 0x2D \<or> c = 0x2B then r else t) \<noteq> [])"

definition TransformBoxIDToBoxNo :: "cbox \<Rightarrow> bytes \<Rightarrow> int option" where
  "TransformBoxIDToBoxNo b csBoxID = (let szBoxID = take 10 csBoxID @ replicate (10 - length csBoxID) 0;
       iPhysicalCabinet = sint (szBoxID ! 0) - 64; iPhysicalBox = atol szBoxID in
     if \<not> atoi_stops szBoxID then None
     else if iPhysicalCabinet > 1 then map_option (\<lambda>n. n + iPhysicalBox) (GetBoxCount b (iPhysicalCabinet - 1))
     else Some iPhysicalBox)"

section \<open>Opening a box by its number\<close>

definition set_box :: "(cbox \<Rightarrow> cbox option) \<Rightarrow> 'e kiosk \<Rightarrow> 'e kiosk option" where
  "set_box f k = map_option (\<lambda>b. k\<lparr>m_cbox := b\<rparr>) (f (m_cbox k))"

text \<open>The transaction that reports a taken parcel.\<close>

definition take_code :: "int \<Rightarrow> bytes" where
  "take_code mode = (if mode = WORKMODE_POSTMAN_TAKE then tran 600003
     else if mode = WORKMODE_TAKE \<or> mode = WORKMODE_MANAGER_TAKE then tran 600004 else [])"

definition report_taken :: "'e world \<Rightarrow> 'e kiosk \<Rightarrow> 'e kiosk" where
  "report_taken w k = (let k1 = k\<lparr>m_tranCode := take_code (m_iWorkMode k)\<rparr>;
       k2 = (if m_iWorkMode k = WORKMODE_MANAGER_TAKE
         then k1\<lparr>m_pw := [], m_idcode := m_PostLoginID k, m_idname := [0x50, 0x6F, 0x73, 0x74, 0x6D, 0x61, 0x6E]\<rparr> else k1) in
     if m_tranCode k2 = [] then k2
     else (let (sendText, k3) = Pack_text w k2;
               (queued, k4) = (if m_iIsTakeoutDelaySend k3 \<noteq> 0
                 then TransactionInsertQueueToDB w (m_tranCode k3) (GetSerialNOString k3) sendText RETRY_ENDLESS k3 else (False, k3)) in
           if queued then k4 else snd (Transaction w sendText True k4)))"

definition door_opened :: "'e world \<Rightarrow> 'e kiosk \<Rightarrow> 'e kiosk option" where
  "door_opened w k = (let i = m_iLogicalCurrentBox k in do {
     k1 \<leftarrow> set_box (SetOpenFail i 0) k;
     let k2 = k1\<lparr>m_vBoxDoorStatus := (m_vBoxDoorStatus k1)(i - 1 \<mapsto> 0)\<rparr>;
     k3 \<leftarrow> set_box (SetBoxLocalPackage i 0) k2;
     k4 \<leftarrow> set_box (SetBoxHostTimeoutAvailable i 0) k3;
     k5 \<leftarrow> set_box (SetBoxHostPackageAvailable i 0) k4;
     let (_, e) = UpdateTimeoutBoxToPostman w i (env k5);
     let (ok, k6) = UpdateDataToDB w i (k5\<lparr>env := e\<rparr>);
     k7 \<leftarrow> (if ok then Some k6 else set_box (SetBoxHide i 1) k6);
     Some (report_taken w k7) })"

definition door_failed :: "'e kiosk \<Rightarrow> 'e kiosk option" where
  "door_failed k = (let i = m_iLogicalCurrentBox k in do {
     n \<leftarrow> GetOpenFail (m_cbox k) i;
     k1 \<leftarrow> set_box (SetOpenFail i (n + 1)) (k\<lparr>m_bSendBoxStatus := True\<rparr>);
     Some (if m_iWorkMode k = WORKMODE_POSTMAN_TAKE then k1\<lparr>m_vBoxDoorStatus := (m_vBoxDoorStatus k1)(i - 1 \<mapsto> 1)\<rparr>
       else if m_iWorkMode k = WORKMODE_TAKE \<or> m_iWorkMode k = WORKMODE_MANAGER_TAKE
       then k1\<lparr>m_vBoxDoorStatus := (m_vBoxDoorStatus k1)(i - 1 \<mapsto> 2)\<rparr>
       else k1\<lparr>m_bSendBoxStatus := False\<rparr>) })"

definition OpenDoorByIDState :: "'e world \<Rightarrow> int \<Rightarrow> 'e kiosk \<Rightarrow> (bool \<times> 'e kiosk) option" where
  "OpenDoorByIDState w iID k =
     (if iID = 0 \<or> iID = - 1 then Some (False, k)
      else (let (iCanOpendoor, k1) =
          (if m_iWorkMode k = WORKMODE_TAKE \<or> m_iWorkMode k = WORKMODE_MANAGER_TAKE \<or> m_iWorkMode k = WORKMODE_POSTMAN_TAKE
           then (let (r, k') = LoadPackageByBoxIDFromDB w iID k in (r \<noteq> None, k')) else (True, k)) in
        if \<not> iCanOpendoor then Some (False, k1)
        else do {
          name \<leftarrow> GetBoxName (m_cbox k1) iID;
          (bRes, k2) \<leftarrow> OpenLogicalBox w iID (k1\<lparr>m_iLogicalCurrentBox := iID, m_csCurrentBoxID := name\<rparr>);
          k3 \<leftarrow> (if bRes then door_opened w k2 else door_failed k2);
          Some (bRes, k3) }))"

section \<open>Opening a box of a kind\<close>

definition keeps_current :: "cbox \<Rightarrow> int \<Rightarrow> int \<Rightarrow> int \<Rightarrow> bool option" where
  "keeps_current b iCurrent iStatus iSpec =
     (if iCurrent > 0 then do {
        s \<leftarrow> GetClassifyBoxSpec b iCurrent;
        if iSpec = s then map_option (\<lambda>t. t = iStatus) (GetStatus b iCurrent) else Some False }
      else Some False)"

text \<open>\<open>rand\<close> is called only when there is a box to choose.\<close>

definition next_box :: "'e world \<Rightarrow> int \<Rightarrow> int \<Rightarrow> 'e kiosk \<Rightarrow> (int \<times> 'e kiosk) option" where
  "next_box w iStatus iSpec k = do {
     c \<leftarrow> keeps_current (m_cbox k) (m_iCurrentOpenBox k) iStatus iSpec;
     if c then Some (m_iCurrentOpenBox k, k)
     else (let (r, e) = rnd w (env k) in
       map_option (\<lambda>n. (n, if n = - 1 then k else k\<lparr>env := e\<rparr>)) (GetClassifyBoxID r (m_cbox k) iStatus iSpec (- 1))) }"

text \<open>One round of the loop with the counter \<open>iOpenDoorCount\<close>: the answer, or the counter of the next round.\<close>

definition spec_step :: "'e world \<Rightarrow> int \<Rightarrow> int \<Rightarrow> nat \<Rightarrow> 'e kiosk \<Rightarrow> ((bool + nat) \<times> 'e kiosk) option" where
  "spec_step w iStatus iSpec iOpenDoorCount k = do {
     (iBox, k1) \<leftarrow> next_box w iStatus iSpec k;
     if iBox \<le> 0 then Some (Inl False, k1)
     else do {
       (bRes, k2) \<leftarrow> OpenDoorByIDState w iBox (k1\<lparr>m_iLogicalCurrentBox := iBox\<rparr>);
       if bRes then Some (Inl True, k2)
       else if iOpenDoorCount < 3 then Some (Inr (iOpenDoorCount + 1), k2\<lparr>m_iCurrentOpenBox := m_iLogicalCurrentBox k2\<rparr>)
       else do {
         k3 \<leftarrow> set_box (SetBoxHide (m_iLogicalCurrentBox k2) 1) k2;
         Some (Inr 0, if m_iCurrentOpenBox k3 > 0 then k3\<lparr>m_iCurrentOpenBox := - 1\<rparr> else k3) } } }"

partial_function (option) spec_loop :: "'e world \<Rightarrow> int \<Rightarrow> int \<Rightarrow> nat \<Rightarrow> 'e kiosk \<Rightarrow> (bool \<times> 'e kiosk) option" where
  "spec_loop w iStatus iSpec n k = do {
     (r, k') \<leftarrow> spec_step w iStatus iSpec n k;
     case r of Inl b \<Rightarrow> Some (b, k') | Inr n' \<Rightarrow> spec_loop w iStatus iSpec n' k' }"

definition OpenDoorBySpecState :: "'e world \<Rightarrow> int \<Rightarrow> 'e kiosk \<Rightarrow> (bool \<times> 'e kiosk) option" where
  "OpenDoorBySpecState w iFlashSpec k =
     (if m_iWorkMode k = WORKMODE_POST then spec_loop w 0 iFlashSpec 0 k
      else if m_iWorkMode k = WORKMODE_POSTMAN_TAKE then spec_loop w 1 iFlashSpec 0 k
      else Some (False, k))"

end
