(* ===== verification/DoorProofs.thy ===== *)
theory DoorProofs
  imports Doors
begin

text \<open>
  What the operations on doors of \<open>Doors\<close> guarantee: with a well-formed table nothing is read outside it,
  choosing and opening a box of a kind returns, with an open box or after hiding every box of the kind that
  did not open, and every box is tried exactly four times.
\<close>

section \<open>Nothing is read outside the table\<close>

lemma physical_box_total: "n \<le> length cs \<Longrightarrow> \<exists>v. physical_box cs n no = Some v"
  by (induction cs n no rule: physical_box.induct) auto

lemma physical_cabinet_total: "n \<le> length cs \<Longrightarrow> n \<le> length ids \<Longrightarrow> \<exists>v. physical_cabinet cs ids n no = Some v"
  by (induction cs ids n no rule: physical_cabinet.induct) auto

lemma physical_total:
  assumes "box_ok b"
  obtains c p where "GetPhysicalCabinet b no = Some c" "GetPhysicalBox b no = Some p"
proof -
  have "nat (m_iCabinetCount b) \<le> length (m_piBoxCount b)" "nat (m_iCabinetCount b) \<le> length (m_piCabinetID b)"
    using assms by (auto simp: box_defs)
  then show ?thesis using that physical_box_total physical_cabinet_total
    unfolding GetPhysicalBox_def GetPhysicalCabinet_def by blast
qed

lemma OpenLogicalBox_total: "box_ok (m_cbox k) \<Longrightarrow> \<exists>r e. OpenLogicalBox w i k = Some (r, k\<lparr>env := e\<rparr>)"
proof -
  assume "box_ok (m_cbox k)"
  then obtain c p where "GetPhysicalCabinet (m_cbox k) i = Some c" "GetPhysicalBox (m_cbox k) i = Some p"
    by (rule physical_total)
  then have "i \<noteq> 0 \<Longrightarrow> ?thesis"
    by (cases "lock_open w c p (env k)") (auto simp: OpenLogicalBox_def)
  moreover have "OpenLogicalBox w 0 k = Some (False, k\<lparr>env := env k\<rparr>)" by (simp add: OpenLogicalBox_def)
  ultimately show ?thesis by blast
qed

definition in_table :: "cbox \<Rightarrow> int \<Rightarrow> bool" where
  "in_table b i \<longleftrightarrow> box_ok b \<and> 0 < i \<and> i \<le> m_iBoxCountTotal b"

lemma setter_in: "m_iBoxCountTotal b \<le> int (length xs) \<Longrightarrow> 0 < i \<Longrightarrow> i \<le> m_iBoxCountTotal b \<Longrightarrow>
    setter xs b i v = Some (xs[nat (i - 1) := v])"
  by (simp add: setter_def put_at_def)

lemma getter_at: "m_iBoxCountTotal b \<le> int (length xs) \<Longrightarrow> 0 < i \<Longrightarrow> i \<le> m_iBoxCountTotal b \<Longrightarrow>
    getter xs b i = Some (xs ! nat (i - 1))"
  using getter_in [of "nat (i - 1)" xs b] by simp

lemma setters_in:
  assumes "in_table b i"
  shows "SetOpenFail i v b = Some (b\<lparr>m_piOpenFail := (m_piOpenFail b)[nat (i - 1) := v]\<rparr>)"
    "SetBoxHide i v b = Some (b\<lparr>m_piBoxHide := (m_piBoxHide b)[nat (i - 1) := v]\<rparr>)"
    "SetBoxLocalPackage i v b = Some (b\<lparr>m_piBoxLocalPackage := (m_piBoxLocalPackage b)[nat (i - 1) := v]\<rparr>)"
    "SetBoxHostTimeoutAvailable i v b = Some (b\<lparr>m_piBoxHostTimeoutAvailable := (m_piBoxHostTimeoutAvailable b)[nat (i - 1) := v]\<rparr>)"
    "SetBoxHostPackageAvailable i v b = Some (b\<lparr>m_piBoxHostPackageAvailable := (m_piBoxHostPackageAvailable b)[nat (i - 1) := v]\<rparr>)"
    "GetOpenFail b i = Some (m_piOpenFail b ! nat (i - 1))"
    "GetClassifyBoxSpec b i = Some (m_piBoxSpec b ! nat (i - 1))"
    "GetStatus b i = Some (m_piStatus b ! nat (i - 1))"
  using assms
  by (auto simp: in_table_def box_defs SetOpenFail_def SetBoxHide_def SetBoxLocalPackage_def SetBoxHostTimeoutAvailable_def
      SetBoxHostPackageAvailable_def GetOpenFail_def GetClassifyBoxSpec_def GetStatus_def setter_in getter_at at_def)

lemma GetBoxName_total: "box_ok b \<Longrightarrow> \<exists>n. GetBoxName b i = Some n"
  by (auto simp: GetBoxName_def at_def box_defs)

lemma in_table_set: "in_table b i \<Longrightarrow> in_table (b\<lparr>m_piOpenFail := (m_piOpenFail b)[j := v]\<rparr>) i"
    "in_table b i \<Longrightarrow> in_table (b\<lparr>m_piBoxHide := (m_piBoxHide b)[j := v]\<rparr>) i"
    "in_table b i \<Longrightarrow> in_table (b\<lparr>m_piBoxLocalPackage := (m_piBoxLocalPackage b)[j := v]\<rparr>) i"
    "in_table b i \<Longrightarrow> in_table (b\<lparr>m_piBoxHostTimeoutAvailable := (m_piBoxHostTimeoutAvailable b)[j := v]\<rparr>) i"
    "in_table b i \<Longrightarrow> in_table (b\<lparr>m_piBoxHostPackageAvailable := (m_piBoxHostPackageAvailable b)[j := v]\<rparr>) i"
  by (auto simp: in_table_def box_defs)

lemma UpdateDataToDB_frame: "UpdateDataToDB w i k = (ok, k') \<Longrightarrow>
    m_cbox k' = m_cbox k \<and> m_iWorkMode k' = m_iWorkMode k \<and> m_iLogicalCurrentBox k' = m_iLogicalCurrentBox k"
  by (auto simp: UpdateDataToDB_def Let_def split: if_splits prod.splits)

lemma set_box_in:
  assumes "in_table (m_cbox k) i"
  shows "\<exists>b. set_box (SetOpenFail i v) k = Some (k\<lparr>m_cbox := b\<rparr>) \<and> in_table b i"
    "\<exists>b. set_box (SetBoxHide i v) k = Some (k\<lparr>m_cbox := b\<rparr>) \<and> in_table b i"
    "\<exists>b. set_box (SetBoxLocalPackage i v) k = Some (k\<lparr>m_cbox := b\<rparr>) \<and> in_table b i"
    "\<exists>b. set_box (SetBoxHostTimeoutAvailable i v) k = Some (k\<lparr>m_cbox := b\<rparr>) \<and> in_table b i"
    "\<exists>b. set_box (SetBoxHostPackageAvailable i v) k = Some (k\<lparr>m_cbox := b\<rparr>) \<and> in_table b i"
  using assms in_table_set [OF assms] by (auto simp: set_box_def setters_in)

lemma door_opened_total:
  assumes "in_table (m_cbox k) (m_iLogicalCurrentBox k)"
  shows "\<exists>k'. door_opened w k = Some k'"
proof -
  let ?i = "m_iLogicalCurrentBox k"
  obtain b1 where 1: "set_box (SetOpenFail ?i 0) k = Some (k\<lparr>m_cbox := b1\<rparr>)" "in_table b1 ?i"
    using set_box_in(1) [OF assms] by blast
  define k2 where "k2 = k\<lparr>m_cbox := b1, m_vBoxDoorStatus := (m_vBoxDoorStatus k)(?i - 1 \<mapsto> 0)\<rparr>"
  have "in_table (m_cbox k2) ?i" using 1 by (simp add: k2_def)
  then obtain b3 where 3: "set_box (SetBoxLocalPackage ?i 0) k2 = Some (k2\<lparr>m_cbox := b3\<rparr>)" "in_table b3 ?i"
    using set_box_in(3) by blast
  then obtain b4 where 4: "set_box (SetBoxHostTimeoutAvailable ?i 0) (k2\<lparr>m_cbox := b3\<rparr>) = Some (k2\<lparr>m_cbox := b4\<rparr>)"
    "in_table b4 ?i" using set_box_in(4) [of "k2\<lparr>m_cbox := b3\<rparr>" ?i 0] by auto
  then obtain b5 where 5: "set_box (SetBoxHostPackageAvailable ?i 0) (k2\<lparr>m_cbox := b4\<rparr>) = Some (k2\<lparr>m_cbox := b5\<rparr>)"
    "in_table b5 ?i" using set_box_in(5) [of "k2\<lparr>m_cbox := b4\<rparr>" ?i 0] by auto
  obtain ok k6 where 6: "UpdateDataToDB w ?i (k2\<lparr>m_cbox := b5, env := snd (UpdateTimeoutBoxToPostman w ?i (env k2))\<rparr>) = (ok, k6)"
    by (metis surj_pair)
  then have "in_table (m_cbox k6) ?i" using 5 UpdateDataToDB_frame by fastforce
  then have "\<exists>k7. (if ok then Some k6 else set_box (SetBoxHide ?i 1) k6) = Some k7" using set_box_in(2) [of k6 ?i 1] by (cases ok) auto
  then show ?thesis using 1 3 4 5 6 by (auto simp: door_opened_def Let_def k2_def [symmetric] case_prod_beta)
qed

text \<open>A door that did not open changes the count of its failures, and nothing else the choice of a box reads.\<close>

text \<open>What opening by number leaves: in delivery mode exactly one more failure of the box.\<close>

definition kept :: "'e kiosk \<Rightarrow> 'e kiosk \<Rightarrow> bool" where
  "kept k k' \<longleftrightarrow> box_ok (m_cbox k') \<and> (\<exists>f. m_cbox k' = (m_cbox k)\<lparr>m_piOpenFail := f\<rparr>)
     \<and> m_iWorkMode k' = m_iWorkMode k \<and> m_iCurrentOpenBox k' = m_iCurrentOpenBox k"

lemma LoadPackage_frame: "LoadPackageByBoxIDFromDB w i k = (r, k') \<Longrightarrow> m_cbox k' = m_cbox k
    \<and> m_iWorkMode k' = m_iWorkMode k \<and> m_iCurrentOpenBox k' = m_iCurrentOpenBox k \<and> m_iLogicalCurrentBox k' = m_iLogicalCurrentBox k"
  by (auto simp: LoadPackageByBoxIDFromDB_def split: if_splits prod.splits option.splits list.splits)

lemma door_failed_total:
  assumes "in_table (m_cbox k) (m_iLogicalCurrentBox k)"
  shows "\<exists>k'. door_failed k = Some k' \<and> kept k k' \<and> m_iLogicalCurrentBox k' = m_iLogicalCurrentBox k"
  using assms in_table_set(1) [OF assms]
  by (auto simp: door_failed_def set_box_def setters_in kept_def Let_def in_table_def)

lemma OpenDoorByIDState_total:
  assumes "in_table (m_cbox k) i" "m_iLogicalCurrentBox k = i"
  shows "\<exists>r k'. OpenDoorByIDState w i k = Some (r, k') \<and> (\<not> r \<longrightarrow> kept k k' \<and> m_iLogicalCurrentBox k' = i)"
proof -
  have i: "0 < i" "box_ok (m_cbox k)" using assms by (auto simp: in_table_def)
  define g where "g = (if m_iWorkMode k = WORKMODE_TAKE \<or> m_iWorkMode k = WORKMODE_MANAGER_TAKE \<or> m_iWorkMode k = WORKMODE_POSTMAN_TAKE
           then (let (r, k') = LoadPackageByBoxIDFromDB w i k in (r \<noteq> None, k')) else (True, k))"
  obtain can k1 where k1: "g = (can, k1)" by (metis surj_pair)
  then have f: "m_cbox k1 = m_cbox k" "m_iWorkMode k1 = m_iWorkMode k" "m_iCurrentOpenBox k1 = m_iCurrentOpenBox k"
      "m_iLogicalCurrentBox k1 = m_iLogicalCurrentBox k"
    unfolding g_def by (auto split: if_splits prod.splits dest: LoadPackage_frame)
  obtain name where n: "GetBoxName (m_cbox k1) i = Some name" using GetBoxName_total i f by metis
  let ?k = "k1\<lparr>m_iLogicalCurrentBox := i, m_csCurrentBoxID := name\<rparr>"
  obtain r e where o: "OpenLogicalBox w i ?k = Some (r, ?k\<lparr>env := e\<rparr>)"
    using OpenLogicalBox_total [of ?k w i] i f by auto
  have t: "in_table (m_cbox (?k\<lparr>env := e\<rparr>)) (m_iLogicalCurrentBox (?k\<lparr>env := e\<rparr>))" using assms f by simp
  have "OpenDoorByIDState w i k = (if \<not> can then Some (False, k1)
      else map_option (Pair r) (if r then door_opened w (?k\<lparr>env := e\<rparr>) else door_failed (?k\<lparr>env := e\<rparr>)))"
    unfolding OpenDoorByIDState_def g_def [symmetric] using i k1 n o by (auto simp: map_conv_bind_option comp_def)
  moreover obtain k2 where "door_opened w (?k\<lparr>env := e\<rparr>) = Some k2" using door_opened_total [OF t, of w] by blast
  moreover obtain k3 where "door_failed (?k\<lparr>env := e\<rparr>) = Some k3" "kept (?k\<lparr>env := e\<rparr>) k3" "m_iLogicalCurrentBox k3 = i"
    using door_failed_total [OF t] by auto
  moreover from this have "kept k k3" using f by (simp add: kept_def)
  moreover have "kept k k1" using f i by (auto simp: kept_def intro: exI [of _ "m_piOpenFail (m_cbox k)"])
  ultimately show ?thesis using f(4) assms(2) by (cases can; cases r) auto
qed

section \<open>Opening a box of a kind\<close>

text \<open>A box with the status and the kind asked for, hidden or not.\<close>

definition fits :: "cbox \<Rightarrow> int \<Rightarrow> int \<Rightarrow> int \<Rightarrow> bool" where
  "fits b s sp i \<longleftrightarrow> 0 < i \<and> i \<le> m_iBoxCountTotal b \<and> m_piStatus b ! nat (i - 1) = s
     \<and> (sp = - 1 \<or> m_piBoxSpec b ! nat (i - 1) = sp)"

definition current_fits :: "cbox \<Rightarrow> int \<Rightarrow> int \<Rightarrow> int \<Rightarrow> bool" where
  "current_fits b s sp c \<longleftrightarrow> fits b s sp c \<and> m_piBoxSpec b ! nat (c - 1) = sp"

lemma keeps_current_of:
  assumes "box_ok b" "s \<noteq> - 1"
  shows "keeps_current b c s sp = Some (current_fits b s sp c)"
proof (cases "0 < c \<and> c \<le> m_iBoxCountTotal b")
  case True
  then have "in_table b c" using assms by (simp add: in_table_def)
  with True show ?thesis by (auto simp: keeps_current_def current_fits_def fits_def setters_in)
next
  case False
  then show ?thesis using assms(2)
    by (auto simp: keeps_current_def current_fits_def fits_def GetClassifyBoxSpec_def GetStatus_def getter_def)
qed

lemma next_box_of:
  assumes "box_ok (m_cbox k)" "s \<noteq> - 1"
  obtains (current) "current_fits (m_cbox k) s sp (m_iCurrentOpenBox k)" "next_box w s sp k = Some (m_iCurrentOpenBox k, k)"
  | (none) "\<not> current_fits (m_cbox k) s sp (m_iCurrentOpenBox k)" "chosen (m_cbox k) s sp (- 1) = []"
      "next_box w s sp k = Some (- 1, k)"
  | (other) i e where "\<not> current_fits (m_cbox k) s sp (m_iCurrentOpenBox k)" "0 < i" "nat (i - 1) \<in> set (chosen (m_cbox k) s sp (- 1))"
      "next_box w s sp k = Some (i, k\<lparr>env := e\<rparr>)"
proof (cases "current_fits (m_cbox k) s sp (m_iCurrentOpenBox k)")
  case True
  then show ?thesis using that(1) keeps_current_of [OF assms] by (simp add: next_box_def)
next
  case False
  let ?c = "chosen (m_cbox k) s sp (- 1)"
  obtain r e where r: "rnd w (env k) = (r, e)" by (metis surj_pair)
  show ?thesis
  proof (cases "?c = []")
    case True
    then show ?thesis using that(2) False r keeps_current_of [OF assms] GetClassifyBoxID_of [OF assms(1)]
      by (simp add: next_box_def)
  next
    case ne: False
    then have "?c ! (r mod length ?c) \<in> set ?c" by simp
    then show ?thesis using that(3) [of "int (?c ! (r mod length ?c)) + 1" e] ne False r
        keeps_current_of [OF assms] GetClassifyBoxID_of [OF assms(1)] by (simp add: next_box_def)
  qed
qed

lemma chosen_fits: "nat (i - 1) \<in> set (chosen b s sp (- 1)) \<Longrightarrow> 0 < i \<Longrightarrow> s \<noteq> - 1 \<Longrightarrow> fits b s sp i \<and> m_piBoxHide b ! nat (i - 1) = 0"
  by (auto simp: set_chosen qualifies_def fits_def)

lemma chosen_openfail [simp]: "chosen (b\<lparr>m_piOpenFail := x\<rparr>) s sp h = chosen b s sp h"
  unfolding chosen_def by (simp add: qualifies_def [abs_def])

lemma fits_openfail [simp]: "fits (b\<lparr>m_piOpenFail := x\<rparr>) s sp i = fits b s sp i"
    "current_fits (b\<lparr>m_piOpenFail := x\<rparr>) s sp i = current_fits b s sp i"
    "fits (b\<lparr>m_piBoxHide := x\<rparr>) s sp i = fits b s sp i"
    "current_fits (b\<lparr>m_piBoxHide := x\<rparr>) s sp i = current_fits b s sp i"
  by (simp_all add: fits_def current_fits_def)

lemma chosen_hide:
  assumes "in_table b i"
  shows "chosen (b\<lparr>m_piBoxHide := (m_piBoxHide b)[nat (i - 1) := 1]\<rparr>) s sp h = filter (\<lambda>j. j \<noteq> nat (i - 1)) (chosen b s sp h)"
proof -
  have "nat (i - 1) < length (m_piBoxHide b)" using assms by (auto simp: in_table_def box_defs)
  then show ?thesis unfolding chosen_def filter_filter
    by (intro filter_cong) (auto simp: qualifies_def nth_list_update split: if_splits)
qed

text \<open>The measure of the loop: what is left to try, four times each.\<close>

definition left_over :: "int \<Rightarrow> int \<Rightarrow> nat \<Rightarrow> 'e kiosk \<Rightarrow> nat" where
  "left_over s sp n k = (let c = m_iCurrentOpenBox k; b = m_cbox k in
     4 * length (chosen b s sp (- 1)) + (if current_fits b s sp c \<and> nat (c - 1) \<notin> set (chosen b s sp (- 1)) then 4 else 0) + (3 - n))"

text \<open>A later table of the loop.\<close>

definition hidden_more :: "cbox \<Rightarrow> cbox \<Rightarrow> bool" where
  "hidden_more b b' \<longleftrightarrow> (\<exists>f h. b' = b\<lparr>m_piOpenFail := f, m_piBoxHide := h\<rparr>
     \<and> (\<forall>i. h ! i = 0 \<longrightarrow> m_piBoxHide b ! i = 0))"

lemma hidden_moreI: "b' = b\<lparr>m_piOpenFail := f, m_piBoxHide := h\<rparr> \<Longrightarrow> (\<And>i. h ! i = 0 \<Longrightarrow> m_piBoxHide b ! i = 0) \<Longrightarrow> hidden_more b b'"
  unfolding hidden_more_def by blast

lemma hidden_more_trans: "hidden_more a b \<Longrightarrow> hidden_more b c \<Longrightarrow> hidden_more a c"
proof -
  assume "hidden_more a b" "hidden_more b c"
  then obtain f h f' h' where "b = a\<lparr>m_piOpenFail := f, m_piBoxHide := h\<rparr>" "c = b\<lparr>m_piOpenFail := f', m_piBoxHide := h'\<rparr>"
    "\<And>i. h ! i = 0 \<Longrightarrow> m_piBoxHide a ! i = 0" "\<And>i. h' ! i = 0 \<Longrightarrow> m_piBoxHide b ! i = 0"
    unfolding hidden_more_def by blast
  then show ?thesis by (intro hidden_moreI [where f = f' and h = h']) simp_all
qed

lemma hidden_more_refl [simp]: "hidden_more b b"
  by (rule hidden_moreI [where f = "m_piOpenFail b" and h = "m_piBoxHide b"]) simp_all

lemma hidden_more_fits: "hidden_more a b \<Longrightarrow> fits b s sp i = fits a s sp i"
  by (auto simp: hidden_more_def)

lemma kept_hidden: "kept k k' \<Longrightarrow> hidden_more (m_cbox k) (m_cbox k')"
  unfolding kept_def by (elim conjE exE, rule hidden_moreI [where h = "m_piBoxHide (m_cbox k)"]) simp_all

lemma set_hide_hidden:
  assumes "in_table b i"
  shows "hidden_more b (b\<lparr>m_piBoxHide := (m_piBoxHide b)[nat (i - 1) := 1]\<rparr>)"
  by (rule hidden_moreI [where f = "m_piOpenFail b" and h = "(m_piBoxHide b)[nat (i - 1) := 1]"])
    (use assms in \<open>auto simp: nth_list_update in_table_def box_defs split: if_splits\<close>)

lemma kept_in_table: "kept k k' \<Longrightarrow> in_table (m_cbox k) i \<Longrightarrow> in_table (m_cbox k') i"
  by (auto simp: kept_def in_table_def)

lemma step_opened:
  assumes "box_ok (m_cbox k)" "s \<noteq> - 1" "next_box w s sp k = Some (i, k1)" "0 < i" "i \<le> m_iBoxCountTotal (m_cbox k)"
    "m_cbox k1 = m_cbox k" "m_iCurrentOpenBox k1 = m_iCurrentOpenBox k"
  obtains (opened) k2 where "spec_step w s sp n k = Some (Inl True, k2)"
      "OpenDoorByIDState w i (k1\<lparr>m_iLogicalCurrentBox := i\<rparr>) = Some (True, k2)"
  | (again) k2 where "n < 3" "spec_step w s sp n k = Some (Inr (n + 1), k2\<lparr>m_iCurrentOpenBox := i\<rparr>)" "kept k1 k2"
      "OpenDoorByIDState w i (k1\<lparr>m_iLogicalCurrentBox := i\<rparr>) = Some (False, k2)"
  | (hide) k2 b c where "3 \<le> n" "spec_step w s sp n k = Some (Inr 0, k2\<lparr>m_cbox := b, m_iCurrentOpenBox := c\<rparr>)" "kept k1 k2"
      "OpenDoorByIDState w i (k1\<lparr>m_iLogicalCurrentBox := i\<rparr>) = Some (False, k2)" "c \<le> 0"
      "b = (m_cbox k2)\<lparr>m_piBoxHide := (m_piBoxHide (m_cbox k2))[nat (i - 1) := 1]\<rparr>"
proof -
  let ?k = "k1\<lparr>m_iLogicalCurrentBox := i\<rparr>"
  have t: "in_table (m_cbox ?k) i" using assms by (simp add: in_table_def)
  from OpenDoorByIDState_total [OF this, of w] obtain r k2 where
    r: "OpenDoorByIDState w i ?k = Some (r, k2)" "\<not> r \<longrightarrow> kept ?k k2 \<and> m_iLogicalCurrentBox k2 = i" by auto
  show ?thesis
  proof (cases r)
    case True
    then show ?thesis using that(1) [of k2] r assms(3,4) by (simp add: spec_step_def)
  next
    case False
    with r have k2: "kept k1 k2" "m_iLogicalCurrentBox k2 = i" by (auto simp: kept_def)
    have "in_table (m_cbox k2) i" using k2 t by (auto intro: kept_in_table)
    then have h: "SetBoxHide i 1 (m_cbox k2) = Some ((m_cbox k2)\<lparr>m_piBoxHide := (m_piBoxHide (m_cbox k2))[nat (i - 1) := 1]\<rparr>)"
      by (rule setters_in)
    show ?thesis
    proof (cases "n < 3")
      case True
      then show ?thesis using that(2) [of k2] False r k2 assms(3,4) by (simp add: spec_step_def)
    next
      case n3: False
      let ?b = "(m_cbox k2)\<lparr>m_piBoxHide := (m_piBoxHide (m_cbox k2))[nat (i - 1) := 1]\<rparr>"
      let ?c = "if m_iCurrentOpenBox k2 > 0 then - 1 else m_iCurrentOpenBox k2"
      have S: "spec_step w s sp n k = Some (Inr 0, k2\<lparr>m_cbox := ?b, m_iCurrentOpenBox := ?c\<rparr>)"
        using n3 False r k2 h assms(3,4) by (simp add: spec_step_def set_box_def)
      show ?thesis by (rule that(3) [OF _ S]) (use n3 False r k2 in simp_all)
    qed
  qed
qed

text \<open>A round that goes on has less left to try.\<close>

lemma again_less:
  assumes "n < 3" "kept k k2" "m_iCurrentOpenBox k = i \<or> nat (i - 1) \<in> set (chosen (m_cbox k) s sp (- 1))
    \<and> \<not> current_fits (m_cbox k) s sp (m_iCurrentOpenBox k)"
  shows "left_over s sp (n + 1) (k2\<lparr>m_iCurrentOpenBox := i\<rparr>) < left_over s sp n k"
  using assms by (auto simp: left_over_def Let_def kept_def)

lemma hide_less:
  assumes "kept k k2" "in_table (m_cbox k) i" "c \<le> 0" "current_fits (m_cbox k) s sp (m_iCurrentOpenBox k) \<and> m_iCurrentOpenBox k = i
      \<or> nat (i - 1) \<in> set (chosen (m_cbox k) s sp (- 1))"
  shows "left_over s sp 0 (k2\<lparr>m_cbox := (m_cbox k2)\<lparr>m_piBoxHide := (m_piBoxHide (m_cbox k2))[nat (i - 1) := 1]\<rparr>,
     m_iCurrentOpenBox := c\<rparr>) < left_over s sp n k"
proof -
  let ?c = "chosen (m_cbox k) s sp (- 1)"
  have "chosen (m_cbox k2) s sp (- 1) = ?c" using assms(1) by (auto simp: kept_def)
  then have ch: "chosen ((m_cbox k2)\<lparr>m_piBoxHide := (m_piBoxHide (m_cbox k2))[nat (i - 1) := 1]\<rparr>) s sp (- 1)
      = filter (\<lambda>j. j \<noteq> nat (i - 1)) ?c" using chosen_hide kept_in_table [OF assms(1,2)] by simp
  show ?thesis
  proof (cases "nat (i - 1) \<in> set ?c")
    case True
    then have "length (filter (\<lambda>j. j \<noteq> nat (i - 1)) ?c) < length ?c" by (rule length_filter_less) simp
    with ch assms(3) show ?thesis by (simp add: left_over_def Let_def current_fits_def fits_def)
  next
    case False
    then have "filter (\<lambda>j. j \<noteq> nat (i - 1)) ?c = ?c" by (auto simp: filter_id_conv)
    with ch False assms show ?thesis by (auto simp: left_over_def Let_def current_fits_def fits_def)
  qed
qed

lemma spec_loop_step: "spec_step w s sp n k = Some (Inr m, k1) \<Longrightarrow> spec_loop w s sp n k = spec_loop w s sp m k1"
    "spec_step w s sp n k = Some (Inl b, k1) \<Longrightarrow> spec_loop w s sp n k = Some (b, k1)"
  by (simp_all add: spec_loop.simps [of w s sp n k])

definition loop_result :: "'e world \<Rightarrow> int \<Rightarrow> int \<Rightarrow> 'e kiosk \<Rightarrow> bool \<Rightarrow> 'e kiosk \<Rightarrow> bool" where
  "loop_result w s sp k r k' \<longleftrightarrow>
     (if r then \<exists>i k1. OpenDoorByIDState w i k1 = Some (True, k') \<and> fits (m_cbox k) s sp i
        \<and> (m_piBoxHide (m_cbox k) ! nat (i - 1) = 0 \<or> i = m_iCurrentOpenBox k) \<and> hidden_more (m_cbox k) (m_cbox k1)
      else chosen (m_cbox k') s sp (- 1) = [] \<and> box_ok (m_cbox k') \<and> hidden_more (m_cbox k) (m_cbox k'))"

lemma loop_result_later:
  assumes "loop_result w s sp k1 r k'" "hidden_more (m_cbox k) (m_cbox k1)"
    and "m_iCurrentOpenBox k1 \<le> 0 \<or> m_iCurrentOpenBox k1 = m_iCurrentOpenBox k \<or> m_piBoxHide (m_cbox k) ! nat (m_iCurrentOpenBox k1 - 1) = 0"
  shows "loop_result w s sp k r k'"
proof (cases r)
  case False
  with assms(1,2) show ?thesis by (auto simp: loop_result_def intro: hidden_more_trans)
next
  case True
  with assms(1) obtain i k2 where i: "OpenDoorByIDState w i k2 = Some (True, k')" "fits (m_cbox k1) s sp i"
      "m_piBoxHide (m_cbox k1) ! nat (i - 1) = 0 \<or> i = m_iCurrentOpenBox k1" "hidden_more (m_cbox k1) (m_cbox k2)"
    by (auto simp: loop_result_def)
  have "m_piBoxHide (m_cbox k1) ! nat (i - 1) = 0 \<Longrightarrow> m_piBoxHide (m_cbox k) ! nat (i - 1) = 0"
    using assms(2) by (auto simp: hidden_more_def)
  moreover have "0 < i" using i(2) by (simp add: fits_def)
  ultimately have "m_piBoxHide (m_cbox k) ! nat (i - 1) = 0 \<or> i = m_iCurrentOpenBox k" using i(3) assms(3) by auto
  moreover have "hidden_more (m_cbox k) (m_cbox k2)" using hidden_more_trans [OF assms(2) i(4)] .
  ultimately show ?thesis using True i hidden_more_fits [OF assms(2)] by (auto simp: loop_result_def)
qed

text \<open>What the round tries, in one form for the two ways of choosing.\<close>

lemma next_box_cases:
  assumes "box_ok (m_cbox k)" "s \<noteq> - 1"
  obtains (none) "chosen (m_cbox k) s sp (- 1) = []" "\<not> current_fits (m_cbox k) s sp (m_iCurrentOpenBox k)" "next_box w s sp k = Some (- 1, k)"
  | (some) i e where "next_box w s sp k = Some (i, k\<lparr>env := e\<rparr>)" "in_table (m_cbox k) i" "fits (m_cbox k) s sp i"
      "current_fits (m_cbox k) s sp (m_iCurrentOpenBox k) \<and> m_iCurrentOpenBox k = i
       \<or> \<not> current_fits (m_cbox k) s sp (m_iCurrentOpenBox k) \<and> nat (i - 1) \<in> set (chosen (m_cbox k) s sp (- 1))"
proof (cases rule: next_box_of [OF assms, of sp w])
  case 1
  then show ?thesis using that(2) [of "m_iCurrentOpenBox k" "env k"] assms
    by (auto simp: current_fits_def fits_def in_table_def)
next
  case 2
  then show ?thesis using that(1) by blast
next
  case (3 i e)
  then have "fits (m_cbox k) s sp i" using chosen_fits assms by blast
  then show ?thesis using that(2) [of i e] 3 assms by (auto simp: fits_def in_table_def)
qed

lemma fits_hide: "nat (i - 1) \<in> set (chosen b s sp (- 1)) \<Longrightarrow> m_piBoxHide b ! nat (i - 1) = 0"
  by (simp add: set_chosen qualifies_def)

lemma spec_loop_returns:
  assumes "box_ok (m_cbox k)" "s \<noteq> - 1"
  shows "\<exists>r k'. spec_loop w s sp n k = Some (r, k') \<and> loop_result w s sp k r k'"
  using assms(1)
proof (induction "left_over s sp n k" arbitrary: n k rule: less_induct)
  case less
  note ok = less.prems
  show ?case
  proof (cases rule: next_box_cases [OF ok assms(2), of sp w])
    case 1
    then have "spec_step w s sp n k = Some (Inl False, k)" by (simp add: spec_step_def)
    then show ?thesis using 1 ok spec_loop_step(2) by (fastforce simp: loop_result_def)
  next
    case (2 i e)
    let ?k1 = "k\<lparr>env := e\<rparr>"
    note t = 2(2)
    have new: "m_piBoxHide (m_cbox k) ! nat (i - 1) = 0 \<or> i = m_iCurrentOpenBox k" using 2(4) fits_hide by auto
    have pos: "0 < i" "i \<le> m_iBoxCountTotal (m_cbox k)" using t by (simp_all add: in_table_def)
    show ?thesis
    proof (cases rule: step_opened [OF ok assms(2) 2(1) pos, simplified, of n])
      case (1 k2)
      have "loop_result w s sp k True k2" unfolding loop_result_def using 1(2) 2(3) new
        by (auto intro!: exI [of _ i] exI [of _ "?k1\<lparr>m_iLogicalCurrentBox := i\<rparr>"])
      then show ?thesis using spec_loop_step(2) [OF 1(1)] by blast
    next
      case (2 k2)
      let ?k = "k2\<lparr>m_iCurrentOpenBox := i\<rparr>"
      have kk: "kept k k2" using 2(3) by (simp add: kept_def)
      have "left_over s sp (n + 1) ?k < left_over s sp n k"
        by (rule again_less [OF 2(1) kk]) (use \<open>_ \<or> _ \<and> nat (i - 1) \<in> _\<close> in blast)
      moreover have "box_ok (m_cbox ?k)" using kk by (simp add: kept_def)
      ultimately obtain r k' where "spec_loop w s sp (n + 1) ?k = Some (r, k')" "loop_result w s sp ?k r k'"
        using less.hyps by blast
      then show ?thesis using spec_loop_step(1) [OF 2(2)] loop_result_later [of w s sp ?k r k' k] kept_hidden [OF kk] new by auto
    next
      case (3 k2 b c)
      let ?k = "k2\<lparr>m_cbox := b, m_iCurrentOpenBox := c\<rparr>"
      have kk: "kept k k2" using 3(3) by (simp add: kept_def)
      have t2: "in_table (m_cbox k2) i" using kept_in_table [OF kk t] .
      have "left_over s sp 0 ?k < left_over s sp n k" unfolding 3(6)
        by (rule hide_less [OF kk t 3(5)]) (use \<open>_ \<or> _ \<and> nat (i - 1) \<in> _\<close> in blast)
      moreover have "box_ok (m_cbox ?k)" using in_table_set(2) [OF t2] 3(6) by (simp add: in_table_def)
      ultimately obtain r k' where "spec_loop w s sp 0 ?k = Some (r, k')" "loop_result w s sp ?k r k'"
        using less.hyps by blast
      moreover have "hidden_more (m_cbox k) (m_cbox ?k)"
        using hidden_more_trans [OF kept_hidden [OF kk] set_hide_hidden [OF t2]] 3(6) by simp
      ultimately show ?thesis using spec_loop_step(1) [OF 3(2)] loop_result_later [of w s sp ?k r k' k] 3(5,6) by auto
    qed
  qed
qed

text \<open>How often each box is tried when none opens.\<close>

lemma OpenDoorByIDState_post:
  assumes "in_table (m_cbox k) i" "m_iWorkMode k = WORKMODE_POST" "OpenDoorByIDState w i k = Some (False, k')"
  shows "m_piOpenFail (m_cbox k') = (m_piOpenFail (m_cbox k))[nat (i - 1) := m_piOpenFail (m_cbox k) ! nat (i - 1) + 1]"
proof -
  obtain name where n: "GetBoxName (m_cbox k) i = Some name" using GetBoxName_total assms(1) by (auto simp: in_table_def)
  let ?k = "k\<lparr>m_iLogicalCurrentBox := i, m_csCurrentBoxID := name\<rparr>"
  obtain r e where o: "OpenLogicalBox w i ?k = Some (r, ?k\<lparr>env := e\<rparr>)"
    using OpenLogicalBox_total [of ?k w i] assms(1) by (auto simp: in_table_def)
  have "0 < i" using assms(1) by (simp add: in_table_def)
  then have "OpenDoorByIDState w i k = map_option (Pair r) (if r then door_opened w (?k\<lparr>env := e\<rparr>) else door_failed (?k\<lparr>env := e\<rparr>))"
    using assms(2) n o by (simp add: OpenDoorByIDState_def modes map_conv_bind_option comp_def)
  with assms(3) have "map_option (Pair r) (if r then door_opened w (?k\<lparr>env := e\<rparr>) else door_failed (?k\<lparr>env := e\<rparr>)) = Some (False, k')"
    by (simp only:)
  then have "door_failed (?k\<lparr>env := e\<rparr>) = Some k'" by (cases r) auto
  then show ?thesis using assms(1,2)
    by (auto simp: door_failed_def set_box_def setters_in Let_def modes)
qed

definition tries :: "int \<Rightarrow> int \<Rightarrow> nat \<Rightarrow> 'e kiosk \<Rightarrow> nat \<Rightarrow> int" where
  "tries s sp n k j = (if current_fits (m_cbox k) s sp (m_iCurrentOpenBox k) \<and> j = nat (m_iCurrentOpenBox k - 1) then 4 - int n
     else if j \<in> set (chosen (m_cbox k) s sp (- 1)) then 4 else 0)"

lemma tries_again:
  assumes "in_table (m_cbox k) i" "kept k k2" "fits (m_cbox k) s sp i" "sp \<noteq> - 1" "int j < m_iBoxCountTotal (m_cbox k)"
    "m_piOpenFail (m_cbox k2) = (m_piOpenFail (m_cbox k))[nat (i - 1) := m_piOpenFail (m_cbox k) ! nat (i - 1) + 1]"
    "current_fits (m_cbox k) s sp (m_iCurrentOpenBox k) \<and> m_iCurrentOpenBox k = i
       \<or> n = 0 \<and> \<not> current_fits (m_cbox k) s sp (m_iCurrentOpenBox k) \<and> nat (i - 1) \<in> set (chosen (m_cbox k) s sp (- 1))"
  shows "m_piOpenFail (m_cbox k2) ! j + tries s sp (n + 1) (k2\<lparr>m_iCurrentOpenBox := i\<rparr>) j = m_piOpenFail (m_cbox k) ! j + tries s sp n k j"
proof -
  have "j < length (m_piOpenFail (m_cbox k))" using assms(1,5) by (auto simp: in_table_def box_defs)
  then have o: "m_piOpenFail (m_cbox k2) ! j = m_piOpenFail (m_cbox k) ! j + (if j = nat (i - 1) then 1 else 0)"
    by (simp add: assms(6) nth_list_update)
  have "current_fits (m_cbox k) s sp i" using assms(3,4) by (simp add: fits_def current_fits_def)
  then show ?thesis unfolding o using assms(2,7) by (auto simp: tries_def kept_def)
qed

lemma tries_hide:
  assumes "in_table (m_cbox k) i" "kept k k2" "int j < m_iBoxCountTotal (m_cbox k)" "c \<le> 0"
    "m_piOpenFail (m_cbox k2) = (m_piOpenFail (m_cbox k))[nat (i - 1) := m_piOpenFail (m_cbox k) ! nat (i - 1) + 1]"
    "current_fits (m_cbox k) s sp (m_iCurrentOpenBox k) \<and> m_iCurrentOpenBox k = i"
    "b = (m_cbox k2)\<lparr>m_piBoxHide := (m_piBoxHide (m_cbox k2))[nat (i - 1) := 1]\<rparr>"
  shows "m_piOpenFail b ! j + tries s sp 0 (k2\<lparr>m_cbox := b, m_iCurrentOpenBox := c\<rparr>) j = m_piOpenFail (m_cbox k) ! j + tries s sp 3 k j"
proof -
  have "j < length (m_piOpenFail (m_cbox k))" using assms(1,3) by (auto simp: in_table_def box_defs)
  then have o: "m_piOpenFail b ! j = m_piOpenFail (m_cbox k) ! j + (if j = nat (i - 1) then 1 else 0)"
    by (simp add: assms(5,7) nth_list_update)
  have "chosen b s sp (- 1) = filter (\<lambda>j. j \<noteq> nat (i - 1)) (chosen (m_cbox k2) s sp (- 1))"
    using chosen_hide kept_in_table [OF assms(2,1)] assms(7) by simp
  also have "chosen (m_cbox k2) s sp (- 1) = chosen (m_cbox k) s sp (- 1)" using assms(2) by (auto simp: kept_def)
  finally have ch: "chosen b s sp (- 1) = filter (\<lambda>j. j \<noteq> nat (i - 1)) (chosen (m_cbox k) s sp (- 1))" .
  have "\<not> current_fits b s sp c" using assms(4) by (simp add: current_fits_def fits_def)
  then show ?thesis unfolding o using ch assms(6) by (auto simp: tries_def)
qed

lemma spec_loop_tries:
  assumes "box_ok (m_cbox k)" "s \<noteq> - 1" "sp \<noteq> - 1" "m_iWorkMode k = WORKMODE_POST" "n \<le> 3"
    "n > 0 \<Longrightarrow> current_fits (m_cbox k) s sp (m_iCurrentOpenBox k)" "spec_loop w s sp n k = Some (False, k')" "int j < m_iBoxCountTotal (m_cbox k)"
  shows "m_piOpenFail (m_cbox k') ! j = m_piOpenFail (m_cbox k) ! j + tries s sp n k j"
  using assms(1,4-)
proof (induction "left_over s sp n k" arbitrary: n k rule: less_induct)
  case less
  note ok = less.prems(1)
  show ?case
  proof (cases rule: next_box_cases [OF ok assms(2), of sp w])
    case 1
    then have "spec_step w s sp n k = Some (Inl False, k)" by (simp add: spec_step_def)
    from spec_loop_step(2) [OF this] less.prems(5) 1 show ?thesis by (simp add: tries_def)
  next
    case (2 i e)
    let ?k1 = "k\<lparr>env := e\<rparr>"
    note t = 2(2) and which = 2(4)
    have pos: "0 < i" "i \<le> m_iBoxCountTotal (m_cbox k)" using t by (simp_all add: in_table_def)
    show ?thesis
    proof (cases rule: step_opened [OF ok assms(2) 2(1) pos, simplified, of n])
      case (1 k2)
      from spec_loop_step(2) [OF 1(1)] less.prems(5) show ?thesis by simp
    next
      case b: (2 k2)
      have kk: "kept k k2" using b(3) by (simp add: kept_def)
      have f: "m_piOpenFail (m_cbox k2) = (m_piOpenFail (m_cbox k))[nat (i - 1) := m_piOpenFail (m_cbox k) ! nat (i - 1) + 1]"
        using OpenDoorByIDState_post [OF _ _ b(4)] t less.prems(2) by simp
      have "left_over s sp (n + 1) (k2\<lparr>m_iCurrentOpenBox := i\<rparr>) < left_over s sp n k"
        by (rule again_less [OF b(1) kk]) (use which in blast)
      moreover have "current_fits (m_cbox k2) s sp i" using 2(3) assms(3) kk by (auto simp: kept_def fits_def current_fits_def)
      ultimately have "m_piOpenFail (m_cbox k') ! j = m_piOpenFail (m_cbox k2) ! j + tries s sp (n + 1) (k2\<lparr>m_iCurrentOpenBox := i\<rparr>) j"
        using less.hyps [of "n + 1" "k2\<lparr>m_iCurrentOpenBox := i\<rparr>"] b(1) kk less.prems(2,5,6) spec_loop_step(1) [OF b(2)]
        by (auto simp: kept_def)
      then show ?thesis using tries_again [OF t kk 2(3) assms(3) less.prems(6) f, of n] which less.prems(4) by auto
    next
      case h: (3 k2 b c)
      let ?k = "k2\<lparr>m_cbox := b, m_iCurrentOpenBox := c\<rparr>"
      have kk: "kept k k2" using h(3) by (simp add: kept_def)
      have f: "m_piOpenFail (m_cbox k2) = (m_piOpenFail (m_cbox k))[nat (i - 1) := m_piOpenFail (m_cbox k) ! nat (i - 1) + 1]"
        using OpenDoorByIDState_post [OF _ _ h(4)] t less.prems(2) by simp
      have n: "n = 3" and cur: "current_fits (m_cbox k) s sp (m_iCurrentOpenBox k) \<and> m_iCurrentOpenBox k = i"
        using h(1) less.prems(3,4) which by auto
      have "left_over s sp 0 ?k < left_over s sp n k" unfolding h(6) by (rule hide_less [OF kk t h(5)]) (use which in blast)
      moreover have "in_table b i" using in_table_set(2) [OF kept_in_table [OF kk t]] h(6) by simp
      moreover have "m_iBoxCountTotal b = m_iBoxCountTotal (m_cbox k)" using kk h(6) by (auto simp: kept_def)
      ultimately have "m_piOpenFail (m_cbox k') ! j = m_piOpenFail b ! j + tries s sp 0 ?k j"
        using less.hyps [of 0 ?k] kk less.prems(2,5,6) spec_loop_step(1) [OF h(2)] h(6) by (auto simp: kept_def in_table_def)
      then show ?thesis using tries_hide [OF t kk less.prems(6) h(5) f cur h(6)] n by simp
    qed
  qed
qed

section \<open>The properties\<close>

text \<open>A controller whose doors are stuck, whose database is empty, and a locker in delivery mode.\<close>

definition stuck :: "nat world" where
  "stuck = \<lparr>lock_open = \<lambda>c p e. (False, e), lock_status = \<lambda>c p e. (None, e), rnd = \<lambda>e. (e, Suc e), now = \<lambda>e. [],
     idle = \<lambda>e. (True, e), stop_check = \<lambda>e. (False, e), db_select = \<lambda>c e. (Some [], e), db_insert_pkg = \<lambda>p e. (False, e),
     db_insert_history = \<lambda>t r e. (False, e), db_delete_mail = \<lambda>m e. (False, e), db_commit = \<lambda>e. e, db_rollback = \<lambda>e. e,
     db_autocommit = \<lambda>b e. e, db_postmen = \<lambda>e. (None, e), db_set_timeout = \<lambda>i t e. (False, e), db_tq_rows = \<lambda>e. (None, e),
     db_tq_insert = \<lambda>t e. (False, e), db_tq_delete = \<lambda>t e. (False, e), db_tq_try = \<lambda>t n e. (False, e),
     net_socket = \<lambda>e. (False, e), net_connect = \<lambda>e. (False, e), net_send = \<lambda>d e. (0, e), net_recv = \<lambda>e. ((0, []), e),
     pack_body = \<lambda>k. [], unpack = \<lambda>d k. (0, k), save = \<lambda>k. k\<rparr>"

definition sample_kiosk :: "nat kiosk" where
  "sample_kiosk = \<lparr>env = 0, m_cbox = sample_box, m_iWorkMode = WORKMODE_POST, m_iLogicalCurrentBox = - 1, m_csCurrentBoxID = [],
     m_iCurrentOpenBox = - 1, m_vBoxDoorStatus = Map.empty, m_bSendBoxStatus = False, m_tranCode = [], m_iSerial = 1, m_pw = [],
     m_barCode = \<lambda>i. [], m_iBarCodeCount = 0, m_postmanID = [], m_PostLoginID = [], m_csExtraData = [], m_idcode = [], m_idname = [],
     m_iIsTakeoutDelaySend = 0, m_bSendTrans = False, m_bNetWorkFail = False, m_bReboot = False, m_csMobile = [], m_address = [],
     m_iDeadline = 1, m_iVerifyType = 1, m_iIsPostDelaySend = 0, m_iIsPostFailOpenDoor = 0, m_auHostKey = [], m_iLockerExist = 1,
     m_iLockerStatus = 0, m_iIsUpdateingStatusLocker = False, m_iIsUpdateingBoxStatus = False, m_bIsCheckingOpenDoor = False,
     screen = []\<rparr>"

lemma stuck_never: "OpenDoorByIDState stuck i k \<noteq> Some (True, k')"
  by (auto simp: OpenDoorByIDState_def OpenLogicalBox_def stuck_def Let_def split: if_splits prod.splits Option.bind_splits)

text \<open>C6: Choosing and opening a box of a kind always returns, whatever the controller and the database
  answer. When it says that a box is open, that box had the status and the kind asked for and was visible or
  the one remembered as open, and \<open>OpenDoorByIDState\<close> opened it; when it says there is none, no visible
  box with the status and the kind is left, and of the table only failure counts and hidden marks changed.\<close>

theorem OpenDoorBySpecState_returns:
  assumes "box_reach (m_cbox k)" "m_iWorkMode k = WORKMODE_POST \<and> s = 0 \<or> m_iWorkMode k = WORKMODE_POSTMAN_TAKE \<and> s = 1"
  shows "\<exists>r k'. OpenDoorBySpecState w sp k = Some (r, k') \<and>
    (if r then \<exists>i k1. OpenDoorByIDState w i k1 = Some (True, k') \<and> fits (m_cbox k) s sp i
        \<and> (m_piBoxHide (m_cbox k) ! nat (i - 1) = 0 \<or> i = m_iCurrentOpenBox k) \<and> hidden_more (m_cbox k) (m_cbox k1)
     else chosen (m_cbox k') s sp (- 1) = [] \<and> box_ok (m_cbox k') \<and> hidden_more (m_cbox k) (m_cbox k'))"
proof -
  have "OpenDoorBySpecState w sp k = spec_loop w s sp 0 k" using assms(2) by (auto simp: OpenDoorBySpecState_def modes)
  moreover have "s \<noteq> - 1" using assms(2) by auto
  from spec_loop_returns [OF reach_ok [OF assms(1)] this, of w sp 0] have "\<exists>r k'. spec_loop w s sp 0 k = Some (r, k') \<and> loop_result w s sp k r k'" .
  ultimately show ?thesis by (simp only: loop_result_def)
qed

theorem OpenDoorBySpecState_returns_witness:
  "\<exists>r k'. OpenDoorBySpecState stuck 1 sample_kiosk = Some (r, k')"
  using OpenDoorBySpecState_returns [of sample_kiosk 0 stuck 1] sample_reach by (auto simp: sample_kiosk_def)

text \<open>C26: In delivery mode a request for a kind that finds no box has tried each free visible box of
  that kind exactly four times, and no other box but the one remembered as open.\<close>

theorem OpenDoorBySpecState_tries:
  assumes "box_reach (m_cbox k)" "m_iWorkMode k = WORKMODE_POST" "sp \<noteq> - 1" "OpenDoorBySpecState w sp k = Some (False, k')"
    "0 < i" "i \<le> m_iBoxCountTotal (m_cbox k)"
  shows "GetOpenFail (m_cbox k') i = map_option (\<lambda>n. n + (if current_fits (m_cbox k) 0 sp (m_iCurrentOpenBox k) \<and> i = m_iCurrentOpenBox k
     \<or> nat (i - 1) \<in> set (chosen (m_cbox k) 0 sp (- 1)) then 4 else 0)) (GetOpenFail (m_cbox k) i)"
proof -
  have ok: "box_ok (m_cbox k)" using reach_ok [OF assms(1)] .
  have l: "spec_loop w 0 sp 0 k = Some (False, k')" using assms(2,4) by (simp add: OpenDoorBySpecState_def modes)
  have t: "in_table (m_cbox k) i" using ok assms(5,6) by (simp add: in_table_def)
  obtain r k'' where "spec_loop w 0 sp 0 k = Some (r, k'')" "loop_result w 0 sp k r k''"
    using spec_loop_returns [OF ok, of 0 w sp 0] by auto
  with l have h: "box_ok (m_cbox k')" "hidden_more (m_cbox k) (m_cbox k')" by (auto simp: loop_result_def)
  then have "m_iBoxCountTotal (m_cbox k') = m_iBoxCountTotal (m_cbox k)" by (auto simp: hidden_more_def)
  moreover have "m_piOpenFail (m_cbox k') ! nat (i - 1) = m_piOpenFail (m_cbox k) ! nat (i - 1) + tries 0 sp 0 k (nat (i - 1))"
    using spec_loop_tries [OF ok _ assms(3,2) _ _ l] assms(5,6) by simp
  moreover have "tries 0 sp 0 k (nat (i - 1)) = (if current_fits (m_cbox k) 0 sp (m_iCurrentOpenBox k) \<and> i = m_iCurrentOpenBox k
     \<or> nat (i - 1) \<in> set (chosen (m_cbox k) 0 sp (- 1)) then 4 else 0)"
    using assms(5) by (auto simp: tries_def current_fits_def fits_def)
  moreover have "in_table (m_cbox k') i" using h t by (auto simp: in_table_def hidden_more_def)
  ultimately show ?thesis using t by (simp add: setters_in)
qed

theorem OpenDoorBySpecState_tries_witness:
  "\<exists>k'. OpenDoorBySpecState stuck 1 sample_kiosk = Some (False, k') \<and> GetOpenFail (m_cbox k') 3 = Some 4"
proof -
  have k: "m_cbox sample_kiosk = sample_box" "m_iWorkMode sample_kiosk = WORKMODE_POST" "m_iCurrentOpenBox sample_kiosk = - 1"
    by (simp_all add: sample_kiosk_def)
  obtain r k' where "spec_loop stuck 0 1 0 sample_kiosk = Some (r, k')" "loop_result stuck 0 1 sample_kiosk r k'"
    using spec_loop_returns [of sample_kiosk 0 stuck 1 0] reach_ok [OF sample_reach] k by auto
  moreover from this have "\<not> r" using stuck_never by (auto simp: loop_result_def)
  ultimately have r: "OpenDoorBySpecState stuck 1 sample_kiosk = Some (False, k')" using k by (simp add: OpenDoorBySpecState_def)
  have b: "m_iBoxCountTotal sample_box = 5" "GetOpenFail sample_box 3 = Some 0" "nat 2 \<in> set (chosen sample_box 0 1 (- 1))"
    by (simp_all add: sample_box_def GetOpenFail_def getter_def at_def set_chosen qualifies_def)
  show ?thesis using OpenDoorBySpecState_tries [of sample_kiosk 1 stuck k' 3] r k b sample_reach
    by (simp add: current_fits_def fits_def)
qed

end
