(* ===== verification/Sensors.thy ===== *)
theory Sensors
  imports DoorProofs
begin

text \<open>
  What the locker program knows of its boxes (\<open>TranProDlg.cpp\<close>): \<open>UpdateStatusLocker\<close> reads the sensors of
  all cabinets, \<open>UpdateBoxStatus\<close> joins them with the package table, and the thread \<open>CheckOpenDoor\<close> waits
  until all doors are closed. \<open>stop_check\<close> stands for the state of the program and the flag that ends
  the thread.
\<close>

section \<open>The sensors\<close>

fun store_status :: "nat list \<Rightarrow> int \<Rightarrow> int list \<Rightarrow> cbox \<Rightarrow> cbox option" where
  "store_status [] i iStatus b = Some b"
| "store_status (j # js) i iStatus b = do {
     no \<leftarrow> GetLogicalBoxByPhysicalCabinetNO b i (int j + 1);
     c \<leftarrow> at iStatus (int j);
     b1 \<leftarrow> SetBoxHardwareClose no c b;
     no' \<leftarrow> GetLogicalBoxByPhysicalCabinetNO b1 i (int j + 1);
     e \<leftarrow> at iStatus (int j + 32);
     b2 \<leftarrow> SetBoxHardwareNotEmpty no' e b1;
     store_status js i iStatus b2 }"

fun read_cabinets :: "'e world \<Rightarrow> nat list \<Rightarrow> int list \<Rightarrow> 'e kiosk \<Rightarrow> 'e kiosk option" where
  "read_cabinets w [] iStatus k = Some k"
| "read_cabinets w (i # is) iStatus k = do {
     c \<leftarrow> GetCabinetID (m_cbox k) (int i + 1);
     let (r, e) = lock_status w c 0 (env k);
     case r of None \<Rightarrow> Some (k\<lparr>env := e, m_iLockerStatus := 1\<rparr>)
     | Some st \<Rightarrow> do {
         n \<leftarrow> GetBoxCount (m_cbox k) (int i + 1);
         b \<leftarrow> store_status [0..<nat n] (int i) (filled_buf st iStatus) (m_cbox k);
         read_cabinets w is (filled_buf st iStatus) (k\<lparr>env := e, m_cbox := b\<rparr>) } }"

definition UpdateStatusLocker :: "'e world \<Rightarrow> 'e kiosk \<Rightarrow> 'e kiosk option" where
  "UpdateStatusLocker w k =
     (if m_iIsUpdateingStatusLocker k then Some k
      else do {
        let k1 = k\<lparr>m_iIsUpdateingStatusLocker := True\<rparr>;
        k2 \<leftarrow> (if m_iLockerExist k1 \<noteq> 0
              then read_cabinets w [0..<nat (m_iCabinetCount (m_cbox k1))] new_buf (k1\<lparr>m_iLockerStatus := 0\<rparr>) else Some k1);
        Some (k2\<lparr>m_iIsUpdateingStatusLocker := False\<rparr>) })"

definition UpdateBoxStatus :: "'e world \<Rightarrow> 'e kiosk \<Rightarrow> 'e kiosk option" where
  "UpdateBoxStatus w k =
     (if m_iIsUpdateingBoxStatus k then Some k
      else do {
        k1 \<leftarrow> UpdateStatusLocker w (k\<lparr>m_iIsUpdateingBoxStatus := True\<rparr>);
        k2 \<leftarrow> UpdateLocalPackageStatus w k1;
        k3 \<leftarrow> set_box UpdateStatus k2;
        Some (k3\<lparr>m_iIsUpdateingBoxStatus := False\<rparr>) })"

section \<open>Doors left open\<close>

text \<open>The numbers and names of the open doors of one cabinet; \<open>iAllBoxCount\<close> boxes come before it.\<close>

fun open_boxes :: "cbox \<Rightarrow> int \<Rightarrow> int list \<Rightarrow> nat list \<Rightarrow> (int \<times> bytes) list option" where
  "open_boxes b iAllBoxCount iStatus [] = Some []"
| "open_boxes b iAllBoxCount iStatus (j # js) = do {
     let iLogicalBox = iAllBoxCount + int j + 1;
     s \<leftarrow> at iStatus (int j);
     sp \<leftarrow> (if s = 0 then GetClassifyBoxSpec b iLogicalBox else Some 0);
     name \<leftarrow> (if s = 0 \<and> sp \<noteq> 0 then GetBoxName b iLogicalBox else Some []);
     rest \<leftarrow> open_boxes b iAllBoxCount iStatus js;
     Some ((if s = 0 \<and> sp \<noteq> 0 then [(iLogicalBox, name)] else []) @ rest) }"

fun check_cabinets :: "'e world \<Rightarrow> nat list \<Rightarrow> int \<Rightarrow> int list \<Rightarrow> 'e kiosk \<Rightarrow> ((int \<times> int list \<times> (int \<times> bytes) list) \<times> 'e kiosk) option" where
  "check_cabinets w [] iAllBoxCount iStatus k = Some ((iAllBoxCount, iStatus, []), k)"
| "check_cabinets w (i # is) iAllBoxCount iStatus k = do {
     iAllBoxCount' \<leftarrow> (if i > 0 then map_option (\<lambda>n. iAllBoxCount + n) (GetBoxCount (m_cbox k) (int i)) else Some iAllBoxCount);
     c \<leftarrow> GetCabinetID (m_cbox k) (int i + 1);
     let (r, e) = lock_status w c 0 (env k);
     case r of None \<Rightarrow> check_cabinets w is iAllBoxCount' iStatus (k\<lparr>env := e\<rparr>)
     | Some st \<Rightarrow> do {
         n \<leftarrow> GetBoxCount (m_cbox k) (int i + 1);
         found \<leftarrow> open_boxes (m_cbox k) iAllBoxCount' (filled_buf st iStatus) [0..<nat n];
         ((a, s, rest), k') \<leftarrow> check_cabinets w is iAllBoxCount' (filled_buf st iStatus)
            (k\<lparr>env := e, m_iCurrentOpenBox := (if found = [] then m_iCurrentOpenBox k else fst (last found))\<rparr>);
         Some ((a, s, found @ rest), k') } }"

text \<open>The loop: \<open>iLastCount\<close>, \<open>iAllBoxCount\<close> and the buffer live through the rounds.\<close>

partial_function (option) check_loop :: "'e world \<Rightarrow> int \<Rightarrow> int \<Rightarrow> int list \<Rightarrow> 'e kiosk \<Rightarrow> 'e kiosk option" where
  "check_loop w iLastCount iAllBoxCount iStatus k =
     (let (stop, e) = stop_check w (env k) in
      if stop then Some (k\<lparr>env := e\<rparr>)
      else do {
        ((a, s, found), k1) \<leftarrow> check_cabinets w [0..<nat (m_iCabinetCount (m_cbox k))] iAllBoxCount iStatus (k\<lparr>env := e\<rparr>);
        let (stop', e') = stop_check w (env k1);
        if stop' then Some (k1\<lparr>env := e'\<rparr>)
        else do {
          let iOpenCount = int (length found);
          let k2 = k1\<lparr>env := e', screen := screen k1 @ (if iOpenCount \<noteq> iLastCount then [OpenedDoor iOpenCount (map snd found)] else [])\<rparr>;
          if iOpenCount = 0 then Some (k2\<lparr>m_iCurrentOpenBox := - 1\<rparr>)
          else check_loop w iOpenCount a s k2 } })"

definition CheckOpenDoor :: "'e world \<Rightarrow> 'e kiosk \<Rightarrow> 'e kiosk option" where
  "CheckOpenDoor w k =
     (if m_bIsCheckingOpenDoor k then Some k
      else map_option (\<lambda>k'. k'\<lparr>m_bIsCheckingOpenDoor := False\<rparr>) (check_loop w (- 1) 0 new_buf (k\<lparr>m_bIsCheckingOpenDoor := True\<rparr>)))"

end
