(* ===== verification/SensorProofs.thy ===== *)
theory SensorProofs
  imports Sensors
begin

text \<open>
  \<open>UpdateBoxStatus\<close> keeps the table well formed and makes the column of parcels the set of boxes that have
  a row in the package table, so that no box with a row is offered for a delivery; the sensor columns become
  what the controllers answer, each at the place of its cabinet; the rounds of \<open>CheckOpenDoor\<close> after the
  first number the boxes wrongly.
\<close>

section \<open>The column of parcels\<close>

definition marked :: "pkg list \<Rightarrow> nat \<Rightarrow> bool" where
  "marked ps j \<longleftrightarrow> (\<exists>p \<in> set ps. atol (p_box p) = int j + 1)"

lemma mark_rows_of:
  assumes "box_ok b"
  shows "\<exists>x. mark_rows ps b = Some (b\<lparr>m_piBoxLocalPackage := x\<rparr>) \<and> length x = length (m_piBoxLocalPackage b)
    \<and> (\<forall>j. int j < m_iBoxCountTotal b \<longrightarrow> x ! j = (if marked ps j then 1 else m_piBoxLocalPackage b ! j))"
  using assms
proof (induction ps b rule: mark_rows.induct)
  case (1 b)
  then show ?case by (auto simp: marked_def intro: exI [of _ "m_piBoxLocalPackage b"])
next
  case (2 p ps b)
  let ?i = "atol (p_box p)" and ?L = "m_piBoxLocalPackage b"
  show ?case
  proof (cases "0 < ?i \<and> ?i \<le> m_iBoxCountTotal b")
    case True
    then have t: "in_table b ?i" using 2(3) by (simp add: in_table_def)
    let ?b = "b\<lparr>m_piBoxLocalPackage := ?L[nat (?i - 1) := 1]\<rparr>"
    have "box_ok ?b" using in_table_set(3) [OF t] by (simp add: in_table_def)
    with 2(1) [OF refl True setters_in(3) [OF t]] obtain x where x: "mark_rows ps ?b = Some (?b\<lparr>m_piBoxLocalPackage := x\<rparr>)"
      "length x = length ?L" "\<forall>j. int j < m_iBoxCountTotal b \<longrightarrow> x ! j = (if marked ps j then 1 else ?L[nat (?i - 1) := 1] ! j)" by auto
    have "nat (?i - 1) < length ?L" using t by (auto simp: in_table_def box_defs)
    then have "\<forall>j. int j < m_iBoxCountTotal b \<longrightarrow> x ! j = (if marked (p # ps) j then 1 else ?L ! j)"
      using x(3) True by (auto simp: marked_def nth_list_update)
    then show ?thesis using x True setters_in(3) [OF t] by auto
  next
    case False
    then have "\<forall>j. int j < m_iBoxCountTotal b \<longrightarrow> marked (p # ps) j = marked ps j" by (auto simp: marked_def)
    then show ?thesis using 2(2) [OF refl False 2(3)] False by auto
  qed
qed

definition rows :: "'a list option \<Rightarrow> 'a list" where
  "rows r = (case r of Some ps \<Rightarrow> ps | None \<Rightarrow> [])"

lemma UpdateLocalPackageStatus_of:
  assumes "box_ok (m_cbox k)" "db_select w AllRows (env k) = (r1, e1)" "db_select w Flag2 e1 = (r2, e2)"
  shows "\<exists>x. UpdateLocalPackageStatus w k = Some (k\<lparr>env := e2, m_cbox := (m_cbox k)\<lparr>m_piBoxLocalPackage := x\<rparr>\<rparr>)
    \<and> length x = length (m_piBoxLocalPackage (m_cbox k))
    \<and> (\<forall>j. int j < m_iBoxCountTotal (m_cbox k) \<longrightarrow> x ! j = (if marked (rows r1) j \<or> marked (rows r2) j then 1 else 0))"
proof -
  let ?b = "m_cbox k" and ?n = "nat (m_iBoxCountTotal (m_cbox k))"
  define L where "L = take ?n (replicate ?n 0) @ drop ?n (m_piBoxLocalPackage ?b)"
  have n: "?n \<le> length (m_piBoxLocalPackage ?b)" using assms(1) by (auto simp: box_defs)
  then have s: "SetBoxLocalPackage 0 0 ?b = Some (?b\<lparr>m_piBoxLocalPackage := L\<rparr>)"
    by (simp add: SetBoxLocalPackage_def setter_def put_first_def L_def)
  have L: "length L = length (m_piBoxLocalPackage ?b)" "\<And>j. int j < m_iBoxCountTotal ?b \<Longrightarrow> L ! j = 0"
    using n by (auto simp: L_def nth_append)
  let ?b0 = "?b\<lparr>m_piBoxLocalPackage := L\<rparr>"
  have "box_ok ?b0" using assms(1) L by (auto simp: box_defs)
  from mark_rows_of [OF this, of "rows r1"] obtain x where x: "mark_rows (rows r1) ?b0 = Some (?b\<lparr>m_piBoxLocalPackage := x\<rparr>)"
    "length x = length (m_piBoxLocalPackage ?b)" "\<forall>j. int j < m_iBoxCountTotal ?b \<longrightarrow> x ! j = (if marked (rows r1) j then 1 else 0)"
    using L by auto
  have "box_ok (?b\<lparr>m_piBoxLocalPackage := x\<rparr>)" using assms(1) x(2) n L(1) by (auto simp: box_defs)
  from mark_rows_of [OF this, of "rows r2"] obtain y where "mark_rows (rows r2) (?b\<lparr>m_piBoxLocalPackage := x\<rparr>) = Some (?b\<lparr>m_piBoxLocalPackage := y\<rparr>)"
    "length y = length (m_piBoxLocalPackage ?b)" "\<forall>j. int j < m_iBoxCountTotal ?b \<longrightarrow> y ! j = (if marked (rows r2) j then 1 else x ! j)"
    using x(2) by auto
  then show ?thesis using s x L(1) assms(2,3)
    by (intro exI [of _ y]) (auto simp: UpdateLocalPackageStatus_def rows_def [symmetric])
qed

lemma store_status_ok: "store_status js i st b = Some b' \<Longrightarrow> box_ok b \<Longrightarrow> box_ok b' \<and> m_iBoxCountTotal b' = m_iBoxCountTotal b"
proof (induction js arbitrary: b)
  case (Cons j js)
  from Cons.prems(1) obtain no c b1 no' e b2 where s: "SetBoxHardwareClose no c b = Some b1" "SetBoxHardwareNotEmpty no' e b1 = Some b2"
    and g: "store_status js i st b2 = Some b'" by (auto split: Option.bind_splits)
  have "box_ok b2" using s SetBoxHardwareClose_ok SetBoxHardwareNotEmpty_ok Cons.prems(2) by blast
  moreover have "m_iBoxCountTotal b2 = m_iBoxCountTotal b" using s
    by (auto simp: SetBoxHardwareClose_def SetBoxHardwareNotEmpty_def)
  ultimately show ?case using Cons.IH [OF g] by simp
qed simp

lemma read_cabinets_ok: "read_cabinets w is st k = Some k' \<Longrightarrow> box_ok (m_cbox k) \<Longrightarrow>
    box_ok (m_cbox k') \<and> m_iBoxCountTotal (m_cbox k') = m_iBoxCountTotal (m_cbox k)"
proof (induction "is" arbitrary: st k)
  case (Cons i "is")
  from Cons.prems(1) show ?case
    by (auto split: Option.bind_splits prod.splits option.splits
        dest!: store_status_ok [OF _ Cons.prems(2)] Cons.IH simp: Cons.prems(2))
qed simp

lemma UpdateStatusLocker_ok:
  assumes "UpdateStatusLocker w k = Some k'" "box_ok (m_cbox k)"
  shows "box_ok (m_cbox k') \<and> m_iBoxCountTotal (m_cbox k') = m_iBoxCountTotal (m_cbox k)"
  using assms by (auto simp: UpdateStatusLocker_def Let_def split: if_splits Option.bind_splits dest!: read_cabinets_ok)

text \<open>What \<open>UpdateBoxStatus\<close> ends with: the column of parcels is the database's, the status is computed from it.\<close>

lemma UpdateBoxStatus_parts:
  assumes "UpdateBoxStatus w k = Some k'" "box_ok (m_cbox k)" "\<not> m_iIsUpdateingBoxStatus k"
  obtains e0 r1 e1 r2 e2 b where "db_select w AllRows e0 = (r1, e1)" "db_select w Flag2 e1 = (r2, e2)" "box_ok b"
    "m_iBoxCountTotal b = m_iBoxCountTotal (m_cbox k)" "UpdateStatus b = Some (m_cbox k')"
    "\<And>j. int j < m_iBoxCountTotal b \<Longrightarrow> m_piBoxLocalPackage b ! j = (if marked (rows r1) j \<or> marked (rows r2) j then 1 else 0)"
proof -
  from assms(1,3) obtain k1 k2 b' where u: "UpdateStatusLocker w (k\<lparr>m_iIsUpdateingBoxStatus := True\<rparr>) = Some k1"
      "UpdateLocalPackageStatus w k1 = Some k2" "UpdateStatus (m_cbox k2) = Some b'" "m_cbox k' = b'"
    by (auto simp: UpdateBoxStatus_def set_box_def split: Option.bind_splits)
  have k1: "box_ok (m_cbox k1)" "m_iBoxCountTotal (m_cbox k1) = m_iBoxCountTotal (m_cbox k)"
    using UpdateStatusLocker_ok [OF u(1)] assms(2) by simp_all
  obtain r1 e1 r2 e2 where d: "db_select w AllRows (env k1) = (r1, e1)" "db_select w Flag2 e1 = (r2, e2)" by (metis surj_pair)
  from UpdateLocalPackageStatus_of [OF k1(1) d] u(2) obtain x where
    x: "m_cbox k2 = (m_cbox k1)\<lparr>m_piBoxLocalPackage := x\<rparr>" "length x = length (m_piBoxLocalPackage (m_cbox k1))"
    "\<And>j. int j < m_iBoxCountTotal (m_cbox k1) \<Longrightarrow> x ! j = (if marked (rows r1) j \<or> marked (rows r2) j then 1 else 0)" by auto
  have "m_iBoxCountTotal (m_cbox k1) \<le> int (length x)" using k1(1) x(2) by (auto simp: box_defs)
  then have "box_ok (m_cbox k2)" using k1(1) x(1) by (auto simp: box_defs)
  then show ?thesis using that [OF d] u(3,4) x(1,3) k1(2) by simp
qed

lemma answers_marked: "(\<And>e. fst (db_select w AllRows e) = Some ps) \<Longrightarrow> db_select w AllRows e = (r, e') \<Longrightarrow> rows r = ps"
  by (metis fst_conv option.simps(5) rows_def)

section \<open>The rounds of the check\<close>

text \<open>The places of open doors that a round reports, when it starts with \<open>base\<close> boxes.\<close>

definition before :: "cbox \<Rightarrow> nat \<Rightarrow> int" where
  "before b i = sum_list (take i (m_piBoxCount b))"




definition answers :: "'e world \<Rightarrow> cbox \<Rightarrow> (nat \<Rightarrow> int list) \<Rightarrow> bool" where
  "answers w b sensor \<longleftrightarrow> (\<forall>i e. i < nat (m_iCabinetCount b) \<longrightarrow> lock_status w (m_piCabinetID b ! i) 0 e = (Some (sensor i), e))
     \<and> (\<forall>i < nat (m_iCabinetCount b). length (sensor i) = 64 \<and> 0 \<le> m_piBoxCount b ! i \<and> m_piBoxCount b ! i \<le> 32)"

lemma answersD:
  assumes "answers w b sensor" "i < nat (m_iCabinetCount b)"
  shows "lock_status w (m_piCabinetID b ! i) 0 e = (Some (sensor i), e)" "length (sensor i) = 64" "0 \<le> m_piBoxCount b ! i"
    "nat (m_piBoxCount b ! i) \<le> 32"
  using assms by (auto simp: answers_def)

lemma filled_full: "length st = length buf \<Longrightarrow> filled_buf st buf = st"
  by (simp add: filled_buf_def)

lemma cabinet_reads: "box_ok b \<Longrightarrow> i < nat (m_iCabinetCount b) \<Longrightarrow>
    GetCabinetID b (int i + 1) = Some (m_piCabinetID b ! i) \<and> GetBoxCount b (int i + 1) = Some (m_piBoxCount b ! i) \<and> i < length (m_piBoxCount b)"
  by (auto simp: GetCabinetID_def GetBoxCount_def at_def box_defs)

lemma before_Suc: "i < length (m_piBoxCount b) \<Longrightarrow> before b (Suc i) = before b i + m_piBoxCount b ! i"
  by (simp add: before_def take_Suc_conv_app_nth)


section \<open>The sensor columns\<close>

lemma before_mono: "i \<le> n \<Longrightarrow> n \<le> length (m_piBoxCount b) \<Longrightarrow> \<forall>c < n. 0 \<le> m_piBoxCount b ! c \<Longrightarrow> before b i \<le> before b n"
proof (induction "n - i" arbitrary: i)
  case (Suc d)
  then have "before b (Suc i) \<le> before b n" by simp
  moreover have "before b (Suc i) = before b i + m_piBoxCount b ! i" using Suc by (intro before_Suc) simp
  moreover have "0 \<le> m_piBoxCount b ! i" using Suc by simp
  ultimately show ?case by simp
qed simp

lemma before_pos: "n \<le> length (m_piBoxCount b) \<Longrightarrow> \<forall>c < n. 0 \<le> m_piBoxCount b ! c \<Longrightarrow> 0 \<le> before b n"
  using before_mono [of 0 n b] by (simp add: before_def)

definition sensed :: "int list \<Rightarrow> int list \<Rightarrow> cbox \<Rightarrow> cbox" where
  "sensed x y b = b\<lparr>m_piBoxHardwareClose := x, m_piBoxHardwareNotEmpty := y\<rparr>"

lemma sensed_same [simp]: "before (sensed x y b) i = before b i" "m_iCabinetCount (sensed x y b) = m_iCabinetCount b"
    "m_piBoxCount (sensed x y b) = m_piBoxCount b" "m_piCabinetID (sensed x y b) = m_piCabinetID b"
    "m_iBoxCountTotal (sensed x y b) = m_iBoxCountTotal b" "m_piBoxHardwareClose (sensed x y b) = x"
    "m_piBoxHardwareNotEmpty (sensed x y b) = y" "sensed x' y' (sensed x y b) = sensed x' y' b"
    "answers w (sensed x y b) = answers w b"
  by (simp_all add: sensed_def before_def answers_def fun_eq_iff)

lemma sensed_self: "b = sensed (m_piBoxHardwareClose b) (m_piBoxHardwareNotEmpty b) b"
  by (simp add: sensed_def)

lemma sensed_ok: "box_ok b \<Longrightarrow> length x = length (m_piBoxHardwareClose b) \<Longrightarrow> length y = length (m_piBoxHardwareNotEmpty b) \<Longrightarrow> box_ok (sensed x y b)"
  by (auto simp: box_defs sensed_def)

lemma logical_no:
  assumes "box_ok b" "i < nat (m_iCabinetCount b)"
  shows "GetLogicalBoxByPhysicalCabinetNO b (int i) (int j + 1) = Some (int j + 1 + before b i)"
  using assms cabinet_reads [OF assms] by (auto simp: GetLogicalBoxByPhysicalCabinetNO_def boxes_before_def before_def)

text \<open>One place written in both columns.\<close>

lemma store_status_step:
  assumes "box_ok b" "i < nat (m_iCabinetCount b)" "0 \<le> before b i" "before b i + int j < m_iBoxCountTotal b" "j + 32 < length st"
  shows "store_status (j # js) (int i) st b = store_status js (int i) st
    (sensed ((m_piBoxHardwareClose b)[nat (before b i) + j := st ! j]) ((m_piBoxHardwareNotEmpty b)[nat (before b i) + j := st ! (j + 32)]) b)"
proof -
  let ?no = "int j + 1 + before b i" and ?m = "nat (before b i) + j"
  let ?b = "sensed ((m_piBoxHardwareClose b)[?m := st ! j]) (m_piBoxHardwareNotEmpty b) b"
  have l: "m_iBoxCountTotal b \<le> int (length (m_piBoxHardwareClose b))" "m_iBoxCountTotal b \<le> int (length (m_piBoxHardwareNotEmpty b))"
    using assms(1) by (simp_all add: box_defs)
  have n: "nat (?no - 1) = ?m" "0 < ?no" "?no \<le> m_iBoxCountTotal b" using assms(3,4) by auto
  have "SetBoxHardwareClose ?no (st ! j) b = Some ?b"
    using setter_in [OF l(1) n(2,3)] n(1) by (simp add: SetBoxHardwareClose_def sensed_def)
  moreover have "box_ok ?b" using assms(1) by (auto intro: sensed_ok)
  moreover have "SetBoxHardwareNotEmpty ?no (st ! (j + 32)) ?b = Some (sensed ((m_piBoxHardwareClose b)[?m := st ! j])
      ((m_piBoxHardwareNotEmpty b)[?m := st ! (j + 32)]) b)"
    using setter_in [of ?b "m_piBoxHardwareNotEmpty b" ?no "st ! (j + 32)"] l(2) n
    by (simp add: SetBoxHardwareNotEmpty_def) (simp add: sensed_def)
  moreover have "at st (int j + 32) = Some (st ! (j + 32))" using assms(5) by (simp add: at_def nat_add_distrib)
  moreover have "at st (int j) = Some (st ! j)" using assms(5) by (simp add: at_def)
  ultimately show ?thesis using logical_no [OF assms(1,2)] logical_no [of ?b i j] assms(2) by simp
qed

lemma store_status_of:
  assumes "box_ok b" "i < nat (m_iCabinetCount b)" "0 \<le> before b i" "before b i + int c \<le> m_iBoxCountTotal b" "c \<le> 32" "length st = 64" "d \<le> c"
  shows "\<exists>x y. store_status [d..<c] (int i) st b = Some (sensed x y b) \<and> length x = length (m_piBoxHardwareClose b)
    \<and> length y = length (m_piBoxHardwareNotEmpty b)
    \<and> (\<forall>j. d \<le> j \<and> j < c \<longrightarrow> x ! (nat (before b i) + j) = st ! j \<and> y ! (nat (before b i) + j) = st ! (j + 32))
    \<and> (\<forall>m < nat (before b i) + d. x ! m = m_piBoxHardwareClose b ! m \<and> y ! m = m_piBoxHardwareNotEmpty b ! m)"
  using assms
proof (induction "c - d" arbitrary: d b)
  case 0
  then have "[d..<c] = []" by simp
  then show ?case using sensed_self [of b] 0 by (intro exI [of _ "m_piBoxHardwareClose b"] exI [of _ "m_piBoxHardwareNotEmpty b"]) simp
next
  case (Suc e)
  let ?m = "nat (before b i) + d"
  let ?x = "(m_piBoxHardwareClose b)[?m := st ! d]" and ?y = "(m_piBoxHardwareNotEmpty b)[?m := st ! (d + 32)]"
  have l: "[d..<c] = d # [Suc d..<c]" using Suc.hyps(2) by (simp add: upt_conv_Cons)
  have step: "store_status [d..<c] (int i) st b = store_status [Suc d..<c] (int i) st (sensed ?x ?y b)"
    unfolding l using Suc.hyps(2) Suc.prems by (intro store_status_step) auto
  have "box_ok (sensed ?x ?y b)" using Suc.prems(1) by (auto intro: sensed_ok)
  moreover have "e = c - Suc d" "Suc d \<le> c" using Suc.hyps(2) by linarith+
  ultimately obtain x y where
    r: "store_status [Suc d..<c] (int i) st (sensed ?x ?y b) = Some (sensed x y b)" "length x = length ?x" "length y = length ?y"
      "\<And>j. Suc d \<le> j \<and> j < c \<Longrightarrow> x ! (nat (before b i) + j) = st ! j \<and> y ! (nat (before b i) + j) = st ! (j + 32)"
      "\<And>m. m < Suc ?m \<Longrightarrow> x ! m = ?x ! m \<and> y ! m = ?y ! m"
    using Suc.hyps(1) [of "Suc d" "sensed ?x ?y b"] Suc.prems by auto
  have m: "?m < length (m_piBoxHardwareClose b)" "?m < length (m_piBoxHardwareNotEmpty b)"
    using Suc.prems(1,3,4) Suc.hyps(2) by (auto simp: box_defs)
  have "x ! (nat (before b i) + j) = st ! j \<and> y ! (nat (before b i) + j) = st ! (j + 32)" if "d \<le> j" "j < c" for j
    using r(4) [of j] r(5) [of ?m] m that by (cases "j = d") auto
  moreover have "x ! q = m_piBoxHardwareClose b ! q \<and> y ! q = m_piBoxHardwareNotEmpty b ! q" if "q < ?m" for q
    using r(5) [of q] that by simp
  ultimately show ?case using step r(1-3) by auto
qed

text \<open>All cabinets from \<open>i\<close> on.\<close>

lemma read_cabinets_of:
  assumes "box_ok (m_cbox k)" "answers w (m_cbox k) sensor" "n = nat (m_iCabinetCount (m_cbox k))" "before (m_cbox k) n \<le> m_iBoxCountTotal (m_cbox k)"
    "length buf = 64" "i \<le> n"
  shows "\<exists>x y. read_cabinets w [i..<n] buf k = Some (k\<lparr>m_cbox := sensed x y (m_cbox k)\<rparr>)
    \<and> length x = length (m_piBoxHardwareClose (m_cbox k)) \<and> length y = length (m_piBoxHardwareNotEmpty (m_cbox k))
    \<and> (\<forall>c j. i \<le> c \<and> c < n \<and> j < nat (m_piBoxCount (m_cbox k) ! c) \<longrightarrow>
        x ! (nat (before (m_cbox k) c) + j) = sensor c ! j \<and> y ! (nat (before (m_cbox k) c) + j) = sensor c ! (j + 32))
    \<and> (\<forall>m < nat (before (m_cbox k) i). x ! m = m_piBoxHardwareClose (m_cbox k) ! m \<and> y ! m = m_piBoxHardwareNotEmpty (m_cbox k) ! m)"
  using assms
proof (induction "n - i" arbitrary: i buf k)
  case 0
  then show ?case using sensed_self [of "m_cbox k"]
    by (intro exI [of _ "m_piBoxHardwareClose (m_cbox k)"] exI [of _ "m_piBoxHardwareNotEmpty (m_cbox k)"]) simp
next
  case (Suc e)
  let ?b = "m_cbox k"
  let ?c = "nat (m_piBoxCount ?b ! i)"
  have i: "i < n" "i < nat (m_iCabinetCount ?b)" "e = n - Suc i" "Suc i \<le> n" using Suc.hyps(2) Suc.prems(3) by auto
  note c = cabinet_reads [OF Suc.prems(1) i(2)] and an = answersD [OF Suc.prems(2) i(2)]
  have pos: "\<forall>c < n. 0 \<le> m_piBoxCount ?b ! c" using answersD(3) [OF Suc.prems(2)] Suc.prems(3) by simp
  have n: "n \<le> length (m_piBoxCount ?b)" using Suc.prems(1,3) by (auto simp: box_defs)
  have S: "before ?b (Suc i) = before ?b i + int ?c" using before_Suc [of i ?b] c pos i(1) by simp
  have le: "0 \<le> before ?b i" "before ?b i + int ?c \<le> m_iBoxCountTotal ?b"
    using before_pos [of i ?b] before_mono [of "Suc i" n ?b] n pos i(4) S Suc.prems(4) by auto
  obtain x1 y1 where r1: "store_status [0..<?c] (int i) (sensor i) ?b = Some (sensed x1 y1 ?b)" "length x1 = length (m_piBoxHardwareClose ?b)"
    "length y1 = length (m_piBoxHardwareNotEmpty ?b)"
    "\<And>j. j < ?c \<Longrightarrow> x1 ! (nat (before ?b i) + j) = sensor i ! j \<and> y1 ! (nat (before ?b i) + j) = sensor i ! (j + 32)"
    "\<And>m. m < nat (before ?b i) \<Longrightarrow> x1 ! m = m_piBoxHardwareClose ?b ! m \<and> y1 ! m = m_piBoxHardwareNotEmpty ?b ! m"
    using store_status_of [OF Suc.prems(1) i(2) le an(4,2), of 0] by auto
  let ?k = "k\<lparr>m_cbox := sensed x1 y1 ?b\<rparr>"
  have "box_ok (m_cbox ?k)" using sensed_ok [OF Suc.prems(1) r1(2,3)] by simp
  with Suc.hyps(1) [of "Suc i" ?k "sensor i"] i(3,4) Suc.prems(2,3,4) an(2) obtain x y where
    r: "read_cabinets w [Suc i..<n] (sensor i) ?k = Some (?k\<lparr>m_cbox := sensed x y ?b\<rparr>)" "length x = length x1" "length y = length y1"
      "\<And>c j. Suc i \<le> c \<Longrightarrow> c < n \<Longrightarrow> j < nat (m_piBoxCount ?b ! c) \<Longrightarrow>
        x ! (nat (before ?b c) + j) = sensor c ! j \<and> y ! (nat (before ?b c) + j) = sensor c ! (j + 32)"
      "\<And>m. m < nat (before ?b (Suc i)) \<Longrightarrow> x ! m = x1 ! m \<and> y ! m = y1 ! m" by auto
  have l: "[i..<n] = i # [Suc i..<n]" using i(1) by (simp add: upt_conv_Cons)
  have "read_cabinets w [i..<n] buf k = Some (k\<lparr>m_cbox := sensed x y ?b\<rparr>)"
    unfolding l using c an(1) [of "env k"] filled_full [of "sensor i" buf] an(2) Suc.prems(5) r1(1) r(1) by simp
  moreover have "x ! (nat (before ?b c) + j) = sensor c ! j \<and> y ! (nat (before ?b c) + j) = sensor c ! (j + 32)"
    if "i \<le> c" "c < n" "j < nat (m_piBoxCount ?b ! c)" for c j
  proof (cases "c = i")
    case True
    with that have "j < ?c" by simp
    with S le have "nat (before ?b i) + j < nat (before ?b (Suc i))" by linarith
    then show ?thesis using r(5) r1(4) that True by simp
  qed (use r(4) that in simp)
  moreover have "x ! m = m_piBoxHardwareClose ?b ! m \<and> y ! m = m_piBoxHardwareNotEmpty ?b ! m" if "m < nat (before ?b i)" for m
  proof -
    have "nat (before ?b i) \<le> nat (before ?b (Suc i))" using S by linarith
    then show ?thesis using r(5) [of m] r1(5) [of m] that by simp
  qed
  ultimately show ?case using r(2,3) r1(2,3) by auto
qed

section \<open>The properties\<close>

text \<open>C7: When the database answers the query for the packages, no box that \<open>UpdateBoxStatus\<close> leaves free,
  and so none chosen for a delivery, has a row in the package table, whatever the sensors say.\<close>

theorem free_box_no_package:
  assumes "box_reach (m_cbox k)" "\<not> m_iIsUpdateingBoxStatus k" "UpdateBoxStatus w k = Some k'"
    and "\<And>e. fst (db_select w AllRows e) = Some ps"
    and "GetClassifyBoxID r (m_cbox k') 0 sp h = Some no" "no \<noteq> - 1" "p \<in> set ps"
  shows "atol (p_box p) \<noteq> no"
proof
  assume no: "atol (p_box p) = no"
  have ok: "box_ok (m_cbox k)" using reach_ok [OF assms(1)] .
  from UpdateBoxStatus_parts [OF assms(3) ok assms(2)] obtain e0 r1 e1 r2 b where
    d: "db_select w AllRows e0 = (r1, e1)" and b: "box_ok b" "UpdateStatus b = Some (m_cbox k')"
    "\<And>j. int j < m_iBoxCountTotal b \<Longrightarrow> m_piBoxLocalPackage b ! j = (if marked (rows r1) j \<or> marked (rows r2) j then 1 else 0)" by metis
  have ps: "rows r1 = ps" using answers_marked [OF assms(4) d] .
  define i where "i = nat (no - 1)"
  have b': "m_cbox k' = b\<lparr>m_piStatus := map (status_of b) [0..<nat (m_iBoxCountTotal b)] @ drop (nat (m_iBoxCountTotal b)) (m_piStatus b)\<rparr>"
    using b(2) UpdateStatus_of [OF b(1)] by simp
  have "box_ok (m_cbox k')" using UpdateStatus_ok [OF b(1,2)] .
  then have "no = int (chosen (m_cbox k') 0 sp h ! (r mod length (chosen (m_cbox k') 0 sp h))) + 1 \<and> chosen (m_cbox k') 0 sp h \<noteq> []"
    using assms(5,6) GetClassifyBoxID_of by (auto split: if_splits)
  then have c: "i \<in> set (chosen (m_cbox k') 0 sp h)" "0 < no" by (auto simp: i_def)
  then have i: "int i < m_iBoxCountTotal b" "m_piStatus (m_cbox k') ! i = 0" using b' by (auto simp: set_chosen qualifies_def)
  then have "status_of b i = 0" using b' by (simp add: nth_append split: if_splits)
  then have "m_piBoxLocalPackage b ! i = 0" by (auto simp: status_of_def split: if_splits)
  moreover have "marked ps i" using assms(7) no c(2) by (auto simp: marked_def i_def)
  ultimately show False using b(3) [OF i(1)] ps by simp
qed

text \<open>One parcel in box 2, and controllers that do not answer.\<close>

definition one_parcel :: pkg where
  "one_parcel = \<lparr>p_box = [0x32], p_pw = [], p_mail = [], p_time = [], p_deadline = [], p_postman = [], p_mobile = [], p_name = [],
     p_address = [], p_col9 = [], p_verify = [], p_flag = [], p_extra = []\<rparr>"

definition one_world :: "nat world" where
  "one_world = stuck\<lparr>db_select := \<lambda>c e. (Some (if c = AllRows then [one_parcel] else []), e)\<rparr>"

theorem free_box_no_package_witness:
  "\<exists>k' no. UpdateBoxStatus one_world sample_kiosk = Some k' \<and> GetClassifyBoxID 1 (m_cbox k') 0 1 0 = Some no \<and> no \<noteq> - 1
     \<and> atol (p_box one_parcel) \<noteq> no"
proof -
  have "case UpdateBoxStatus one_world sample_kiosk of Some k' \<Rightarrow> GetClassifyBoxID 1 (m_cbox k') 0 1 0 = Some 3 | None \<Rightarrow> False"
    by code_simp
  then obtain k' where u: "UpdateBoxStatus one_world sample_kiosk = Some k'" "GetClassifyBoxID 1 (m_cbox k') 0 1 0 = Some 3"
    by (auto split: option.splits)
  have "box_reach (m_cbox sample_kiosk)" "\<not> m_iIsUpdateingBoxStatus sample_kiosk" using sample_reach by (simp_all add: sample_kiosk_def)
  then have "atol (p_box one_parcel) \<noteq> 3"
    by (rule free_box_no_package [OF _ _ u(1) _ u(2), of "[one_parcel]"]) (simp_all add: one_world_def)
  with u show ?thesis by auto
qed


text \<open>The door of box 4, the first of the second cabinet, is open.\<close>

definition one_open :: "nat \<Rightarrow> int list" where
  "one_open i = (if i = 1 then 0 # replicate 63 1 else replicate 64 1)"


text \<open>C17: When every controller answers, \<open>UpdateStatusLocker\<close> returns and leaves for each box of each
  cabinet the two sensors the controller of that cabinet reported for that place, under the logical number
  of the box.\<close>

theorem UpdateStatusLocker_sensors:
  assumes "box_reach (m_cbox k)" "answers w (m_cbox k) sensor" "n = nat (m_iCabinetCount (m_cbox k))"
    "before (m_cbox k) n \<le> m_iBoxCountTotal (m_cbox k)" "m_iLockerExist k \<noteq> 0" "\<not> m_iIsUpdateingStatusLocker k"
  shows "\<exists>k'. UpdateStatusLocker w k = Some k' \<and> m_iLockerStatus k' = 0 \<and> (\<forall>c j. c < n \<and> int j < m_piBoxCount (m_cbox k) ! c \<longrightarrow>
    (\<exists>no. GetLogicalBoxByPhysicalCabinetNO (m_cbox k) (int c) (int j + 1) = Some no
      \<and> GetBoxHardwareClose (m_cbox k') no = Some (sensor c ! j) \<and> GetBoxHardwareNotEmpty (m_cbox k') no = Some (sensor c ! (j + 32))))"
proof -
  let ?b = "m_cbox k"
  have ok: "box_ok ?b" using reach_ok [OF assms(1)] .
  obtain x y where r: "read_cabinets w [0..<n] new_buf (k\<lparr>m_iIsUpdateingStatusLocker := True, m_iLockerStatus := 0\<rparr>)
      = Some (k\<lparr>m_iIsUpdateingStatusLocker := True, m_iLockerStatus := 0, m_cbox := sensed x y ?b\<rparr>)"
    "length x = length (m_piBoxHardwareClose ?b)" "length y = length (m_piBoxHardwareNotEmpty ?b)"
    "\<And>c j. c < n \<Longrightarrow> j < nat (m_piBoxCount ?b ! c) \<Longrightarrow>
        x ! (nat (before ?b c) + j) = sensor c ! j \<and> y ! (nat (before ?b c) + j) = sensor c ! (j + 32)"
    using read_cabinets_of [of "k\<lparr>m_iIsUpdateingStatusLocker := True, m_iLockerStatus := 0\<rparr>" w sensor n new_buf 0] ok assms(2-4)
    by (auto simp: new_buf_def)
  let ?k = "k\<lparr>m_iIsUpdateingStatusLocker := False, m_iLockerStatus := 0, m_cbox := sensed x y ?b\<rparr>"
  have u: "UpdateStatusLocker w k = Some ?k" using r(1) assms(3,5,6) by (simp add: UpdateStatusLocker_def)
  have "\<exists>no. GetLogicalBoxByPhysicalCabinetNO ?b (int c) (int j + 1) = Some no \<and> GetBoxHardwareClose (sensed x y ?b) no = Some (sensor c ! j)
      \<and> GetBoxHardwareNotEmpty (sensed x y ?b) no = Some (sensor c ! (j + 32))" if c: "c < n" "int j < m_piBoxCount ?b ! c" for c j
  proof -
    have pos: "\<forall>c < n. 0 \<le> m_piBoxCount ?b ! c" using answersD(3) [OF assms(2)] assms(3) by simp
    have l: "n \<le> length (m_piBoxCount ?b)" using ok assms(3) by (auto simp: box_defs)
    have "before ?b (Suc c) = before ?b c + m_piBoxCount ?b ! c" using before_Suc [of c ?b] l c(1) by simp
    then have b: "0 \<le> before ?b c" "before ?b c + int j < m_iBoxCountTotal ?b"
      using before_pos [of c ?b] before_mono [of "Suc c" n ?b] l pos c assms(4) by auto
    define m where "m = nat (before ?b c) + j"
    have no: "int j + 1 + before ?b c = int m + 1" using b by (simp add: m_def)
    have "int m < m_iBoxCountTotal ?b" "m < length x" "m < length y" using b r(2,3) ok by (auto simp: box_defs m_def)
    then have "GetBoxHardwareClose (sensed x y ?b) (int m + 1) = Some (x ! m)" "GetBoxHardwareNotEmpty (sensed x y ?b) (int m + 1) = Some (y ! m)"
      using getter_in [of m x "sensed x y ?b"] getter_in [of m y "sensed x y ?b"]
      by (simp_all add: GetBoxHardwareClose_def GetBoxHardwareNotEmpty_def)
    then show ?thesis using logical_no [OF ok, of c j] c(1) assms(3) r(4) [OF c(1), of j] c(2) no by (simp add: m_def)
  qed
  then show ?thesis using u by auto
qed

theorem UpdateStatusLocker_sensors_witness:
  "\<exists>k' no. UpdateStatusLocker (stuck\<lparr>lock_status := \<lambda>c p e. (Some (one_open (if c = 4 then 1 else 0)), e)\<rparr>) sample_kiosk = Some k'
     \<and> GetLogicalBoxByPhysicalCabinetNO sample_box 1 1 = Some no \<and> GetBoxHardwareClose (m_cbox k') no = Some 0"
proof -
  let ?w = "stuck\<lparr>lock_status := \<lambda>c p e. (Some (one_open (if c = 4 then 1 else 0)), e)\<rparr>"
  have b: "m_cbox sample_kiosk = sample_box" "nat (m_iCabinetCount sample_box) = 2" "m_piCabinetID sample_box = [7, 4]"
    "m_piBoxCount sample_box = [3, 2]" "m_iBoxCountTotal sample_box = 5" "m_iLockerExist sample_kiosk \<noteq> 0"
    "\<not> m_iIsUpdateingStatusLocker sample_kiosk" by (simp_all add: sample_kiosk_def sample_box_def)
  have a: "answers ?w sample_box one_open" by (auto simp: answers_def b one_open_def less_2_cases_iff)
  have "before sample_box 2 \<le> 5" by (simp add: before_def b)
  then obtain k' where "UpdateStatusLocker ?w sample_kiosk = Some k'" "\<forall>c j. c < 2 \<and> int j < m_piBoxCount sample_box ! c \<longrightarrow>
    (\<exists>no. GetLogicalBoxByPhysicalCabinetNO sample_box (int c) (int j + 1) = Some no
      \<and> GetBoxHardwareClose (m_cbox k') no = Some (one_open c ! j) \<and> GetBoxHardwareNotEmpty (m_cbox k') no = Some (one_open c ! (j + 32)))"
    using UpdateStatusLocker_sensors [of sample_kiosk ?w one_open 2] sample_reach a b by auto
  moreover from this(2) [rule_format, of 1 0] b(4) obtain no where "GetLogicalBoxByPhysicalCabinetNO sample_box 1 1 = Some no"
    "GetBoxHardwareClose (m_cbox k') no = Some (one_open 1 ! 0)" by auto
  ultimately show ?thesis by (auto simp: one_open_def)
qed

end
