(* ===== verification/KioskText.thy ===== *)
theory KioskText
  imports Doors "HOL-Library.Sublist"
begin

text \<open>
  Texts of the locker program: the comma separated list of the boxes of a postman, from which
  \<open>UpdateTimeoutBoxToPostman\<close> takes a box by a text search, and the names of boxes.
\<close>

section \<open>The list of boxes of a postman\<close>

definition listed :: "nat list \<Rightarrow> bytes" where
  "listed ns = concat (map (\<lambda>n. dec_digits n @ [0x2C]) ns)"

definition comma_list :: "nat list \<Rightarrow> bytes" where
  "comma_list ns = butlast (listed ns)"

lemma digits_no_comma: "0x2C \<notin> set (dec_digits n)"
  using dec_digits_all [of n] by (auto simp: list_all_iff is_digit_def word_sle_eq)

lemma dec_digits_inject: "dec_digits m = dec_digits n \<longleftrightarrow> m = n"
  by (metis dec_digits_val)

lemma comma_split: "c \<notin> set a \<Longrightarrow> c \<notin> set b \<Longrightarrow> a @ c # r = b @ c # r' \<longleftrightarrow> a = b \<and> r = r'"
proof (induction a arbitrary: b)
  case Nil
  then show ?case by (cases b) auto
next
  case (Cons d a)
  then show ?case by (cases b) auto
qed

lemma take_pat: "take (length pat) s = pat \<longleftrightarrow> (\<exists>r. s = pat @ r)"
  by (metis append_eq_conv_conj append_take_drop_id)

lemma pat_here:
  assumes "c \<notin> set t" "c \<notin> set p"
  shows "take (length (p @ [c])) (t @ c # r) = p @ [c] \<longleftrightarrow> t = p"
  unfolding take_pat using comma_split [OF assms] by auto

text \<open>One number of the text: the pattern is found there only when the number ends with its digits.\<close>

lemma cs_remove_skip:
  "c \<notin> set t \<Longrightarrow> c \<notin> set p \<Longrightarrow> p \<noteq> [] \<Longrightarrow> \<not> suffix p t \<Longrightarrow> cs_remove (p @ [c]) (t @ c # r) = t @ c # cs_remove (p @ [c]) r"
proof (induction t)
  case Nil
  then have "take (length (p @ [c])) (c # r) \<noteq> p @ [c]" using pat_here [of c "[]" p r] by simp
  then show ?case by simp
next
  case (Cons d t)
  then have "\<not> suffix p t" by (auto intro: suffix_ConsI)
  with Cons have IH: "cs_remove (p @ [c]) (t @ c # r) = t @ c # cs_remove (p @ [c]) r" by simp
  have "d # t \<noteq> p" using Cons.prems(4) by auto
  then have "take (length (p @ [c])) (d # t @ c # r) \<noteq> p @ [c]" using pat_here [of c "d # t" p r] Cons.prems by simp
  then show ?case using IH by simp
qed

lemma cs_remove_hit:
  assumes "c \<notin> set p" "p \<noteq> []"
  shows "cs_remove (p @ [c]) (p @ c # r) = cs_remove (p @ [c]) r"
proof -
  obtain d q where "p = d # q" using assms(2) by (cases p) auto
  moreover have "take (length (p @ [c])) (p @ c # r) = p @ [c]" using pat_here [of c p p r] assms(1) by simp
  ultimately show ?thesis by simp
qed

lemma cs_remove_listed:
  assumes "\<forall>m \<in> set ns. m \<noteq> n \<longrightarrow> \<not> suffix (dec_digits n) (dec_digits m)"
  shows "cs_remove (dec_digits n @ [0x2C]) (listed ns) = listed (filter (\<lambda>m. m \<noteq> n) ns)"
  using assms
proof (induction ns)
  case Nil
  then show ?case by (simp add: listed_def)
next
  case (Cons m ns)
  then have IH: "cs_remove (dec_digits n @ [0x2C]) (listed ns) = listed (filter (\<lambda>m. m \<noteq> n) ns)" by simp
  have l: "listed (m # ns) = dec_digits m @ 0x2C # listed ns" by (simp add: listed_def)
  have ne: "dec_digits n \<noteq> []" using dec_digits_all [of n] by simp
  show ?case
  proof (cases "m = n")
    case True
    then show ?thesis unfolding l using cs_remove_hit [OF digits_no_comma ne] IH by simp
  next
    case False
    then have "\<not> suffix (dec_digits n) (dec_digits m)" using Cons.prems by simp
    from cs_remove_skip [OF digits_no_comma digits_no_comma ne this] show ?thesis unfolding l using IH False
      by (simp add: listed_def)
  qed
qed

lemma listed_snoc: "ms \<noteq> [] \<Longrightarrow> \<exists>a d. listed ms = a @ [d, 0x2C] \<and> d \<noteq> 0x2C"
proof -
  assume "ms \<noteq> []"
  then obtain ns m where ms: "ms = ns @ [m]" by (metis rev_exhaust)
  obtain a d where "dec_digits m = a @ [d]" using dec_digits_all [of m] by (metis rev_exhaust)
  moreover from this have "d \<noteq> 0x2C" using digits_no_comma [of m] by auto
  ultimately show ?thesis by (intro exI [of _ "listed ns @ a"]) (simp add: ms listed_def)
qed

lemma trim_listed: "trim_right 0x2C (listed ms) = comma_list ms"
proof (cases "ms = []")
  case True
  then show ?thesis by (simp add: trim_right_def comma_list_def listed_def)
next
  case False
  then obtain a d where "listed ms = a @ [d, 0x2C]" "d \<noteq> 0x2C" using listed_snoc by blast
  then show ?thesis by (simp add: trim_right_def comma_list_def butlast_append)
qed

section \<open>The properties\<close>

text \<open>Taking a box from a postman's list takes exactly that box when no other number in the list ends
  with its digits; otherwise it damages the other number, as box 11 becomes 1 and melts with the next one.\<close>

theorem drop_box_takes:
  assumes "n \<in> set ns" "\<forall>m \<in> set ns. m \<noteq> n \<longrightarrow> \<not> suffix (dec_digits n) (dec_digits m)"
  shows "drop_box (int n) (comma_list ns) = Some (comma_list (filter (\<lambda>m. m \<noteq> n) ns))
    \<and> drop_box 1 (comma_list [11, 2]) = Some (comma_list [12])"
proof
  have "ns \<noteq> []" using assms(1) by auto
  then have s: "comma_list ns @ [0x2C] = listed ns" using listed_snoc [of ns] by (auto simp: comma_list_def butlast_append)
  obtain a b where "ns = a @ n # b" using assms(1) by (metis split_list)
  then have "listed ns = listed a @ (dec_digits n @ [0x2C]) @ listed b" by (simp add: listed_def)
  then have "contains (dec_digits n @ [0x2C]) (listed ns)" unfolding contains_iff by blast
  then show "drop_box (int n) (comma_list ns) = Some (comma_list (filter (\<lambda>m. m \<noteq> n) ns))"
    using cs_remove_listed [OF assms(2)] trim_listed s
    by (auto simp: drop_box_def int_text_def Let_def contains_def split: option.splits)
  show "drop_box 1 (comma_list [11, 2]) = Some (comma_list [12])" by code_simp
qed

theorem drop_box_takes_witness:
  "drop_box (int 3) (comma_list [11, 3, 2]) = Some (comma_list [11, 2])"
proof -
  have "\<forall>m \<in> set [11, 3, 2 :: nat]. m \<noteq> 3 \<longrightarrow> \<not> suffix (dec_digits 3) (dec_digits m)"
    by (simp add: suffix_def dec_digits.simps)
  then show ?thesis using drop_box_takes [of 3 "[11, 3, 2]"] by simp
qed

lemma letter_no_number: "0x41 \<le> uint c \<Longrightarrow> uint (c :: byte) \<le> 0x5A \<Longrightarrow> c \<noteq> 0 \<and> \<not> c_isspace c \<and> \<not> is_digit c \<and> c \<noteq> 0x2D \<and> c \<noteq> 0x2B"
  by (auto simp: is_digit_uint c_isspace_def word_sle_eq sint_byte)

text \<open>For a box name that begins with the letter of its cabinet the digits behind the letter have no
  effect: \<open>TransformBoxIDToBoxNo\<close> answers the last box of the cabinet before, whatever the place.\<close>

theorem TransformBoxIDToBoxNo_ignores_place:
  assumes "0x41 \<le> uint c" "uint c \<le> 0x5A"
  shows "TransformBoxIDToBoxNo b (c # s) = (if c = 0x41 then Some 0 else GetBoxCount b (uint c - 0x41))"
proof -
  note l = letter_no_number [OF assms]
  have "sint c - 64 = uint c - 64" using assms by (simp add: sint_byte)
  moreover have "atol (c # t) = 0" for t using l by (simp add: atol_def cstr_def)
  moreover have "atoi_stops (c # t)" for t using l by (simp add: atoi_stops_def)
  moreover have "uint c - 64 > 1 \<longleftrightarrow> c \<noteq> 0x41" using assms by (auto simp: word_uint_eq_iff)
  ultimately show ?thesis by (cases "GetBoxCount b (uint c - 0x41)") (auto simp: TransformBoxIDToBoxNo_def Let_def)
qed

theorem TransformBoxIDToBoxNo_ignores_place_witness:
  "TransformBoxIDToBoxNo sample_box [0x42, 0x30, 0x32] = Some 3"
proof -
  have "GetBoxCount sample_box 1 = Some 3" by (simp add: GetBoxCount_def at_def sample_box_def)
  then show ?thesis using TransformBoxIDToBoxNo_ignores_place [where c = "0x42" and b = sample_box and s = "[0x30, 0x32]"] by simp
qed

end
