(* ===== verification/Deposit.thy ===== *)
theory Deposit
  imports DoorProofs SsmDes
begin

text \<open>
  Putting a parcel in (\<open>ConfirmDepositState\<close>): the pick-up password, a number of six digits from \<open>rand\<close>
  enciphered under the key of the host, drawn again while the package table has it; the row of the parcel;
  the report to the host. \<open>srand\<close> before \<open>rand\<close> belongs to \<open>rnd\<close>.
\<close>

section \<open>Passwords\<close>

definition CreatePW :: "nat \<Rightarrow> bytes" where
  "CreatePW r = (let pw = fmt0 6 (int r * 12345 + 67890) in drop (length pw - 6) pw)"

text \<open>\<open>sprintf\<close> and \<open>sscanf\<close> with \<open>%02X\<close>; reading is modelled for texts of hexadecimal digits.\<close>

definition BCD2ASCII :: "bytes \<Rightarrow> bytes" where
  "BCD2ASCII b = hex_chars b"

definition ASCII2BCD :: "bytes \<Rightarrow> nat \<Rightarrow> bytes option" where
  "ASCII2BCD s n = (if n \<le> length s \<and> list_all is_hex (take n s) then Some (hex_pairs (take n s)) else None)"

definition DesEncryption :: "bytes \<Rightarrow> bytes \<Rightarrow> bytes option" where
  "DesEncryption InData key = (let n = length InData;
       InKey = (if n < 8 then InData @ replicate (8 - n) (word_of_nat (8 - n)) else take 8 InData) in
     map_option BCD2ASCII (Des3 InKey 8 key 8 DES_ENCRYPT))"

definition DesDecryption :: "bytes \<Rightarrow> bytes \<Rightarrow> bytes option" where
  "DesDecryption InData key =
     (if length InData < 17
      then do { InKey \<leftarrow> ASCII2BCD InData 16; OutKey \<leftarrow> Des3 InKey 8 key 8 DES_DECRYPT; Some (cstr (OutKey[6 := 0])) }
      else Some [])"

definition CreatePickupPW :: "'e world \<Rightarrow> 'e kiosk \<Rightarrow> (bytes \<times> 'e kiosk) option" where
  "CreatePickupPW w k = (let (r, e) = rnd w (env k) in
     map_option (\<lambda>pw. (pw, k\<lparr>env := e\<rparr>)) (DesEncryption (CreatePW r) (m_auHostKey k)))"

partial_function (option) pw_loop :: "'e world \<Rightarrow> 'e kiosk \<Rightarrow> 'e kiosk option" where
  "pw_loop w k = do {
     (pw, k1) \<leftarrow> CreatePickupPW w k;
     let (found, e) = FindPickupPWFromDB w pw (env k1);
     let k2 = k1\<lparr>m_pw := pw, env := e\<rparr>;
     if found then pw_loop w k2 else Some k2 }"

section \<open>Putting a parcel in\<close>

text \<open>The row of the parcel under a new password.\<close>

definition deposit_store :: "'e world \<Rightarrow> 'e kiosk \<Rightarrow> (bool \<times> 'e kiosk) option" where
  "deposit_store w k = do {
     k1 \<leftarrow> pw_loop w k;
     SavePackageToDB w (m_iLogicalCurrentBox k1) (m_pw k1) (m_iBarCodeCount k1) (m_barCode k1) (m_PostLoginID k1) (m_idname k1)
       (m_address k1) (m_csMobile k1) (m_iDeadline k1) (m_iVerifyType k1) [] k1 }"

definition show_msg :: "msg \<Rightarrow> 'e kiosk \<Rightarrow> 'e kiosk" where
  "show_msg x k = k\<lparr>screen := screen k @ [x]\<rparr>"

definition deposit_report :: "'e world \<Rightarrow> 'e kiosk \<Rightarrow> 'e kiosk" where
  "deposit_report w k = (let (sendText, k1) = Pack_text w (k\<lparr>m_tranCode := tran 600002\<rparr>);
       (queued, k2) = (if m_iIsPostDelaySend k1 \<noteq> 0
         then TransactionInsertQueueToDB w (m_tranCode k1) (GetSerialNOString k1) sendText RETRY_ENDLESS k1 else (False, k1)) in
     if queued then show_msg (ConfirmDeposit 1) k2
     else if m_iIsPostFailOpenDoor k2 \<noteq> 0
     then (let (r, k3) = Transaction w sendText False k2 in show_msg (ConfirmDeposit (if r \<noteq> 0 then 0 else 1)) k3)
     else show_msg (ConfirmDeposit 1) (snd (Transaction w sendText True k2)))"

definition ConfirmDepositState :: "'e world \<Rightarrow> 'e kiosk \<Rightarrow> 'e kiosk option" where
  "ConfirmDepositState w k =
     (if m_iWorkMode k \<noteq> WORKMODE_POST then Some (show_msg (ConfirmDeposit 0) k)
      else (let i = m_iLogicalCurrentBox k in do {
        (holds, k1) \<leftarrow> IsEmptyLogicalBox w i k;
        k2 \<leftarrow> (if \<not> holds then do { n \<leftarrow> GetNotEmptyFail (m_cbox k1) i; set_box (SetNotEmptyFail i (n + 1)) k1 } else Some k1);
        case LoadPackageByBoxIDFromDB w i k2 of
          (Some pw, k3) \<Rightarrow> Some (show_msg (ConfirmDeposit 0) (k3\<lparr>m_pw := pw\<rparr>))
        | (None, k3) \<Rightarrow> do {
            (bSavePackage, k4) \<leftarrow> deposit_store w k3;
            if \<not> bSavePackage then Some (show_msg (ConfirmDeposit 0) k4)
            else do {
              k5 \<leftarrow> set_box (SetBoxLocalPackage i 1) k4;
              k6 \<leftarrow> set_box (SetBoxHostTimeoutAvailable i 0) k5;
              k7 \<leftarrow> set_box (SetBoxHostPackageAvailable i 1) k6;
              Some (deposit_report w k7) } } }))"

section \<open>Properties of the password\<close>

lemma digits_val_append: "digits_val (a @ b) = digits_val a * 10 ^ length b + digits_val b"
proof (induction b rule: rev_induct)
  case (snoc c b)
  then show ?case by (simp add: append_assoc [symmetric] del: append_assoc)
qed simp

lemma digit_less: "is_digit c \<Longrightarrow> unat (c - 0x30) < 10"
proof -
  have "is_digit c \<longrightarrow> unat (c - 0x30) < 10" by (rule all_bytesI) code_simp
  then show "is_digit c \<Longrightarrow> unat (c - 0x30) < 10" by blast
qed

lemma digits_val_less: "list_all is_digit s \<Longrightarrow> digits_val s < 10 ^ length s"
proof (induction s rule: rev_induct)
  case (snoc c s)
  then have "is_digit c" "digits_val s < 10 ^ length s" by simp_all
  moreover from this have "unat (c - 0x30) < 10" using digit_less by simp
  ultimately show ?case by simp
qed simp

lemma nibble_is_hex: "is_hex (nibble_hex (b AND 0x0F))"
proof -
  have "list_all (\<lambda>n. is_hex (nibble_hex (word_of_nat n))) [0..<16]" by code_simp
  then have "is_hex (nibble_hex (word_of_nat k))" if "k < 16" for k using that by (auto simp: list_all_iff)
  from this [OF nibble_less [of b]] have "is_hex (nibble_hex (word_of_nat (unat (take_bit 4 b))))" .
  moreover have "b AND 0x0F = word_of_nat (unat (take_bit 4 b))" by (simp add: take_bit_eq_mask mask_eq_exp_minus_1)
  ultimately show ?thesis by metis
qed

lemma hex_chars_is_hex: "list_all is_hex (hex_chars bs)"
  by (induction bs) (simp_all add: nibble_is_hex)

lemma Des3_block: "length s = 8 \<Longrightarrow> length k = 8 \<Longrightarrow> Des3 s 8 k 8 m = Some (DesDes s k m)"
  by (simp add: Des3_def copy_at_def des_blocks_def block_starts_def block_at_full)

lemma low_part: "m = a * n + b \<Longrightarrow> b < n \<Longrightarrow> b = m mod n" for m :: nat
  by simp

text \<open>C40: A pick-up password consists of six digits whose value is a multiple of 5: it is the low six digits
  of the product, so that at most 32768 of the million numbers occur, all ending in 0 or 5.\<close>

theorem CreatePW_digits:
  "length (CreatePW r) = 6 \<and> list_all is_digit (CreatePW r) \<and> digits_val (CreatePW r) = (12345 * r + 67890) mod 10 ^ 6
   \<and> digits_val (CreatePW r) mod 5 = 0"
proof -
  let ?m = "12345 * r + 67890" and ?s = "pad0 6 (dec_digits (12345 * r + 67890))"
  have f: "fmt0 6 (int r * 12345 + 67890) = ?s" by (simp add: fmt0_def nat_add_distrib nat_mult_distrib mult.commute)
  let ?a = "take (length ?s - 6) ?s" and ?b = "drop (length ?s - 6) ?s"
  have d: "list_all is_digit ?s" by (simp add: dec_digits_all)
  have b: "length ?b = 6" "list_all is_digit ?b" using d by (simp_all add: list_all_iff) (meson in_set_dropD)
  have "digits_val ?s = digits_val ?a * 10 ^ length ?b + digits_val ?b" by (metis append_take_drop_id digits_val_append)
  then have "?m = digits_val ?a * 10 ^ 6 + digits_val ?b" using b(1) by simp
  moreover have "digits_val ?b < 10 ^ 6" using digits_val_less [OF b(2)] b(1) by simp
  ultimately have "digits_val ?b = ?m mod 10 ^ 6" by (rule low_part)
  moreover have "?m mod 10 ^ 6 mod 5 = 0"
  proof -
    have "?m mod 10 ^ 6 mod 5 = ?m mod 5" by (rule mod_mod_cancel) simp
    also have "?m = 5 * (2469 * r + 13578)" by simp
    finally show ?thesis by simp
  qed
  ultimately show ?thesis using b f by (simp add: CreatePW_def Let_def)
qed

text \<open>C39: \<open>DesDecryption\<close> gives back the password that \<open>DesEncryption\<close> enciphered into sixteen hexadecimal digits.\<close>

theorem pickup_password_roundtrip:
  assumes "length pw = 6" "no_nul pw" "length key = 8"
  shows "\<exists>c. DesEncryption pw key = Some c \<and> length c = 16 \<and> DesDecryption c key = Some pw"
proof -
  let ?in = "pw @ [2, 2]" and ?c = "DesDes (pw @ [2, 2]) key DES_ENCRYPT"
  have l: "length ?in = 8" using assms(1) by simp
  have "replicate 2 (2 :: byte) = [2, 2]" by (simp add: numeral_2_eq_2)
  then have e: "DesEncryption pw key = Some (hex_chars ?c)"
    using assms(1) Des3_block [OF l assms(3)] by (simp add: DesEncryption_def BCD2ASCII_def)
  have c: "length ?c = 8" by (rule DesDes_len)
  have "ASCII2BCD (hex_chars ?c) 16 = Some ?c" using c hex_chars_is_hex [of ?c] by (simp add: ASCII2BCD_def)
  moreover have "DesDes ?c key DES_DECRYPT = ?in" using DesDes_undo [OF l assms(3), of DES_ENCRYPT] by simp
  moreover have "cstr (?in[6 := 0]) = pw" using assms(1,2) by (simp add: list_update_append cstr_term)
  ultimately have "DesDecryption (hex_chars ?c) key = Some pw" using c Des3_block [OF c assms(3)] by (simp add: DesDecryption_def)
  then show ?thesis using e c by simp
qed

theorem pickup_password_roundtrip_witness:
  "\<exists>c. DesEncryption [0x31, 0x32, 0x33, 0x34, 0x35, 0x30] (replicate 8 0x38) = Some c
     \<and> DesDecryption c (replicate 8 0x38) = Some [0x31, 0x32, 0x33, 0x34, 0x35, 0x30]"
  using pickup_password_roundtrip [of "[0x31, 0x32, 0x33, 0x34, 0x35, 0x30]" "replicate 8 0x38"] by auto

end
