(* ===== verification/PackageDb.thy ===== *)
theory PackageDb
  imports Deposit "HOL-Library.Sublist"
begin

text \<open>
  What the program relies on of the database, stated for the operations of a \<open>world\<close>: a row is what was
  inserted, a query answers the rows that match or fails, an insertion or deletion is made or fails, and a
  change made without automatic commit is stored by \<open>Commit\<close> and undone by \<open>Rollback\<close>, which are assumed to
  succeed. With it: \<open>UpdateDataToDB\<close> moves each row of the box as a whole or not at all, and
  \<open>ConfirmDepositState\<close> stores a parcel under the first password that its look-up does not find; no other row
  has it, unless that look-up failed.
\<close>

section \<open>The laws\<close>

record db =
  packages :: "pkg list"
  history :: "table \<Rightarrow> bytes list list"

text \<open>What the connection sees, what is stored, whether every statement is committed at once, the
  numbers \<open>rand\<close> is going to answer, and which of the queries to come fail.\<close>

record 'e view =
  seen :: "'e \<Rightarrow> db"
  stored :: "'e \<Rightarrow> db"
  auto_commit :: "'e \<Rightarrow> bool"
  numbers_to_come :: "'e \<Rightarrow> nat \<Rightarrow> nat"
  fails_to_come :: "'e \<Rightarrow> nat \<Rightarrow> bool"

fun matches :: "cond \<Rightarrow> pkg \<Rightarrow> bool" where
  "matches AllRows p = True"
| "matches Flag2 p = (p_flag p = [0x32])"
| "matches (BoxIs i) p = (p_box p = int_text i)"
| "matches (MailIs m) p = (p_mail p = m)"
| "matches (PwIs t) p = (p_pw p = t)"

definition unchanged :: "'e view \<Rightarrow> 'e \<Rightarrow> 'e \<Rightarrow> bool" where
  "unchanged v e e' \<longleftrightarrow> seen v e' = seen v e \<and> stored v e' = stored v e \<and> auto_commit v e' = auto_commit v e
     \<and> numbers_to_come v e' = numbers_to_come v e"

definition changed_to :: "'e view \<Rightarrow> db \<Rightarrow> 'e \<Rightarrow> 'e \<Rightarrow> bool" where
  "changed_to v d e e' \<longleftrightarrow> seen v e' = d \<and> stored v e' = (if auto_commit v e then d else stored v e) \<and> auto_commit v e' = auto_commit v e
     \<and> numbers_to_come v e' = numbers_to_come v e"

definition with_history :: "table \<Rightarrow> bytes list list \<Rightarrow> db \<Rightarrow> db" where
  "with_history t rs d = d\<lparr>history := (history d)(t := history d t @ rs)\<rparr>"

definition without_mails :: "bytes set \<Rightarrow> db \<Rightarrow> db" where
  "without_mails ms d = d\<lparr>packages := filter (\<lambda>p. p_mail p \<notin> ms) (packages d)\<rparr>"

definition select_law :: "'e world \<Rightarrow> 'e view \<Rightarrow> bool" where
  "select_law w v \<longleftrightarrow> (\<forall>c e. fst (db_select w c e) = (if fails_to_come v e 0 then None else Some (filter (matches c) (packages (seen v e))))
     \<and> unchanged v e (snd (db_select w c e)) \<and> fails_to_come v (snd (db_select w c e)) = (\<lambda>i. fails_to_come v e (Suc i)))"

definition insert_law :: "'e world \<Rightarrow> 'e view \<Rightarrow> bool" where
  "insert_law w v \<longleftrightarrow> (\<forall>p e. changed_to v (if fst (db_insert_pkg w p e) then (seen v e)\<lparr>packages := packages (seen v e) @ [p]\<rparr> else seen v e)
     e (snd (db_insert_pkg w p e)))"

definition history_law :: "'e world \<Rightarrow> 'e view \<Rightarrow> bool" where
  "history_law w v \<longleftrightarrow> (\<forall>t r e. changed_to v (if fst (db_insert_history w t r e) then with_history t [r] (seen v e) else seen v e)
     e (snd (db_insert_history w t r e)))"

definition delete_law :: "'e world \<Rightarrow> 'e view \<Rightarrow> bool" where
  "delete_law w v \<longleftrightarrow> (\<forall>m e. changed_to v (if fst (db_delete_mail w m e) then without_mails {m} (seen v e) else seen v e)
     e (snd (db_delete_mail w m e)))"

definition commit_law :: "'e world \<Rightarrow> 'e view \<Rightarrow> bool" where
  "commit_law w v \<longleftrightarrow>
     (\<forall>e. seen v (db_commit w e) = seen v e \<and> stored v (db_commit w e) = seen v e \<and> auto_commit v (db_commit w e) = auto_commit v e
        \<and> numbers_to_come v (db_commit w e) = numbers_to_come v e
      \<and> seen v (db_rollback w e) = stored v e \<and> stored v (db_rollback w e) = stored v e \<and> auto_commit v (db_rollback w e) = auto_commit v e)
   \<and> (\<forall>b e. seen v (db_autocommit w b e) = seen v e \<and> stored v (db_autocommit w b e) = (if b then seen v e else stored v e)
        \<and> auto_commit v (db_autocommit w b e) = b)"

definition rnd_law :: "'e world \<Rightarrow> 'e view \<Rightarrow> bool" where
  "rnd_law w v \<longleftrightarrow> (\<forall>e. fst (rnd w e) = numbers_to_come v e 0 \<and> seen v (snd (rnd w e)) = seen v e
     \<and> numbers_to_come v (snd (rnd w e)) = (\<lambda>i. numbers_to_come v e (Suc i)) \<and> fails_to_come v (snd (rnd w e)) = fails_to_come v e)"

definition db_laws :: "'e world \<Rightarrow> 'e view \<Rightarrow> bool" where
  "db_laws w v \<longleftrightarrow> select_law w v \<and> insert_law w v \<and> history_law w v \<and> delete_law w v \<and> commit_law w v \<and> rnd_law w v"

lemma lawsD:
  assumes "db_laws w v"
  shows "db_select w c e = (r, e') \<Longrightarrow> r = (if fails_to_come v e 0 then None else Some (filter (matches c) (packages (seen v e))))
      \<and> unchanged v e e' \<and> fails_to_come v e' = (\<lambda>i. fails_to_come v e (Suc i))"
    "db_insert_pkg w p e = (a, e') \<Longrightarrow> changed_to v (if a then (seen v e)\<lparr>packages := packages (seen v e) @ [p]\<rparr> else seen v e) e e'"
    "db_insert_history w t row e = (a, e') \<Longrightarrow> changed_to v (if a then with_history t [row] (seen v e) else seen v e) e e'"
    "db_delete_mail w m e = (a, e') \<Longrightarrow> changed_to v (if a then without_mails {m} (seen v e) else seen v e) e e'"
    "rnd w e = (n, e') \<Longrightarrow> n = numbers_to_come v e 0 \<and> seen v e' = seen v e \<and> numbers_to_come v e' = (\<lambda>i. numbers_to_come v e (Suc i))
      \<and> fails_to_come v e' = fails_to_come v e"
  using assms unfolding db_laws_def
  by (metis select_law_def fst_conv snd_conv, metis insert_law_def fst_conv snd_conv, metis history_law_def fst_conv snd_conv,
      metis delete_law_def fst_conv snd_conv, metis rnd_law_def fst_conv snd_conv)

lemma laws_simps:
  assumes "db_laws w v"
  shows "seen v (db_commit w e) = seen v e" "stored v (db_commit w e) = seen v e" "auto_commit v (db_commit w e) = auto_commit v e"
    "numbers_to_come v (db_commit w e) = numbers_to_come v e"
    "seen v (db_rollback w e) = stored v e" "stored v (db_rollback w e) = stored v e" "auto_commit v (db_rollback w e) = auto_commit v e"
    "seen v (db_autocommit w b e) = seen v e" "stored v (db_autocommit w b e) = (if b then seen v e else stored v e)"
    "auto_commit v (db_autocommit w b e) = b"
  using assms by (simp_all add: db_laws_def commit_law_def)

section \<open>Moving the rows of a box\<close>

lemma without_mails_comp: "without_mails ms (without_mails ms' d) = without_mails (ms \<union> ms') d"
  by (simp add: without_mails_def conj_commute)

lemma with_history_comp: "with_history t rs' (with_history t rs d) = with_history t (rs @ rs') d"
  by (simp add: with_history_def)

lemma with_without: "with_history t rs (without_mails ms d) = without_mails ms (with_history t rs d)"
  by (simp add: with_history_def without_mails_def)

lemma without_none: "without_mails {} d = d" by (simp add: without_mails_def)
lemma with_none: "with_history t [] d = d" by (simp add: with_history_def)

definition moved_to :: "table \<Rightarrow> (pkg \<Rightarrow> bytes list) \<Rightarrow> pkg list \<Rightarrow> db \<Rightarrow> db" where
  "moved_to tab row ms d = without_mails (p_mail ` set ms) (with_history tab (map row ms) d)"

lemma moved_to_Cons: "moved_to tab row ms (moved_to tab row [p] d) = moved_to tab row (p # ms) d"
  by (simp add: moved_to_def without_mails_comp with_history_comp with_without)

lemma move_rows_of:
  assumes "db_laws w v" "\<not> auto_commit v e" "stored v e = seen v e" "move_rows w tab t who ps ok e = (ok', e')"
  shows "\<exists>ms. subseq ms ps \<and> seen v e' = moved_to tab (history_row t who) ms (seen v e) \<and> stored v e' = seen v e'
    \<and> \<not> auto_commit v e' \<and> (ok' \<longleftrightarrow> ok \<and> ms = ps)"
  using assms(2-)
proof (induction ps arbitrary: ok e)
  case Nil
  then show ?case by (intro exI [of _ "[]"]) (simp add: moved_to_def without_none with_none)
next
  case (Cons p ps)
  obtain a e1 where i: "db_insert_history w tab (history_row t who p) e = (a, e1)" by (metis surj_pair)
  note li = lawsD(3) [OF assms(1) i]
  have later: "\<exists>ms. subseq ms (p # ps) \<and> seen v e' = moved_to tab (history_row t who) ms (seen v e) \<and> stored v e' = seen v e'
    \<and> \<not> auto_commit v e' \<and> (ok' \<longleftrightarrow> ok \<and> ms = p # ps)"
    if n: "move_rows w tab t who ps False e2 = (ok', e')" "seen v e2 = seen v e" "stored v e2 = seen v e" "\<not> auto_commit v e2" for e2
  proof -
    obtain ms where "subseq ms ps" "seen v e' = moved_to tab (history_row t who) ms (seen v e)" "stored v e' = seen v e'"
      "\<not> auto_commit v e'" "\<not> ok'" using Cons.IH [OF n(4) _ n(1)] n(2,3) by auto
    moreover from this have "ms \<noteq> p # ps" using list_emb_length [of "(=)" ms ps] by auto
    ultimately show ?thesis by (intro exI [of _ ms]) auto
  qed
  show ?case
  proof (cases a)
    case False
    then show ?thesis using later [of e1] Cons.prems i li by (simp add: changed_to_def)
  next
    case True
    obtain d e2 where d: "db_delete_mail w (p_mail p) e1 = (d, e2)" by (metis surj_pair)
    note ld = lawsD(4) [OF assms(1) d]
    show ?thesis
    proof (cases d)
      case False
      then show ?thesis using later [of "db_rollback w e2"] Cons.prems i d True li ld laws_simps [OF assms(1)]
        by (simp add: changed_to_def)
    next
      case dt: True
      let ?e = "db_commit w e2"
      have e: "seen v ?e = moved_to tab (history_row t who) [p] (seen v e)" "stored v ?e = seen v ?e" "\<not> auto_commit v ?e"
        using Cons.prems True dt li ld laws_simps [OF assms(1)] by (simp_all add: changed_to_def moved_to_def)
      have "move_rows w tab t who ps ok ?e = (ok', e')" using Cons.prems(3) i d True dt by simp
      from Cons.IH [OF e(3,2) this] obtain ms where "subseq ms ps" "seen v e' = moved_to tab (history_row t who) ms (seen v ?e)"
        "stored v e' = seen v e'" "\<not> auto_commit v e'" "ok' \<longleftrightarrow> ok \<and> ms = ps" by blast
      then show ?thesis using e(1) moved_to_Cons by (intro exI [of _ "p # ms"]) auto
    qed
  qed
qed

lemma move_box_of:
  assumes "db_laws w v" "stored v e = seen v e" "move_box w tab who i e = (ok, e')"
  shows "\<exists>ms t. subseq ms (filter (matches (BoxIs i)) (packages (seen v e))) \<and> seen v e' = moved_to tab (history_row t who) ms (seen v e)
    \<and> stored v e' = seen v e' \<and> auto_commit v e'
    \<and> (ok \<longleftrightarrow> ms = filter (matches (BoxIs i)) (packages (seen v e)) \<and> ms \<noteq> [])"
proof -
  let ?e0 = "db_autocommit w False e"
  obtain r e1 where s: "db_select w (BoxIs i) ?e0 = (r, e1)" by (metis surj_pair)
  have r: "r = None \<or> r = Some (filter (matches (BoxIs i)) (packages (seen v e)))" and u: "seen v e1 = seen v e" "stored v e1 = seen v e" "\<not> auto_commit v e1"
    using lawsD(1) [OF assms(1) s] laws_simps [OF assms(1)] assms(2) by (simp_all add: unchanged_def)
  show ?thesis
  proof (cases "r = None \<or> filter (matches (BoxIs i)) (packages (seen v e)) = []")
    case True
    then show ?thesis using assms(3) s r u laws_simps [OF assms(1)]
      by (intro exI [of _ "[]"]) (auto simp: move_box_def Let_def moved_to_def without_none with_none)
  next
    case False
    then obtain p ps where Cons: "filter (matches (BoxIs i)) (packages (seen v e)) = p # ps" and "r \<noteq> None"
      by (metis neq_Nil_conv)
    obtain ok2 e2 where m: "move_rows w tab (now w ?e0) who (p # ps) True e1 = (ok2, e2)" by (metis surj_pair)
    then have k: "ok = ok2" "e' = db_autocommit w True e2" using assms(3) s r Cons \<open>r \<noteq> None\<close> by (simp_all add: move_box_def Let_def)
    from move_rows_of [OF assms(1) u(3) _ m] u(1,2) obtain ms where "subseq ms (p # ps)"
      "seen v e2 = moved_to tab (history_row (now w ?e0) who) ms (seen v e)" "ok2 \<longleftrightarrow> ms = p # ps" by auto
    then show ?thesis using k Cons laws_simps [OF assms(1)] by (intro exI [of _ ms] exI [of _ "now w ?e0"]) auto
  qed
qed

section \<open>A parcel under a new password\<close>

definition pw_of :: "bytes \<Rightarrow> nat \<Rightarrow> bytes" where
  "pw_of key r = hex_chars (DesDes (CreatePW r @ [2, 2]) key DES_ENCRYPT)"

lemma DesEncryption_six:
  assumes "length pw = 6" "length key = 8"
  shows "DesEncryption pw key = Some (hex_chars (DesDes (pw @ [2, 2]) key DES_ENCRYPT))"
proof -
  have "replicate 2 (2 :: byte) = [2, 2]" by (simp add: numeral_2_eq_2)
  then show ?thesis using assms Des3_block [of "pw @ [2, 2]" key] by (simp add: DesEncryption_def BCD2ASCII_def)
qed

lemma CreatePW_len: "length (CreatePW r) = 6"
  by (simp add: CreatePW_def Let_def fmt0_def)

lemma FindPickupPW_of:
  assumes "db_laws w v" "FindPickupPWFromDB w pw e = (f, e')"
  shows "(f \<longleftrightarrow> \<not> fails_to_come v e 0 \<and> (\<exists>p \<in> set (packages (seen v e)). p_pw p = pw)) \<and> unchanged v e e'
    \<and> fails_to_come v e' = (\<lambda>i. fails_to_come v e (Suc i))"
proof -
  obtain r e1 where s: "db_select w (PwIs pw) e = (r, e1)" by (metis surj_pair)
  then have "f = (case r of Some (_ # _) \<Rightarrow> True | _ \<Rightarrow> False)" "e' = e1"
    using assms(2) by (simp_all add: FindPickupPWFromDB_def exists_row_def Let_def)
  then show ?thesis using lawsD(1) [OF assms(1) s] by (auto simp: filter_empty_conv split: list.splits dest: filter_eq_ConsD)
qed

text \<open>No row has the password of the \<open>n\<close>-th number to come.\<close>

definition pw_new :: "'e view \<Rightarrow> 'e kiosk \<Rightarrow> nat \<Rightarrow> bool" where
  "pw_new v k n \<longleftrightarrow> (\<forall>p \<in> set (packages (seen v (env k))). p_pw p \<noteq> pw_of (m_auHostKey k) (numbers_to_come v (env k) n))"

text \<open>One password drawn and looked up.\<close>

lemma pw_step:
  assumes "db_laws w v" "length (m_auHostKey k) = 8"
  obtains e where "pw_loop w k = (let k' = k\<lparr>m_pw := pw_of (m_auHostKey k) (numbers_to_come v (env k) 0), env := e\<rparr> in
      if fails_to_come v (env k) 0 \<or> pw_new v k 0 then Some k' else pw_loop w k')"
    "seen v e = seen v (env k)" "numbers_to_come v e = (\<lambda>i. numbers_to_come v (env k) (Suc i))"
    "fails_to_come v e = (\<lambda>i. fails_to_come v (env k) (Suc i))"
proof -
  obtain r e1 where r: "rnd w (env k) = (r, e1)" by (metis surj_pair)
  let ?pw = "pw_of (m_auHostKey k) r"
  obtain f e2 where f: "FindPickupPWFromDB w ?pw e1 = (f, e2)" by (metis surj_pair)
  have "CreatePickupPW w k = Some (?pw, k\<lparr>env := e1\<rparr>)"
    using DesEncryption_six [OF CreatePW_len assms(2)] r by (simp add: CreatePickupPW_def pw_of_def)
  then have "pw_loop w k = (let k' = k\<lparr>m_pw := ?pw, env := e2\<rparr> in if f then pw_loop w k' else Some k')"
    using f by (simp add: pw_loop.simps [of w k])
  moreover have "f \<longleftrightarrow> \<not> (fails_to_come v (env k) 0 \<or> pw_new v k 0)"
    using FindPickupPW_of [OF assms(1) f] lawsD(5) [OF assms(1) r] by (auto simp: pw_new_def)
  ultimately have l: "pw_loop w k = (let k' = k\<lparr>m_pw := ?pw, env := e2\<rparr> in
      if fails_to_come v (env k) 0 \<or> pw_new v k 0 then Some k' else pw_loop w k')"
    by (cases "fails_to_come v (env k) 0 \<or> pw_new v k 0") (simp_all add: Let_def)
  have "r = numbers_to_come v (env k) 0" "seen v e2 = seen v (env k)" "numbers_to_come v e2 = (\<lambda>i. numbers_to_come v (env k) (Suc i))"
    "fails_to_come v e2 = (\<lambda>i. fails_to_come v (env k) (Suc i))"
    using FindPickupPW_of [OF assms(1) f] lawsD(5) [OF assms(1) r] by (simp_all add: unchanged_def)
  then show ?thesis using that [of e2] l by blast
qed

lemma pw_loop_of:
  assumes "db_laws w v" "length (m_auHostKey k) = 8" "fails_to_come v (env k) n \<or> pw_new v k n"
  shows "\<exists>e m. pw_loop w k = Some (k\<lparr>m_pw := pw_of (m_auHostKey k) (numbers_to_come v (env k) m), env := e\<rparr>) \<and> seen v e = seen v (env k)
    \<and> (fails_to_come v (env k) m \<or> pw_new v k m) \<and> (\<forall>i < m. \<not> fails_to_come v (env k) i \<and> \<not> pw_new v k i)"
  using assms(2,3)
proof (induction n arbitrary: k)
  case (0 k)
  obtain e where s: "pw_loop w k = (let k' = k\<lparr>m_pw := pw_of (m_auHostKey k) (numbers_to_come v (env k) 0), env := e\<rparr> in
      if fails_to_come v (env k) 0 \<or> pw_new v k 0 then Some k' else pw_loop w k')" "seen v e = seen v (env k)"
    by (rule pw_step [OF assms(1) 0(1)])
  then show ?case using 0(2) by (intro exI [of _ e] exI [of _ 0]) (simp add: Let_def)
next
  case (Suc n k)
  let ?k' = "\<lambda>e. k\<lparr>m_pw := pw_of (m_auHostKey k) (numbers_to_come v (env k) 0), env := e\<rparr>"
  obtain e where s: "pw_loop w k = (let k' = ?k' e in if fails_to_come v (env k) 0 \<or> pw_new v k 0 then Some k' else pw_loop w k')"
    "seen v e = seen v (env k)" "numbers_to_come v e = (\<lambda>i. numbers_to_come v (env k) (Suc i))"
    "fails_to_come v e = (\<lambda>i. fails_to_come v (env k) (Suc i))" by (rule pw_step [OF assms(1) Suc(2)])
  show ?case
  proof (cases "fails_to_come v (env k) 0 \<or> pw_new v k 0")
    case True
    then show ?thesis using s by (intro exI [of _ e] exI [of _ 0]) (simp add: Let_def)
  next
    case False
    have new: "pw_new v (?k' e) i \<longleftrightarrow> pw_new v k (Suc i)" for i by (simp add: pw_new_def s)
    have "length (m_auHostKey (?k' e)) = 8" "fails_to_come v (env (?k' e)) n \<or> pw_new v (?k' e) n" using Suc.prems new s by simp_all
    from Suc.IH [OF this] obtain e' m where "pw_loop w (?k' e) = Some ((?k' e)\<lparr>m_pw := pw_of (m_auHostKey k) (numbers_to_come v e m), env := e'\<rparr>)"
      "seen v e' = seen v e" "fails_to_come v e m \<or> pw_new v k (Suc m)" "\<forall>i < m. \<not> fails_to_come v e i \<and> \<not> pw_new v k (Suc i)"
      by (auto simp: new)
    then show ?thesis using s False by (intro exI [of _ e'] exI [of _ "Suc m"]) (auto simp: Let_def less_Suc_eq_0_disj)
  qed
qed

text \<open>A failed look-up ends the search, also when a row has the password.\<close>

lemma pw_loop_failed_query:
  assumes "db_laws w v" "length (m_auHostKey k) = 8" "fails_to_come v (env k) 0"
  shows "\<exists>e. pw_loop w k = Some (k\<lparr>m_pw := pw_of (m_auHostKey k) (numbers_to_come v (env k) 0), env := e\<rparr>)"
proof -
  obtain e where "pw_loop w k = (let k' = k\<lparr>m_pw := pw_of (m_auHostKey k) (numbers_to_come v (env k) 0), env := e\<rparr> in
      if fails_to_come v (env k) 0 \<or> pw_new v k 0 then Some k' else pw_loop w k')" by (rule pw_step [OF assms(1,2)])
  then show ?thesis using assms(3) by (intro exI [of _ e]) (simp add: Let_def)
qed

lemma save_rows_of:
  assumes "db_laws w v" "save_rows w row cs e = (ok, e')" "\<And>c. p_mail (row c) = c \<and> p_box (row c) = b \<and> p_pw (row c) = pw"
  shows "\<exists>rs n. packages (seen v e') = packages (seen v e) @ rs \<and> (\<forall>p \<in> set rs. p_box p = b \<and> p_pw p = pw)
    \<and> map p_mail rs = take n cs \<and> n \<le> length cs \<and> (ok \<longleftrightarrow> n = length cs)"
  using assms(2)
proof (induction cs arbitrary: e)
  case Nil
  then show ?case by (intro exI [of _ "[]"]) simp
next
  case (Cons c cs)
  have step: "\<exists>rs n. packages (seen v e') = packages (seen v e) @ rs \<and> (\<forall>p \<in> set rs. p_box p = b \<and> p_pw p = pw)
    \<and> map p_mail rs = take n (c # cs) \<and> n \<le> length (c # cs) \<and> (ok \<longleftrightarrow> n = length (c # cs))"
    if r: "save_rows w row cs e3 = (ok, e')" "packages (seen v e3) = packages (seen v e) @ [p]" "p_mail p = c" "p_box p = b" "p_pw p = pw" for e3 p
  proof -
    from Cons.IH [OF r(1)] obtain rs n where "packages (seen v e') = packages (seen v e3) @ rs" "\<forall>p \<in> set rs. p_box p = b \<and> p_pw p = pw"
      "map p_mail rs = take n cs" "n \<le> length cs" "ok \<longleftrightarrow> n = length cs" by blast
    then show ?thesis using r(2-) by (intro exI [of _ "p # rs"] exI [of _ "Suc n"]) auto
  qed
  obtain a e1 where a: "db_insert_pkg w (row c) e = (a, e1)" by (metis surj_pair)
  note la = lawsD(2) [OF assms(1) a]
  show ?case
  proof (cases a)
    case True
    then show ?thesis using Cons.prems a la assms(3) laws_simps [OF assms(1)]
      by (intro step [of "db_commit w e1" "row c"]) (simp_all add: changed_to_def)
  next
    case False
    obtain a2 e2 where a2: "db_insert_pkg w ((row c)\<lparr>p_name := [], p_address := []\<rparr>) e1 = (a2, e2)" by (metis surj_pair)
    note la2 = lawsD(2) [OF assms(1) a2]
    show ?thesis
    proof (cases a2)
      case True
      then show ?thesis using Cons.prems a a2 False la la2 assms(3) laws_simps [OF assms(1)]
        by (intro step [of "db_commit w e2" "(row c)\<lparr>p_name := [], p_address := []\<rparr>"]) (simp_all add: changed_to_def)
    next
      case f: False
      then show ?thesis using Cons.prems a a2 False la la2 by (intro exI [of _ "[]"] exI [of _ 0]) (simp add: changed_to_def)
    qed
  qed
qed

section \<open>A small database\<close>

text \<open>What is seen, what is stored, the commit mode and the next number of \<open>rand\<close>.\<close>

type_synonym test_env = "db \<times> db \<times> bool \<times> nat"

definition test_view :: "test_env view" where
  "test_view = \<lparr>seen = \<lambda>(d, s, a, n). d, stored = \<lambda>(d, s, a, n). s, auto_commit = \<lambda>(d, s, a, n). a, numbers_to_come = \<lambda>(d, s, a, n) i. n + i,
     fails_to_come = \<lambda>e i. False\<rparr>"

definition test_put :: "db \<Rightarrow> test_env \<Rightarrow> test_env" where
  "test_put d' = (\<lambda>(d, s, a, n). (d', if a then d' else s, a, n))"

definition test_world :: "test_env world" where
  "test_world = \<lparr>lock_open = \<lambda>c p e. (True, e), lock_status = \<lambda>c p e. (None, e), rnd = \<lambda>(d, s, a, n). (n, (d, s, a, Suc n)), now = \<lambda>e. [],
     idle = \<lambda>e. (False, e), stop_check = \<lambda>e. (True, e),
     db_select = \<lambda>c e. (Some (filter (matches c) (packages (fst e))), e),
     db_insert_pkg = \<lambda>p e. (True, test_put ((fst e)\<lparr>packages := packages (fst e) @ [p]\<rparr>) e),
     db_insert_history = \<lambda>t r e. (True, test_put (with_history t [r] (fst e)) e),
     db_delete_mail = \<lambda>m e. (True, test_put (without_mails {m} (fst e)) e),
     db_commit = \<lambda>(d, s, a, n). (d, d, a, n), db_rollback = \<lambda>(d, s, a, n). (s, s, a, n),
     db_autocommit = \<lambda>b (d, s, a, n). (d, if b then d else s, b, n),
     db_postmen = \<lambda>e. (None, e), db_set_timeout = \<lambda>i t e. (False, e), db_tq_rows = \<lambda>e. (None, e),
     db_tq_insert = \<lambda>t e. (False, e), db_tq_delete = \<lambda>t e. (False, e), db_tq_try = \<lambda>t n e. (False, e),
     net_socket = \<lambda>e. (False, e), net_connect = \<lambda>e. (False, e), net_send = \<lambda>d e. (0, e), net_recv = \<lambda>e. ((0, []), e),
     pack_body = \<lambda>k. [], unpack = \<lambda>d k. (0, k), save = \<lambda>k. k\<rparr>"

lemma test_laws: "db_laws test_world test_view"
  by (auto simp: db_laws_def select_law_def insert_law_def history_law_def delete_law_def commit_law_def rnd_law_def
      test_world_def test_view_def test_put_def unchanged_def changed_to_def with_history_def)

definition one_package :: pkg where
  "one_package = \<lparr>p_box = [0x32], p_pw = [0x31], p_mail = [0x41], p_time = [], p_deadline = [], p_postman = [], p_mobile = [], p_name = [],
     p_address = [], p_col9 = [], p_verify = [], p_flag = [], p_extra = []\<rparr>"

definition one_row :: db where
  "one_row = \<lparr>packages = [one_package], history = \<lambda>t. []\<rparr>"

definition test_kiosk :: "test_env kiosk" where
  "test_kiosk = \<lparr>env = (one_row, one_row, True, 0), m_cbox = sample_box, m_iWorkMode = WORKMODE_TAKE, m_iLogicalCurrentBox = 3, m_csCurrentBoxID = [],
     m_iCurrentOpenBox = - 1, m_vBoxDoorStatus = Map.empty, m_bSendBoxStatus = False, m_tranCode = [], m_iSerial = 1, m_pw = [],
     m_barCode = \<lambda>i. [0x42], m_iBarCodeCount = 1, m_postmanID = [], m_PostLoginID = [], m_csExtraData = [], m_idcode = [], m_idname = [],
     m_iIsTakeoutDelaySend = 0, m_bSendTrans = False, m_bNetWorkFail = False, m_bReboot = False, m_csMobile = [], m_address = [],
     m_iDeadline = 1, m_iVerifyType = 1, m_iIsPostDelaySend = 0, m_iIsPostFailOpenDoor = 0, m_auHostKey = replicate 8 0x38, m_iLockerExist = 1,
     m_iLockerStatus = 0, m_iIsUpdateingStatusLocker = False, m_iIsUpdateingBoxStatus = False, m_bIsCheckingOpenDoor = False,
     screen = []\<rparr>"

section \<open>The properties\<close>

text \<open>C8: Taking a parcel out moves the rows of its box from the package table to the history table, each as
  a whole or not at all, and what is seen is stored; the answer is true exactly when there were rows and all
  of them moved. The rows go by their mail numbers: a row of another box with the number of a moved one goes too.\<close>

theorem UpdateDataToDB_moves:
  assumes "db_laws w v" "stored v (env k) = seen v (env k)" "UpdateDataToDB w i k = (ok, k')"
    and "m_iWorkMode k = WORKMODE_POSTMAN_TAKE \<and> tab = Recycle
      \<or> (m_iWorkMode k = WORKMODE_TAKE \<or> m_iWorkMode k = WORKMODE_MANAGER_TAKE) \<and> tab = PickupHistory"
    and "rs = filter (\<lambda>p. p_box p = int_text i) (packages (seen v (env k)))"
  shows "\<exists>ms t who. subseq ms rs \<and> packages (seen v (env k')) = filter (\<lambda>p. p_mail p \<notin> p_mail ` set ms) (packages (seen v (env k)))
    \<and> history (seen v (env k')) = (history (seen v (env k)))(tab := history (seen v (env k)) tab @ map (history_row t who) ms)
    \<and> stored v (env k') = seen v (env k') \<and> (ok \<longleftrightarrow> ms = rs \<and> rs \<noteq> [])"
proof -
  obtain who e' where m: "move_box w tab who i (env k) = (ok, e')" "env k' = e'"
    using assms(3,4) by (auto simp: UpdateDataToDB_def modes Let_def split: prod.splits if_splits)
  have r: "filter (matches (BoxIs i)) (packages (seen v (env k))) = rs" using assms(5) by (simp cong: filter_cong)
  from move_box_of [OF assms(1,2) m(1), unfolded r] obtain ms t where "subseq ms rs"
    "seen v e' = moved_to tab (history_row t who) ms (seen v (env k))" "stored v e' = seen v e'" "ok \<longleftrightarrow> ms = rs \<and> ms \<noteq> []" by blast
  then show ?thesis using m(2)
    by (intro exI [of _ ms] exI [of _ t] exI [of _ who]) (auto simp: moved_to_def without_mails_def with_history_def)
qed

theorem UpdateDataToDB_moves_witness:
  "\<exists>k'. UpdateDataToDB test_world 2 test_kiosk = (True, k') \<and> packages (seen test_view (env k')) = []"
proof -
  have k: "env test_kiosk = (one_row, one_row, True, 0)" "m_iWorkMode test_kiosk = WORKMODE_TAKE" by (simp_all add: test_kiosk_def)
  have t: "int_text 2 = [0x32]" by code_simp
  obtain ok k' where u: "UpdateDataToDB test_world 2 test_kiosk = (ok, k')" by (metis surj_pair)
  have "fst (UpdateDataToDB test_world 2 test_kiosk)"
    using t by (simp add: UpdateDataToDB_def move_box_def k modes test_world_def one_row_def one_package_def Let_def test_put_def
        without_mails_def with_history_def)
  then have ok: "ok" using u by simp
  have r: "[one_package] = filter (\<lambda>p. p_box p = int_text 2) (packages (seen test_view (env test_kiosk)))"
    using t by (simp add: k test_view_def one_row_def one_package_def)
  show ?thesis using UpdateDataToDB_moves [OF test_laws _ u _ r, of PickupHistory] u ok k
    by (auto simp: test_view_def one_row_def)
qed

text \<open>C18: As soon as \<open>rand\<close> comes to a number whose password no row has, or the look-up of a password
  fails, storing a parcel returns; it uses the first such number. So the password of the rows it adds is one
  that no row had before, unless the very query that looked for it failed (the code takes a failed query for
  \<open>not found\<close>). The rows it adds, one for each code in their order until one is refused, carry the number of
  the open box and that password, and the answer is true when every code has its row.\<close>

theorem deposit_store_new_password:
  assumes "db_laws w v" "length (m_auHostKey k) = 8" "0 < m_iLogicalCurrentBox k" "m_iLogicalCurrentBox k \<le> m_iBoxCountTotal (m_cbox k)"
    "m_iBarCodeCount k \<le> 10" "fails_to_come v (env k) n \<or> pw_new v k n"
  shows "\<exists>ok k' rs j m. deposit_store w k = Some (ok, k') \<and> m_pw k' = pw_of (m_auHostKey k) (numbers_to_come v (env k) m)
    \<and> (\<forall>i < m. \<not> fails_to_come v (env k) i \<and> \<not> pw_new v k i)
    \<and> (fails_to_come v (env k) m \<or> (\<forall>p \<in> set (packages (seen v (env k))). p_pw p \<noteq> m_pw k'))
    \<and> packages (seen v (env k')) = packages (seen v (env k)) @ rs
    \<and> (\<forall>p \<in> set rs. p_box p = int_text (m_iLogicalCurrentBox k) \<and> p_pw p = m_pw k')
    \<and> map p_mail rs = take j (map (m_barCode k) [0..<nat (m_iBarCodeCount k)]) \<and> (ok \<longleftrightarrow> nat (m_iBarCodeCount k) \<le> j)"
proof -
  from pw_loop_of [OF assms(1,2,6)] obtain e m where
    l: "pw_loop w k = Some (k\<lparr>m_pw := pw_of (m_auHostKey k) (numbers_to_come v (env k) m), env := e\<rparr>)" "seen v e = seen v (env k)"
      "fails_to_come v (env k) m \<or> pw_new v k m" "\<forall>i < m. \<not> fails_to_come v (env k) i \<and> \<not> pw_new v k i" by blast
  define pw where "pw = pw_of (m_auHostKey k) (numbers_to_come v (env k) m)"
  let ?row = "new_pkg (m_iLogicalCurrentBox k) pw (m_PostLoginID k) (m_idname k) (m_address k) (m_csMobile k) (now w e) (m_iDeadline k)
    (m_iVerifyType k) [] [0x31]"
  let ?cs = "map (m_barCode k) [0..<nat (m_iBarCodeCount k)]"
  obtain ok e' where s: "save_rows w ?row ?cs e = (ok, e')" by (metis surj_pair)
  have d: "deposit_store w k = Some (ok, k\<lparr>m_pw := pw, env := e', m_bReboot := (m_bReboot k \<or> \<not> ok)\<rparr>)"
    using l(1) s assms(3-5) by (simp add: deposit_store_def SavePackageToDB_def pw_def)
  from save_rows_of [OF assms(1) s, of "int_text (m_iLogicalCurrentBox k)" pw] obtain rs j where
    "packages (seen v e') = packages (seen v e) @ rs" "\<forall>p \<in> set rs. p_box p = int_text (m_iLogicalCurrentBox k) \<and> p_pw p = pw"
    "map p_mail rs = take j ?cs" "j \<le> length ?cs" "ok \<longleftrightarrow> j = length ?cs" by (auto simp: new_pkg_def)
  then show ?thesis using d l(2-4) by (intro exI [of _ ok] exI [of _ "k\<lparr>m_pw := pw, env := e', m_bReboot := (m_bReboot k \<or> \<not> ok)\<rparr>"]
      exI [of _ rs] exI [of _ j] exI [of _ m]) (auto simp: pw_def pw_new_def)
qed

theorem deposit_store_new_password_witness:
  "\<exists>ok k'. deposit_store test_world test_kiosk = Some (ok, k') \<and> p_pw one_package \<noteq> m_pw k'"
proof -
  have k: "env test_kiosk = (one_row, one_row, True, 0)" "m_iLogicalCurrentBox test_kiosk = 3" "m_iBarCodeCount test_kiosk = 1"
    "m_auHostKey test_kiosk = replicate 8 0x38" "m_cbox test_kiosk = sample_box" by (simp_all add: test_kiosk_def)
  have "pw_of (m_auHostKey test_kiosk) r \<noteq> p_pw one_package" for r
  proof
    assume "pw_of (m_auHostKey test_kiosk) r = p_pw one_package"
    then have "length (pw_of (m_auHostKey test_kiosk) r) = length (p_pw one_package)" by simp
    then show False using DesDes_len by (simp add: pw_of_def one_package_def)
  qed
  then have "pw_new test_view test_kiosk 0" by (auto simp: pw_new_def k(1) test_view_def one_row_def dest: sym)
  then show ?thesis using deposit_store_new_password [OF test_laws, of test_kiosk 0] k
    by (fastforce simp: test_view_def one_row_def sample_box_def)
qed

end
