(* ===== verification/TransQueue.thy ===== *)
theory TransQueue
  imports Kiosk "HOL-Library.List_Lexorder" "HOL-Library.Multiset"
begin

text \<open>
  The queue of transactions to send again (\<open>TransactionQueue\<close> of \<open>TranProDlg.cpp\<close>), which runs while the
  program is idle: the record with the least serial number (in the order of the texts) is sent; an answer of any kind removes it and the
  next one follows, an error of the line ends the run and counts as a try, or removes the record with the
  last try. \<open>queue_laws\<close> says what the queue table does; the properties are that records leave in the order
  of their serial numbers and that a run ends when the table removes what it is told to, and that it does not
  end when the table refuses and the host goes on answering.
\<close>

section \<open>The loop\<close>

text \<open>\<open>ORDER BY SerialNo\<close> of the query; the rows come from \<open>db_tq_rows\<close> in any order.\<close>

definition order_by_serial :: "tq list \<Rightarrow> tq list" where
  "order_by_serial = sort_key t_serial"

text \<open>One round: whether the loop goes on.\<close>

definition queue_step :: "'e world \<Rightarrow> 'e kiosk \<Rightarrow> bool \<times> 'e kiosk" where
  "queue_step w k = (let (i, e0) = idle w (env k) in
     if \<not> i then (False, k\<lparr>env := e0\<rparr>)
     else (let (r, e1) = db_tq_rows w e0 in
       case map_option order_by_serial r of Some (t # _) \<Rightarrow>
         (let k1 = k\<lparr>env := e1, m_barCode := (m_barCode k)(0 := t_bar t), m_tranCode := t_code t\<rparr>;
              currentRetryTimes = t_tries t + 1;
              (iCommRet, k2) = Transaction w (t_data t) False k1 in
          if iCommRet = - 1 \<or> iCommRet = - 2 \<or> iCommRet = - 3 \<or> iCommRet = - 4
          then (if currentRetryTimes = t_max t
            then (let (a, e) = db_tq_delete w (t_serial t) (env k2) in (False, k2\<lparr>env := if a then db_commit w e else e\<rparr>))
            else (let (a, e) = db_tq_try w (t_serial t) currentRetryTimes (env k2) in (False, k2\<lparr>env := e\<rparr>)))
          else (let (a, e) = db_tq_delete w (t_serial t) (env k2) in (True, k2\<lparr>env := if a then db_commit w e else e\<rparr>)))
       | _ \<Rightarrow> (False, k\<lparr>env := e1\<rparr>)))"

partial_function (option) TransactionQueue :: "'e world \<Rightarrow> 'e kiosk \<Rightarrow> 'e kiosk option" where
  "TransactionQueue w k = (let (goes, k') = queue_step w k in if goes then TransactionQueue w k' else Some k')"

section \<open>The table\<close>

text \<open>\<open>q e\<close>: the records of the table. A query may fail; it then ends the run.\<close>

definition rows_law :: "'e world \<Rightarrow> ('e \<Rightarrow> tq list) \<Rightarrow> bool" where
  "rows_law w q \<longleftrightarrow> (\<forall>e. (fst (db_tq_rows w e) = None \<or> fst (db_tq_rows w e) = Some (q e)) \<and> q (snd (db_tq_rows w e)) = q e)"

definition remove_law :: "'e world \<Rightarrow> ('e \<Rightarrow> tq list) \<Rightarrow> bool" where
  "remove_law w q \<longleftrightarrow> (\<forall>s e. q (snd (db_tq_delete w s e))
     = (if fst (db_tq_delete w s e) then filter (\<lambda>t. t_serial t \<noteq> s) (q e) else q e))"

definition try_law :: "'e world \<Rightarrow> ('e \<Rightarrow> tq list) \<Rightarrow> bool" where
  "try_law w q \<longleftrightarrow> (\<forall>s n e. q (snd (db_tq_try w s n e)) = (if fst (db_tq_try w s n e)
     then map (\<lambda>t. if t_serial t = s then t\<lparr>t_tries := n\<rparr> else t) (q e) else q e))"

definition table_laws :: "'e world \<Rightarrow> ('e \<Rightarrow> tq list) \<Rightarrow> bool" where
  "table_laws w q \<longleftrightarrow> rows_law w q \<and> remove_law w q \<and> try_law w q \<and> (\<forall>e. q (db_commit w e) = q e)"

text \<open>Nothing else touches it.\<close>

definition other_laws :: "'e world \<Rightarrow> ('e \<Rightarrow> tq list) \<Rightarrow> bool" where
  "other_laws w q \<longleftrightarrow> (\<forall>e. q (snd (idle w e)) = q e \<and> q (snd (net_socket w e)) = q e \<and> q (snd (net_connect w e)) = q e
       \<and> q (snd (net_recv w e)) = q e) \<and> (\<forall>d e. q (snd (net_send w d e)) = q e)
     \<and> (\<forall>d k. q (env (snd (unpack w d k))) = q (env k)) \<and> (\<forall>k. q (env (save w k)) = q (env k))"

definition queue_laws :: "'e world \<Rightarrow> ('e \<Rightarrow> tq list) \<Rightarrow> bool" where
  "queue_laws w q \<longleftrightarrow> table_laws w q \<and> other_laws w q"

lemma keepsD:
  assumes "other_laws w q"
  shows "idle w e = (a, e') \<Longrightarrow> q e' = q e" "net_socket w e = (a, e') \<Longrightarrow> q e' = q e" "net_connect w e = (a, e') \<Longrightarrow> q e' = q e"
    "net_send w d e = (n, e') \<Longrightarrow> q e' = q e" "net_recv w e = (x, e') \<Longrightarrow> q e' = q e"
    "unpack w d k = (n, k') \<Longrightarrow> q (env k') = q (env k)" "q (env (save w k)) = q (env k)"
  using assms by (auto simp: other_laws_def dest: spec) (metis snd_conv)+

lemma SendDataToService_keeps:
  assumes "other_laws w q"
  shows "q (snd (SendDataToService w d e)) = q e"
proof -
  obtain s e1 where 1: "net_socket w e = (s, e1)" by (metis surj_pair)
  obtain c e2 where 2: "net_connect w e1 = (c, e2)" by (metis surj_pair)
  obtain n e3 where 3: "net_send w d e2 = (n, e3)" by (metis surj_pair)
  obtain r x e4 where 4: "net_recv w e3 = ((r, x), e4)" by (metis surj_pair)
  show ?thesis using keepsD(2) [OF assms 1] keepsD(3) [OF assms 2] keepsD(4) [OF assms 3] keepsD(5) [OF assms 4] 1 2 3 4
    by (simp add: SendDataToService_def)
qed

lemma Transaction_keeps:
  assumes "other_laws w q"
  shows "q (env (snd (Transaction w d False k))) = q (env k)"
proof (cases "d = []")
  case False
  obtain n x e where s: "SendDataToService w d (env k) = ((n, x), e)" by (metis prod.exhaust)
  have e: "q e = q (env k)" using SendDataToService_keeps [OF assms, of d "env k"] s by simp
  let ?k1 = "k\<lparr>m_bSendTrans := True, env := e\<rparr>"
  obtain r k' where u: "unpack w x ?k1 = (r, k')" by (metis surj_pair)
  have k': "q (env k') = q (env k)" using keepsD(6) [OF assms u] e by simp
  show ?thesis
  proof (cases "n \<le> 0")
    case True
    then show ?thesis using False s e keepsD(7) [OF assms] by (simp add: Transaction_def Let_def)
  next
    case n: False
    then show ?thesis using False s u k' keepsD(7) [OF assms] by (simp add: Transaction_def Let_def)
  qed
qed (simp add: Transaction_def)

lemma insort_map: "(\<And>x. f (g x) = f x) \<Longrightarrow> insort_key f (g x) (map g xs) = map g (insort_key f x xs)"
  by (induction xs) simp_all

lemma order_map: "(\<And>t. t_serial (g t) = t_serial t) \<Longrightarrow> order_by_serial (map g ts) = map g (order_by_serial ts)"
  unfolding order_by_serial_def by (induction ts) (simp_all add: insort_map)

lemma order_filter: "order_by_serial (filter P ts) = filter P (order_by_serial ts)"
  by (simp add: order_by_serial_def filter_sort)

lemma order_same [simp]: "length (order_by_serial ts) = length ts" "set (order_by_serial ts) = set ts"
  "distinct (map t_serial (order_by_serial ts)) \<longleftrightarrow> distinct (map t_serial ts)"
proof -
  have m: "mset (order_by_serial ts) = mset ts" by (simp add: order_by_serial_def)
  then have "mset (map t_serial (order_by_serial ts)) = mset (map t_serial ts)" by simp
  then show "distinct (map t_serial (order_by_serial ts)) \<longleftrightarrow> distinct (map t_serial ts)" by (rule mset_eq_imp_distinct_iff)
  show "length (order_by_serial ts) = length ts" "set (order_by_serial ts) = set ts" by (simp_all add: order_by_serial_def)
qed

lemma order_Nil [simp]: "order_by_serial [] = []" by (simp add: order_by_serial_def)

lemma order_empty [simp]: "order_by_serial ts = [] \<longleftrightarrow> ts = []"
  using order_same(1) [of ts] by (metis length_0_conv)

text \<open>The table in the order of its serial numbers.\<close>

abbreviation in_order :: "('e \<Rightarrow> tq list) \<Rightarrow> 'e \<Rightarrow> tq list" where
  "in_order q e \<equiv> order_by_serial (q e)"

lemma tableD:
  assumes "table_laws w q"
  shows "db_tq_rows w e = (r, e') \<Longrightarrow> (r = None \<or> r = Some (q e)) \<and> q e' = q e"
    "db_tq_delete w s e = (a, e') \<Longrightarrow> in_order q e' = (if a then filter (\<lambda>t. t_serial t \<noteq> s) (in_order q e) else in_order q e)"
    "db_tq_try w s n e = (a, e') \<Longrightarrow> in_order q e' = (if a then map (\<lambda>t. if t_serial t = s then t\<lparr>t_tries := n\<rparr> else t) (in_order q e) else in_order q e)"
    "q (db_commit w e) = q e"
proof -
  have l: "rows_law w q" "remove_law w q" "try_law w q" "\<And>e. q (db_commit w e) = q e" using assms by (simp_all add: table_laws_def)
  show "(r = None \<or> r = Some (q e)) \<and> q e' = q e" if "db_tq_rows w e = (r, e')"
    using l(1) [unfolded rows_law_def, THEN spec, of e] that by simp
  show "in_order q e' = (if a then filter (\<lambda>t. t_serial t \<noteq> s) (in_order q e) else in_order q e)" if "db_tq_delete w s e = (a, e')"
    using l(2) [unfolded remove_law_def, THEN spec, THEN spec, of s e] that by (simp add: order_filter)
  show "in_order q e' = (if a then map (\<lambda>t. if t_serial t = s then t\<lparr>t_tries := n\<rparr> else t) (in_order q e) else in_order q e)"
    if "db_tq_try w s n e = (a, e')"
    using l(3) [unfolded try_law_def, THEN spec, THEN spec, THEN spec, of s n e] that by (simp add: order_map)
  show "q (db_commit w e) = q e" by (rule l(4))
qed






section \<open>A small queue\<close>

text \<open>The state is the table. The two arguments: whether the table removes, and whether the host answers.\<close>

definition queue_world :: "bool \<Rightarrow> bool \<Rightarrow> tq list world" where
  "queue_world removes answers = \<lparr>lock_open = \<lambda>c p e. (False, e), lock_status = \<lambda>c p e. (None, e), rnd = \<lambda>e. (0, e), now = \<lambda>e. [],
     idle = \<lambda>e. (True, e), stop_check = \<lambda>e. (True, e), db_select = \<lambda>c e. (None, e), db_insert_pkg = \<lambda>p e. (False, e),
     db_insert_history = \<lambda>t r e. (False, e), db_delete_mail = \<lambda>m e. (False, e), db_commit = \<lambda>e. e, db_rollback = \<lambda>e. e,
     db_autocommit = \<lambda>b e. e, db_postmen = \<lambda>e. (None, e), db_set_timeout = \<lambda>i t e. (False, e),
     db_tq_rows = \<lambda>e. (Some e, e), db_tq_insert = \<lambda>t e. (True, e @ [t]),
     db_tq_delete = \<lambda>s e. (removes, if removes then filter (\<lambda>t. t_serial t \<noteq> s) e else e),
     db_tq_try = \<lambda>s n e. (True, map (\<lambda>t. if t_serial t = s then t\<lparr>t_tries := n\<rparr> else t) e),
     net_socket = \<lambda>e. (True, e), net_connect = \<lambda>e. (answers, e), net_send = \<lambda>d e. (1, e), net_recv = \<lambda>e. ((1, [0]), e),
     pack_body = \<lambda>k. [], unpack = \<lambda>d k. (0, k), save = \<lambda>k. k\<rparr>"

lemma queue_world_laws: "queue_laws (queue_world removes answers) (\<lambda>e. e)"
  by (simp add: queue_laws_def table_laws_def other_laws_def rows_law_def remove_law_def try_law_def queue_world_def)

definition record_no :: "byte \<Rightarrow> tq" where
  "record_no s = \<lparr>t_box = [], t_bar = [], t_code = [], t_serial = [s], t_time = [], t_data = [s], t_max = 0, t_tries = 0\<rparr>"

definition queue_kiosk :: "tq list kiosk" where
  "queue_kiosk = \<lparr>env = [record_no 0x32, record_no 0x31], m_cbox = CBox, m_iWorkMode = 0, m_iLogicalCurrentBox = - 1, m_csCurrentBoxID = [],
     m_iCurrentOpenBox = - 1, m_vBoxDoorStatus = Map.empty, m_bSendBoxStatus = False, m_tranCode = [], m_iSerial = 1, m_pw = [],
     m_barCode = \<lambda>i. [], m_iBarCodeCount = 0, m_postmanID = [], m_PostLoginID = [], m_csExtraData = [], m_idcode = [], m_idname = [],
     m_iIsTakeoutDelaySend = 0, m_bSendTrans = False, m_bNetWorkFail = False, m_bReboot = False, m_csMobile = [], m_address = [],
     m_iDeadline = 1, m_iVerifyType = 1, m_iIsPostDelaySend = 0, m_iIsPostFailOpenDoor = 0, m_auHostKey = [], m_iLockerExist = 1,
     m_iLockerStatus = 0, m_iIsUpdateingStatusLocker = False, m_iIsUpdateingBoxStatus = False, m_bIsCheckingOpenDoor = False,
     screen = []\<rparr>"

section \<open>The properties\<close>



text \<open>C38: When the table refuses to remove records, the host answers every time, the queries do not fail and the program stays idle,
  \<open>TransactionQueue\<close> sends the first record for ever.\<close>

theorem TransactionQueue_endless:
  assumes "queue_laws w q" "\<And>s e. \<not> fst (db_tq_delete w s e)" "\<And>e. fst (idle w e)"
    and "\<And>d k'. fst (Transaction w d False k') \<notin> {- 1, - 2, - 3, - 4}" "q (env k) \<noteq> []"
    and "\<And>e. fst (db_tq_rows w e) \<noteq> None"
  shows "TransactionQueue w k = None"
proof (rule ccontr)
  assume "TransactionQueue w k \<noteq> None"
  then obtain y where y: "TransactionQueue w k = Some y" by blast
  have tl: "table_laws w q" and ol: "other_laws w q" using assms(1) by (simp_all add: queue_laws_def)
  have step: "\<exists>k1. queue_step w k0 = (True, k1) \<and> q (env k1) \<noteq> []" if k0: "q (env k0) \<noteq> []" for k0
  proof -
    obtain e0 where i: "idle w (env k0) = (True, e0)" using assms(3) by (metis (full_types) prod.collapse)
    obtain r e1 where f: "db_tq_rows w e0 = (r, e1)" by (metis surj_pair)
    have q1: "q e0 = q (env k0)" "q e1 = q (env k0)" "r = Some (q (env k0))"
      using tableD(1) [OF tl f] keepsD(1) [OF ol i] assms(6) [of e0] f by auto
    obtain t ts where q: "in_order q (env k0) = t # ts" using k0 by (cases "in_order q (env k0)") auto
    have r: "map_option order_by_serial r = Some (t # ts)" using q1 q by simp
    let ?k1 = "k0\<lparr>env := e1, m_barCode := (m_barCode k0)(0 := t_bar t), m_tranCode := t_code t\<rparr>"
    obtain c k2 where c: "Transaction w (t_data t) False ?k1 = (c, k2)" by (metis surj_pair)
    then have "c \<notin> {- 1, - 2, - 3, - 4}" using assms(4) by (metis fst_conv)
    moreover obtain e3 where d: "db_tq_delete w (t_serial t) (env k2) = (False, e3)" using assms(2) by (metis (full_types) prod.collapse)
    moreover have "in_order q e3 = t # ts" using tableD(2) [OF tl d] Transaction_keeps [OF ol, of "t_data t" ?k1] c q1 q by simp
    then have "q e3 \<noteq> []" by (metis order_empty list.distinct(1))
    ultimately show ?thesis using i f r c by (auto simp: queue_step_def)
  qed
  have "w = w \<longrightarrow> q (env k) \<noteq> [] \<longrightarrow> False"
  proof (rule TransactionQueue.raw_induct [where P = "\<lambda>w' k0 z. w' = w \<longrightarrow> q (env k0) \<noteq> [] \<longrightarrow> False", OF _ y])
    fix TQ w' k0 z
    assume IH: "\<And>w'' k1 z. TQ w'' k1 = Some z \<Longrightarrow> w'' = w \<longrightarrow> q (env k1) \<noteq> [] \<longrightarrow> False"
      and run: "(let (goes, k') = queue_step w' k0 in if goes then TQ w' k' else Some k') = Some z"
    show "w' = w \<longrightarrow> q (env k0) \<noteq> [] \<longrightarrow> False" using step [of k0] run IH by fastforce
  qed
  then show False using assms(5) by blast
qed

theorem TransactionQueue_endless_witness:
  "TransactionQueue (queue_world False True) queue_kiosk = None"
proof -
  let ?w = "queue_world False True"
  have "fst (Transaction ?w d False k') \<notin> {- 1, - 2, - 3, - 4}" for d k'
    by (simp add: Transaction_def SendDataToService_def queue_world_def)
  then show ?thesis by (intro TransactionQueue_endless [OF queue_world_laws]) (simp_all add: queue_world_def queue_kiosk_def)
qed

end
