(* ===== verification/ConnPool.thy ===== *)
theory ConnPool
  imports Prelude
begin

text \<open>
  The pool of database connections of \<open>src/CTSI/DB.cpp\<close> (\<open>getConnStat\<close>, with its clients) and of
  \<open>TissonCTSIDLG.cpp\<close> (\<open>SessionThread\<close>, which takes back what its thread has left, the watchdog
  \<open>chkAdoConn\<close>, and \<open>OnUpdatePar\<close>, which opens connections again), as steps between which another thread may
  run. A connection is free (0), in use (1) or broken (2). The scan for a connection holds the lock
  \<open>cs_g_connStat\<close>; the thread number and the time of the taking are written after the lock is released, and
  a connection is given back, freed or marked as broken without the lock. \<open>late\<close> holds the connections whose
  written time is more than an hour ago. The number of connections, which \<open>OnUpdatePar\<close> can change, is fixed.
\<close>

section \<open>Threads and steps\<close>

datatype phase = Idle | Scan nat | Found nat nat | Reconnect nat | Stamp nat | Use nat | Clean nat | Gone

record pool =
  stat :: "nat \<Rightarrow> nat"
  tid :: "nat \<Rightarrow> nat"
  late :: "nat set"
  lock :: "nat option"
  phase :: "nat \<Rightarrow> phase"

definition init_pool :: "(nat \<Rightarrow> bool) \<Rightarrow> (nat \<Rightarrow> nat) \<Rightarrow> nat set \<Rightarrow> pool" where
  "init_pool ok t0 l = \<lparr>stat = (\<lambda>i. if ok i then 0 else 2), tid = t0, late = l, lock = None, phase = (\<lambda>_. Idle)\<rparr>"

text \<open>The connection a thread is taking or holds.\<close>

definition holds :: "pool \<Rightarrow> nat \<Rightarrow> nat \<Rightarrow> bool" where
  "holds s t i \<longleftrightarrow> phase s t \<in> {Reconnect i, Stamp i, Use i}"

definition taking :: "pool \<Rightarrow> nat \<Rightarrow> nat \<Rightarrow> bool" where
  "taking s t i \<longleftrightarrow> phase s t \<in> {Reconnect i, Stamp i}"

text \<open>\<open>M\<close> is \<open>MAX_CONNECT_NUM\<close>. With \<open>quiet\<close> neither the clean-up of a session nor the watchdog meets a
  connection another thread is just taking (its thread number and time are those of its last use), no thread
  works with a connection for more than an hour, and an update of the parameters meets none that is taken or
  held. A step of an update that opens a connection again does not change its state.\<close>

inductive pstep :: "nat \<Rightarrow> bool \<Rightarrow> pool \<Rightarrow> pool \<Rightarrow> bool" for M :: nat and quiet :: bool where
  get_lock: "phase s t = Idle \<Longrightarrow> lock s = None \<Longrightarrow>
    pstep M quiet s (s\<lparr>lock := Some t, phase := (phase s)(t := Scan 0)\<rparr>)"
| scan_found: "phase s t = Scan i \<Longrightarrow> i < M \<Longrightarrow> stat s i = v \<Longrightarrow> v = 0 \<or> v = 2 \<Longrightarrow>
    pstep M quiet s (s\<lparr>phase := (phase s)(t := Found i v)\<rparr>)"
| take_free: "phase s t = Found i 0 \<Longrightarrow>
    pstep M quiet s (s\<lparr>stat := (stat s)(i := 1), lock := None, phase := (phase s)(t := Stamp i)\<rparr>)"
| take_broken: "phase s t = Found i 2 \<Longrightarrow>
    pstep M quiet s (s\<lparr>stat := (stat s)(i := 1), phase := (phase s)(t := Reconnect i)\<rparr>)"
| scan_busy: "phase s t = Scan i \<Longrightarrow> i < M \<Longrightarrow> stat s i = 1 \<Longrightarrow>
    pstep M quiet s (s\<lparr>phase := (phase s)(t := Scan (Suc i))\<rparr>)"
| connected: "phase s t = Reconnect i \<Longrightarrow>
    pstep M quiet s (s\<lparr>stat := (stat s)(i := 1), lock := None, phase := (phase s)(t := Stamp i)\<rparr>)"
| not_connected: "phase s t = Reconnect i \<Longrightarrow>
    pstep M quiet s (s\<lparr>stat := (stat s)(i := 2), phase := (phase s)(t := Scan (Suc i))\<rparr>)"
| scan_end: "phase s t = Scan M \<Longrightarrow>
    pstep M quiet s (s\<lparr>lock := None, phase := (phase s)(t := Idle)\<rparr>)"
| stamped: "phase s t = Stamp i \<Longrightarrow>
    pstep M quiet s (s\<lparr>tid := (tid s)(i := t), late := late s - {i}, phase := (phase s)(t := Use i)\<rparr>)"
| give_back: "phase s t = Use i \<Longrightarrow> v = 0 \<or> v = 2 \<Longrightarrow>
    pstep M quiet s (s\<lparr>stat := (stat s)(i := v), phase := (phase s)(t := Idle)\<rparr>)"
| leak: "phase s t = Use i \<Longrightarrow>
    pstep M quiet s (s\<lparr>phase := (phase s)(t := Idle)\<rparr>)"
| session_end: "phase s t = Idle \<or> phase s t = Use i \<Longrightarrow>
    pstep M quiet s (s\<lparr>phase := (phase s)(t := Clean 0)\<rparr>)"
| clean: "phase s t = Clean i \<Longrightarrow> i < M \<Longrightarrow> (quiet \<Longrightarrow> \<forall>u. \<not> taking s u i) \<Longrightarrow>
    pstep M quiet s (s\<lparr>stat := (if stat s i = 1 \<and> tid s i = t then (stat s)(i := 0) else stat s),
      phase := (phase s)(t := Clean (Suc i))\<rparr>)"
| clean_end: "phase s t = Clean M \<Longrightarrow>
    pstep M quiet s (s\<lparr>phase := (phase s)(t := Gone)\<rparr>)"
| time_passes: "(quiet \<Longrightarrow> \<forall>u. \<forall>i \<in> l. phase s u \<noteq> Use i) \<Longrightarrow> pstep M quiet s (s\<lparr>late := late s \<union> l\<rparr>)"
| watchdog: "i < M \<Longrightarrow> stat s i = 1 \<Longrightarrow> i \<in> late s \<Longrightarrow> v = 0 \<or> v = 2 \<Longrightarrow> (quiet \<Longrightarrow> \<forall>u. \<not> taking s u i) \<Longrightarrow>
    pstep M quiet s (s\<lparr>stat := (stat s)(i := v)\<rparr>)"
| update_par: "i < M \<Longrightarrow> (quiet \<Longrightarrow> \<forall>u. \<not> holds s u i) \<Longrightarrow> pstep M quiet s (s\<lparr>stat := (stat s)(i := 2)\<rparr>)"

inductive preach :: "nat \<Rightarrow> bool \<Rightarrow> pool \<Rightarrow> bool" for M quiet where
  preach_start: "preach M quiet (init_pool ok t0 l)"
| preach_step: "preach M quiet s \<Longrightarrow> pstep M quiet s s' \<Longrightarrow> preach M quiet s'"

section \<open>The invariant\<close>

definition scanning :: "phase \<Rightarrow> bool" where
  "scanning p \<longleftrightarrow> (case p of Scan i \<Rightarrow> True | Found i v \<Rightarrow> True | Reconnect i \<Rightarrow> True | _ \<Rightarrow> False)"

text \<open>Who scans has the lock.\<close>

definition lock_inv :: "pool \<Rightarrow> bool" where
  "lock_inv s \<longleftrightarrow> (\<forall>t. scanning (phase s t) \<longrightarrow> lock s = Some t)"

text \<open>Every connection that is held is marked as in use, by one thread, which has written its number when
  it works with it, not more than an hour ago; a connection found to be takeable stays so until it is taken.\<close>

definition pool_inv :: "pool \<Rightarrow> bool" where
  "pool_inv s \<longleftrightarrow>
     (\<forall>t i. holds s t i \<longrightarrow> stat s i = 1)
   \<and> (\<forall>t u i. holds s t i \<longrightarrow> holds s u i \<longrightarrow> t = u)
   \<and> (\<forall>t i. phase s t = Use i \<longrightarrow> tid s i = t \<and> i \<notin> late s)
   \<and> (\<forall>t i v. phase s t = Found i v \<longrightarrow> stat s i \<noteq> 1)"

lemmas pool_phase = holds_def taking_def scanning_def

lemma lock_owner: "lock_inv s \<Longrightarrow> scanning (phase s t) \<Longrightarrow> lock s = Some t"
  by (simp add: lock_inv_def)

lemma only_scanner: "lock_inv s \<Longrightarrow> scanning (phase s t) \<Longrightarrow> scanning (phase s u) \<Longrightarrow> u = t"
  using lock_owner [of s t] lock_owner [of s u] by simp

lemma lock_inv_step: "pstep M quiet s s' \<Longrightarrow> lock_inv s \<Longrightarrow> lock_inv s'"
proof (induction rule: pstep.induct)
  case (take_free s t i)
  then have "lock s = Some t" by (simp add: lock_owner scanning_def)
  with take_free show ?case by (auto simp: lock_inv_def scanning_def split: phase.splits)
next
  case (connected s t i)
  then have "lock s = Some t" by (simp add: lock_owner scanning_def)
  with connected show ?case by (auto simp: lock_inv_def scanning_def split: phase.splits)
next
  case (scan_end s t)
  then have "lock s = Some t" by (simp add: lock_owner scanning_def)
  with scan_end show ?case by (auto simp: lock_inv_def scanning_def split: phase.splits)
qed (auto simp: lock_inv_def scanning_def split: phase.splits)

lemma found_alone:
  assumes "lock_inv s" "phase s t = Found i v" "phase s u = Found j w"
  shows "u = t"
  using only_scanner [of s t u] assms by (simp add: scanning_def)

lemma pool_inv_step: "pstep M True s s' \<Longrightarrow> lock_inv s \<Longrightarrow> pool_inv s \<Longrightarrow> pool_inv s'"
proof (induction rule: pstep.induct)
  case (take_free s t i)
  then have "\<forall>u j v. phase s u = Found j v \<longrightarrow> u = t" by (blast dest: found_alone)
  moreover have "\<forall>u. \<not> holds s u i" using take_free unfolding pool_inv_def by blast
  ultimately show ?case using take_free by (auto simp: pool_inv_def pool_phase split: if_splits)
next
  case (take_broken s t i)
  then have "\<forall>u j v. phase s u = Found j v \<longrightarrow> u = t" by (blast dest: found_alone)
  moreover have "\<forall>u. \<not> holds s u i" using take_broken unfolding pool_inv_def by blast
  ultimately show ?case using take_broken by (auto simp: pool_inv_def pool_phase split: if_splits)
next
  case (connected s t i)
  have "phase s u \<noteq> Found j v" for u j v
    using only_scanner [of s t u] connected by (auto simp: scanning_def)
  with connected show ?case by (auto simp: pool_inv_def pool_phase split: if_splits)
next
  case (watchdog i s v)
  then have "\<forall>u. \<not> holds s u i" by (auto simp: pool_inv_def pool_phase)
  with watchdog show ?case by (auto simp: pool_inv_def pool_phase split: if_splits)
qed (auto simp: pool_inv_def pool_phase split: if_splits)

text \<open>A connection marked as in use that no thread holds was left by a thread whose clean-up is still to come to it.\<close>

definition due :: "pool \<Rightarrow> nat \<Rightarrow> bool" where
  "due s i \<longleftrightarrow> phase s (tid s i) \<noteq> Gone \<and> (\<forall>j. phase s (tid s i) = Clean j \<longrightarrow> j \<le> i)"

definition left_inv :: "nat \<Rightarrow> pool \<Rightarrow> bool" where
  "left_inv M s \<longleftrightarrow> (\<forall>i < M. stat s i = 1 \<longrightarrow> (\<forall>u. \<not> holds s u i) \<longrightarrow> due s i)"

lemma not_held:
  assumes "\<forall>u. \<not> holds s' u i" "\<not> holds s t i" "phase s' = (phase s)(t := p)"
  shows "\<forall>u. \<not> holds s u i"
proof
  fix u
  show "\<not> holds s u i" using assms(1) [rule_format, of u] assms(2,3) by (cases "u = t") (simp_all add: holds_def)
qed

lemma left_move:
  assumes "left_inv M s" "i < M" "stat s i = 1" "\<forall>u. \<not> holds s' u i" "\<not> holds s t i"
    "phase s' = (phase s)(t := p)" "tid s' i = tid s i" "tid s i = t \<Longrightarrow> p \<noteq> Gone \<and> (\<forall>j. p = Clean j \<longrightarrow> j \<le> i)"
  shows "due s' i"
proof -
  have "due s i" using not_held [OF assms(4,5,6)] assms(1-3) by (simp add: left_inv_def)
  then show ?thesis using assms(6-8) by (auto simp: due_def)
qed

lemma left_inv_step:
  assumes "pstep M True s s'" "pool_inv s" "left_inv M s"
  shows "left_inv M s'"
  unfolding left_inv_def
proof (intro allI impI)
  fix i assume i: "i < M" and st: "stat s' i = 1" and no: "\<forall>u. \<not> holds s' u i"
  note mv = left_move [OF assms(3) i _ no]
  show "due s' i"
    using assms(1)
  proof (cases rule: pstep.cases)
    case (leak t j)
    show ?thesis
    proof (cases "i = j")
      case True
      with leak assms(2) have "tid s i = t" by (simp add: pool_inv_def)
      with leak show ?thesis by (simp add: due_def)
    next
      case False
      with leak st show ?thesis by (intro mv [where t = t and p = Idle]) (simp_all add: holds_def)
    qed
  next
    case (session_end t j)
    show ?thesis
    proof (cases "holds s t i")
      case True
      with session_end have "phase s t = Use i" by (auto simp: holds_def)
      with assms(2) have "tid s i = t" by (simp add: pool_inv_def)
      with session_end show ?thesis by (simp add: due_def)
    next
      case False
      with session_end st show ?thesis by (intro mv [where t = t and p = "Clean 0"]) simp_all
    qed
  next
    case (clean t j)
    have st1: "stat s i = 1" using clean st by (auto split: if_splits)
    have "\<forall>u. \<not> holds s u i" using clean by (intro not_held [OF no, where t = t and p = "Clean (Suc j)"]) (simp_all add: holds_def)
    with st1 i assms(3) have d: "due s i" by (simp add: left_inv_def)
    have "i \<noteq> j \<or> tid s i \<noteq> t" using clean st by (auto split: if_splits)
    with d clean show ?thesis by (cases "i = j") (auto simp: due_def)
  next
    case (clean_end t)
    have "\<forall>u. \<not> holds s u i" using clean_end by (intro not_held [OF no, where t = t and p = Gone]) (simp_all add: holds_def)
    with st clean_end i assms(3) have "due s i" by (simp add: left_inv_def)
    with clean_end i show ?thesis by (auto simp: due_def)
  next
    case (time_passes l)
    then have "\<forall>u. \<not> holds s u i" using no by (simp add: holds_def)
    with time_passes st i assms(3) show ?thesis by (simp add: left_inv_def due_def)
  next
    case (watchdog j v)
    then have "\<forall>u. \<not> holds s u i" "i \<noteq> j" using no st by (auto simp: holds_def)
    with watchdog st i assms(3) show ?thesis by (simp add: left_inv_def due_def)
  next
    case (update_par j)
    then have "\<forall>u. \<not> holds s u i" "i \<noteq> j" using no st by (auto simp: holds_def)
    with update_par st i assms(3) show ?thesis by (simp add: left_inv_def due_def)
  next
    case (get_lock t)
    with st show ?thesis by (intro mv [where t = t and p = "Scan 0"]) (simp_all add: holds_def)
  next
    case (scan_found t j v)
    with st show ?thesis by (intro mv [where t = t and p = "Found j v"]) (simp_all add: holds_def)
  next
    case (take_free t j)
    with no [rule_format, of t] have "i \<noteq> j" by (auto simp: holds_def)
    with take_free st show ?thesis by (intro mv [where t = t and p = "Stamp j"]) (simp_all add: holds_def)
  next
    case (take_broken t j)
    with no [rule_format, of t] have "i \<noteq> j" by (auto simp: holds_def)
    with take_broken st show ?thesis by (intro mv [where t = t and p = "Reconnect j"]) (simp_all add: holds_def)
  next
    case (scan_busy t j)
    with st show ?thesis by (intro mv [where t = t and p = "Scan (Suc j)"]) (simp_all add: holds_def)
  next
    case (connected t j)
    with no [rule_format, of t] have "i \<noteq> j" by (auto simp: holds_def)
    with connected st show ?thesis by (intro mv [where t = t and p = "Stamp j"]) (simp_all add: holds_def)
  next
    case (not_connected t j)
    with st have "i \<noteq> j" by auto
    with not_connected st show ?thesis by (intro mv [where t = t and p = "Scan (Suc j)"]) (simp_all add: holds_def)
  next
    case (scan_end t)
    with st show ?thesis by (intro mv [where t = t and p = Idle]) (simp_all add: holds_def)
  next
    case (stamped t j)
    with no [rule_format, of t] have "i \<noteq> j" by (auto simp: holds_def)
    with stamped st show ?thesis by (intro mv [where t = t and p = "Use j"]) (simp_all add: holds_def)
  next
    case (give_back t j v)
    with st have "i \<noteq> j" by auto
    with give_back st show ?thesis by (intro mv [where t = t and p = Idle]) (simp_all add: holds_def)
  qed
qed

lemma preach_inv: "preach M True s \<Longrightarrow> pool_inv s \<and> lock_inv s \<and> left_inv M s"
proof (induction rule: preach.induct)
  case (preach_start ok t0 l)
  then show ?case by (simp add: pool_inv_def lock_inv_def left_inv_def init_pool_def pool_phase)
next
  case (preach_step s s')
  then show ?case using pool_inv_step lock_inv_step left_inv_step by blast
qed

section \<open>The properties\<close>

text \<open>C5: whatever the order of the steps, if no thread works with a connection for more than an hour, if neither the clean-up of a session nor the watchdog meets a connection another thread is just taking, and if an update of the parameters meets none that is taken or held, then a connection is never given to two threads, a held connection is marked as in use, and one that a thread has left behind without giving it back belongs to a thread whose session has not ended: its clean-up will still come to it.\<close>

theorem one_user:
  assumes "preach M True s"
  shows "(holds s t i \<and> holds s u i \<longrightarrow> t = u) \<and> (holds s t i \<longrightarrow> stat s i = 1)
    \<and> (i < M \<and> stat s i = 1 \<and> (\<forall>v. \<not> holds s v i) \<longrightarrow> phase s (tid s i) \<noteq> Gone)"
proof -
  from preach_inv [OF assms] have p: "pool_inv s" and l: "left_inv M s" by auto
  have "due s i" if "i < M" "stat s i = 1" "\<forall>v. \<not> holds s v i" using l that by (simp add: left_inv_def)
  then show ?thesis using p by (auto simp: pool_inv_def due_def)
qed

text \<open>States of runs on one connection with the threads 0, 1 and 2.\<close>

definition run :: "nat \<Rightarrow> nat \<Rightarrow> nat option \<Rightarrow> phase \<Rightarrow> phase \<Rightarrow> phase \<Rightarrow> pool" where
  "run v t k p0 p1 p2 = \<lparr>stat = (\<lambda>_. 0)(0 := v), tid = (\<lambda>_. 9)(0 := t), late = {}, lock = k,
     phase = (\<lambda>_. Idle)(0 := p0, 1 := p1, 2 := p2)\<rparr>"

lemma run_simps [simp]: "stat (run v t k p0 p1 p2) 0 = v" "tid (run v t k p0 p1 p2) 0 = t" "lock (run v t k p0 p1 p2) = k"
  "late (run v t k p0 p1 p2) = {}"
  "phase (run v t k p0 p1 p2) 0 = p0" "phase (run v t k p0 p1 p2) (Suc 0) = p1" "phase (run v t k p0 p1 p2) 2 = p2"
  by (simp_all add: run_def)

lemma run_go: "preach M q s \<Longrightarrow> pstep M q s s' \<Longrightarrow> s' = r \<Longrightarrow> preach M q r"
  by (auto intro: preach_step)

lemma run_start: "preach 1 q (run 0 9 None Idle Idle Idle)"
proof -
  have "init_pool (\<lambda>_. True) (\<lambda>_. 9) {} = run 0 9 None Idle Idle Idle"
    by (simp add: init_pool_def run_def fun_upd_idem)
  then show ?thesis using preach_start [of 1 q "\<lambda>_. True" "\<lambda>_. 9" "{}"] by simp
qed

lemma run_taken: "preach 1 q (run 1 9 None (Stamp 0) Idle Idle)"
proof -
  have "preach 1 q (run 0 9 (Some 0) (Scan 0) Idle Idle)"
    by (rule run_go [OF run_start]) (rule get_lock [of _ 0], auto simp: run_def fun_eq_iff)
  then have "preach 1 q (run 0 9 (Some 0) (Found 0 0) Idle Idle)"
    by (rule run_go) (rule scan_found [of _ 0 0 1 0], auto simp: run_def fun_eq_iff)
  then show ?thesis
    by (rule run_go) (rule take_free [of _ 0 0], auto simp: run_def fun_eq_iff)
qed

theorem one_user_witness:
  "\<exists>s. preach 1 True s \<and> phase s 0 = Use 0 \<and> stat s 0 = 1 \<and> (\<forall>u. holds s u 0 \<longrightarrow> u = 0)"
proof -
  let ?s = "run 1 0 None (Use 0) Idle Idle"
  have r: "preach 1 True ?s"
    by (rule run_go [OF run_taken]) (rule stamped [of _ 0 0], auto simp: run_def fun_eq_iff)
  have h: "holds ?s 0 0" by (simp add: holds_def)
  from one_user [OF r] h have "stat ?s 0 = 1" "\<forall>u. holds ?s u 0 \<longrightarrow> u = 0" by blast+
  with r show ?thesis by (intro exI [of _ ?s]) simp
qed

text \<open>C20: without those conditions the pool is not safe: a session that ends while another thread has taken a connection the first one used before, but has not yet written its number, frees that connection, and a third thread then works with it at the same time.\<close>

theorem two_users: "\<exists>s. preach 1 False s \<and> phase s 1 = Use 0 \<and> phase s 2 = Use 0"
proof -
  have "preach 1 False (run 1 0 None (Use 0) Idle Idle)"
    by (rule run_go [OF run_taken]) (rule stamped [of _ 0 0], auto simp: run_def fun_eq_iff)
  then have "preach 1 False (run 0 0 None Idle Idle Idle)"
    by (rule run_go) (rule give_back [of _ 0 0 0], auto simp: run_def fun_eq_iff)
  then have "preach 1 False (run 0 0 (Some 1) Idle (Scan 0) Idle)"
    by (rule run_go) (rule get_lock [of _ 1], auto simp: run_def fun_eq_iff)
  then have "preach 1 False (run 0 0 (Some 1) Idle (Found 0 0) Idle)"
    by (rule run_go) (rule scan_found [of _ 1 0 1 0], auto simp: run_def fun_eq_iff)
  then have "preach 1 False (run 1 0 None Idle (Stamp 0) Idle)"
    by (rule run_go) (rule take_free [of _ 1 0], auto simp: run_def fun_eq_iff)
  then have "preach 1 False (run 1 0 None (Clean 0) (Stamp 0) Idle)"
    by (rule run_go) (rule session_end [of _ 0 0], auto simp: run_def fun_eq_iff)
  then have "preach 1 False (run 0 0 None (Clean 1) (Stamp 0) Idle)"
    by (rule run_go) (rule clean [of _ 0 0], auto simp: run_def fun_eq_iff)
  then have "preach 1 False (run 0 0 (Some 2) (Clean 1) (Stamp 0) (Scan 0))"
    by (rule run_go) (rule get_lock [of _ 2], auto simp: run_def fun_eq_iff)
  then have "preach 1 False (run 0 0 (Some 2) (Clean 1) (Stamp 0) (Found 0 0))"
    by (rule run_go) (rule scan_found [of _ 2 0 1 0], auto simp: run_def fun_eq_iff)
  then have "preach 1 False (run 1 0 None (Clean 1) (Stamp 0) (Stamp 0))"
    by (rule run_go) (rule take_free [of _ 2 0], auto simp: run_def fun_eq_iff)
  then have "preach 1 False (run 1 1 None (Clean 1) (Use 0) (Stamp 0))"
    by (rule run_go) (rule stamped [of _ 1 0], auto simp: run_def fun_eq_iff)
  then have "preach 1 False (run 1 2 None (Clean 1) (Use 0) (Use 0))"
    by (rule run_go) (rule stamped [of _ 2 0], auto simp: run_def fun_eq_iff)
  then show ?thesis by (intro exI [of _ "run 1 2 None (Clean 1) (Use 0) (Use 0)"]) simp
qed

end
