(* ===== verification/Db.thy ===== *)
theory Db
  imports Pack
begin

text \<open>
  The database layer of \<open>src/CTSI\<close>: taking a connection from the pool (\<open>getConnStat\<close> of \<open>DB.cpp\<close>, seen by
  one thread), the two ways of using it (\<open>GetRecordSet\<close> and \<open>ExecuteSQL\<close> of \<open>ADOConn.cpp\<close>), and the
  operations on the tables of terminals and transactions. A statement is its text. The database, and what
  other threads do while this one sleeps, are the record \<open>odb\<close> of functions on a state \<open>'e\<close> of theirs. A
  row maps the names of its columns to their texts, NULL to \<open>None\<close>.
\<close>

section \<open>Connections\<close>

type_synonym row = "string \<Rightarrow> bytes option"

text \<open>\<open>get_rs\<close> answers \<open>None\<close> and \<open>exec_sql\<close> answers \<open>True\<close> when the server reports an error; \<open>reconnect\<close>
  answers \<open>True\<close> when the connection is open again.\<close>

record 'e odb =
  reconnect :: "nat \<Rightarrow> 'e \<Rightarrow> bool \<times> 'e"
  get_rs :: "nat \<Rightarrow> bytes \<Rightarrow> 'e \<Rightarrow> row list option \<times> 'e"
  exec_sql :: "nat \<Rightarrow> bytes \<Rightarrow> 'e \<Rightarrow> bool \<times> 'e"
  while_asleep :: "nat list \<Rightarrow> 'e \<Rightarrow> nat list \<times> 'e"

text \<open>\<open>connStat\<close> of every connection: 0 free, 1 in use, 2 broken.\<close>

record 'e db =
  conns :: "nat list"
  outside :: 'e

fun scan_conns :: "'e odb \<Rightarrow> nat \<Rightarrow> nat list \<Rightarrow> 'e \<Rightarrow> nat option \<times> nat list \<times> 'e" where
  "scan_conns w i [] e = (None, [], e)"
| "scan_conns w i (c # cs) e =
     (if c = 0 then (Some i, 1 # cs, e)
      else if c = 2 then (case reconnect w i e of (ok, e1) \<Rightarrow>
        if ok then (Some i, 1 # cs, e1)
        else (case scan_conns w (Suc i) cs e1 of (r, cs', e2) \<Rightarrow> (r, 2 # cs', e2)))
      else (case scan_conns w (Suc i) cs e of (r, cs', e1) \<Rightarrow> (r, c # cs', e1)))"

fun try_conns :: "'e odb \<Rightarrow> nat \<Rightarrow> 'e db \<Rightarrow> nat option \<times> 'e db" where
  "try_conns w 0 d = (None, d)"
| "try_conns w (Suc j) d = (case scan_conns w 0 (conns d) (outside d) of
     (Some i, cs, e) \<Rightarrow> (Some i, d\<lparr>conns := cs, outside := e\<rparr>)
   | (None, cs, e) \<Rightarrow> (case while_asleep w cs e of (cs', e') \<Rightarrow> try_conns w j (d\<lparr>conns := cs', outside := e'\<rparr>)))"

definition getConnStat :: "'e odb \<Rightarrow> 'e db \<Rightarrow> nat option \<times> 'e db" where
  "getConnStat w = try_conns w 5"

definition set_conn :: "nat \<Rightarrow> nat \<Rightarrow> 'e db \<Rightarrow> 'e db" where
  "set_conn i v d = d\<lparr>conns := (conns d)[i := v]\<rparr>"

text \<open>The two uses of a connection. \<open>Exc\<close> is an exception (a NULL column that is read as text) or a text
  longer than the buffer it is copied into; the connection then stays marked as in use.\<close>

datatype 'a outcome = Exc | Code int | Done 'a

definition run_rs :: "'e odb \<Rightarrow> nat \<Rightarrow> bytes \<Rightarrow> 'e db \<Rightarrow> row list option \<times> 'e db" where
  "run_rs w i sql d = (case get_rs w i sql (outside d) of (r, e) \<Rightarrow> (r, d\<lparr>outside := e\<rparr>))"

definition run_sql :: "'e odb \<Rightarrow> nat \<Rightarrow> bytes \<Rightarrow> 'e db \<Rightarrow> bool \<times> 'e db" where
  "run_sql w i sql d = (case exec_sql w i sql (outside d) of (r, e) \<Rightarrow> (r, d\<lparr>outside := e\<rparr>))"

text \<open>A query: the codes for no connection and for an error, what is written to \<open>connStat\<close> after an error,
  and the reading of the rows; a reading that returns gives the connection back. Mostly an error marks the
  connection as broken and an answer without rows is a code of its own.\<close>

definition select_gen :: "'e odb \<Rightarrow> int \<Rightarrow> int \<Rightarrow> nat \<Rightarrow> bytes \<Rightarrow> (row list \<Rightarrow> 'a outcome) \<Rightarrow> 'e db \<Rightarrow> 'a outcome \<times> 'e db" where
  "select_gen w no_conn failed bad sql rd d = (case getConnStat w d of
     (None, d1) \<Rightarrow> (Code no_conn, d1)
   | (Some i, d1) \<Rightarrow> (case run_rs w i sql d1 of
       (None, d2) \<Rightarrow> (Code failed, set_conn i bad d2)
     | (Some rs, d2) \<Rightarrow> (case rd rs of Exc \<Rightarrow> (Exc, d2) | x \<Rightarrow> (x, set_conn i 0 d2))))"

definition or_none :: "int \<Rightarrow> (row list \<Rightarrow> 'a outcome) \<Rightarrow> row list \<Rightarrow> 'a outcome" where
  "or_none no_row rd rs = (if rs = [] then Code no_row else rd rs)"

definition select_op :: "'e odb \<Rightarrow> int \<Rightarrow> int \<Rightarrow> int \<Rightarrow> bytes \<Rightarrow> (row list \<Rightarrow> 'a outcome) \<Rightarrow> 'e db \<Rightarrow> 'a outcome \<times> 'e db" where
  "select_op w no_conn failed no_row sql rd = select_gen w no_conn failed 2 sql (or_none no_row rd)"

text \<open>A change.\<close>

definition update_op :: "'e odb \<Rightarrow> int \<Rightarrow> bytes \<Rightarrow> 'e db \<Rightarrow> unit outcome \<times> 'e db" where
  "update_op w failed sql d = (case getConnStat w d of
     (None, d1) \<Rightarrow> (Code (-1), d1)
   | (Some i, d1) \<Rightarrow> (case run_sql w i sql d1 of
       (True, d2) \<Rightarrow> (Code failed, set_conn i 2 d2)
     | (False, d2) \<Rightarrow> (Done (), set_conn i 0 d2)))"

text \<open>\<open>sprintf\<close> into a buffer of \<open>n\<close> characters before any connection is taken.\<close>

definition in_buf :: "nat \<Rightarrow> bytes \<Rightarrow> ('e db \<Rightarrow> 'a outcome \<times> 'e db) \<Rightarrow> 'e db \<Rightarrow> 'a outcome \<times> 'e db" where
  "in_buf n sql f d = (if length sql < n then f d else (Exc, d))"

text \<open>The text written after the connection is taken: one that is too long for the buffer leaves the connection
  marked as in use.\<close>

definition update_buf :: "'e odb \<Rightarrow> int \<Rightarrow> nat \<Rightarrow> bytes \<Rightarrow> 'e db \<Rightarrow> unit outcome \<times> 'e db" where
  "update_buf w failed n sql d = (case getConnStat w d of
     (None, d1) \<Rightarrow> (Code (-1), d1)
   | (Some i, d1) \<Rightarrow> if length sql \<ge> n then (Exc, d1) else (case run_sql w i sql d1 of
       (True, d2) \<Rightarrow> (Code failed, set_conn i 2 d2)
     | (False, d2) \<Rightarrow> (Done (), set_conn i 0 d2)))"

definition select_buf :: "'e odb \<Rightarrow> int \<Rightarrow> int \<Rightarrow> int \<Rightarrow> nat \<Rightarrow> bytes \<Rightarrow> (row list \<Rightarrow> 'a outcome) \<Rightarrow> 'e db \<Rightarrow> 'a outcome \<times> 'e db" where
  "select_buf w no_conn failed no_row n sql rd d = (case getConnStat w d of
     (None, d1) \<Rightarrow> (Code no_conn, d1)
   | (Some i, d1) \<Rightarrow> if length sql \<ge> n then (Exc, d1) else (case run_rs w i sql d1 of
       (None, d2) \<Rightarrow> (Code failed, set_conn i 2 d2)
     | (Some rs, d2) \<Rightarrow> (case or_none no_row rd rs of Exc \<Rightarrow> (Exc, d2) | x \<Rightarrow> (x, set_conn i 0 d2))))"

section \<open>Texts and columns\<close>

definition asc :: "string \<Rightarrow> bytes" where "asc s = map of_char s"

text \<open>\<open>'%s'\<close> and \<open>%d\<close>.\<close>

definition sq :: "bytes \<Rightarrow> bytes" where "sq b = 0x27 # cstr b @ [0x27]"

definition int_txt :: "int \<Rightarrow> bytes" where
  "int_txt n = (if n < 0 then 0x2D # dec_digits (nat (- n)) else dec_digits (nat n))"

fun commas :: "bytes list \<Rightarrow> bytes" where
  "commas [] = []"
| "commas [x] = x"
| "commas (x # y # r) = x @ 0x2C # commas (y # r)"

text \<open>A column copied into a buffer of \<open>n\<close> characters, the empty text for NULL, and a number.\<close>

definition str_col :: "string \<Rightarrow> nat \<Rightarrow> row \<Rightarrow> bytes option" where
  "str_col c n r = (case r c of None \<Rightarrow> None | Some b \<Rightarrow> if length b < n then Some b else None)"

definition opt_col :: "string \<Rightarrow> nat \<Rightarrow> bytes \<Rightarrow> row \<Rightarrow> bytes option" where
  "opt_col c n v r = (case r c of None \<Rightarrow> Some v | Some b \<Rightarrow> if length b < n then Some b else None)"

definition int_col :: "string \<Rightarrow> row \<Rightarrow> int option" where
  "int_col c r = map_option (\<lambda>b. sint (atoi32 b)) (r c)"

definition outcome_of :: "'a option \<Rightarrow> 'a outcome" where
  "outcome_of x = (case x of None \<Rightarrow> Exc | Some y \<Rightarrow> Done y)"

definition first_row :: "(row \<Rightarrow> 'a option) \<Rightarrow> row list \<Rightarrow> 'a outcome" where
  "first_row f rs = outcome_of (f (hd rs))"

section \<open>Operations\<close>

definition getDBtime :: "'e odb \<Rightarrow> 'e db \<Rightarrow> bytes outcome \<times> 'e db" where
  "getDBtime w = select_op w (-1) (-2) (-3) (asc ''select to_char(sysdate,'yyyymmddhh24miss') aaa from dual'')
     (first_row (\<lambda>r. r ''aaa''))"

text \<open>The total of the day; a NULL column leaves the number of the caller, \<open>n0\<close>, as it was.\<close>

definition getDayAmo :: "'e odb \<Rightarrow> bytes \<Rightarrow> int \<Rightarrow> 'e db \<Rightarrow> int outcome \<times> 'e db" where
  "getDayAmo w term_id n0 = (let sql = asc ''select sum_dayamo from epos_term where term_id='' @ sq term_id in
     select_buf w (-1) (-2) (-3) 1024 sql
       (first_row (\<lambda>r. Some (case r ''sum_dayamo'' of None \<Rightarrow> n0 | Some b \<Rightarrow> sint (atoi32 b)))))"

definition setSumDayAmo :: "'e odb \<Rightarrow> int \<Rightarrow> bytes \<Rightarrow> 'e db \<Rightarrow> unit outcome \<times> 'e db" where
  "setSumDayAmo w amo term_id = (let sql = asc ''UPDATE epos_term SET sum_dayamo=sum_dayamo+'' @ int_txt amo
       @ asc '' WHERE Term_id='' @ sq term_id in
     in_buf 512 sql (update_op w (-4) sql))"

definition setEposLogonStatus :: "'e odb \<Rightarrow> int \<Rightarrow> bytes \<Rightarrow> 'e db \<Rightarrow> unit outcome \<times> 'e db" where
  "setEposLogonStatus w status term_id = (let sql = asc ''UPDATE epos_term SET status='' @ sq (int_txt status)
       @ asc '' WHERE Term_id='' @ sq term_id in
     in_buf 512 sql (update_op w (-4) sql))"

definition setYCTPinErr :: "'e odb \<Rightarrow> bytes \<Rightarrow> 'e db \<Rightarrow> unit outcome \<times> 'e db" where
  "setYCTPinErr w eposid =
     (let sql = asc ''UPDATE yct_isam SET status = 1, err_times = err_times+1 WHERE Term_id='' @ sq eposid in
      in_buf 512 sql (update_op w (-4) sql))"

text \<open>The PIN of a terminal. When it is blocked the routine returns without giving the connection back;
  a NULL status is an uninitialised variable, \<open>s0\<close>.\<close>

definition getYctPIN2 :: "'e odb \<Rightarrow> int \<Rightarrow> bytes \<Rightarrow> 'e db \<Rightarrow> bytes outcome \<times> 'e db" where
  "getYctPIN2 w s0 eposid d = (let sql = asc ''select * from yct_isam where term_id = '' @ sq eposid in
     (case getConnStat w d of
       (None, d1) \<Rightarrow> (Code (-1), d1)
     | (Some i, d1) \<Rightarrow> if length sql \<ge> 500 then (Exc, d1) else (case run_rs w i sql d1 of
         (None, d2) \<Rightarrow> (Code 4, set_conn i 2 d2)
       | (Some [], d2) \<Rightarrow> (Code 4, set_conn i 0 d2)
       | (Some (r # _), d2) \<Rightarrow>
           (let status = (case r ''status'' of None \<Rightarrow> s0 | Some b \<Rightarrow> sint (atoi32 b)) in
            if status \<noteq> 0 then (Code 1, d2)
            else (Done (case r ''isam_pwd'' of None \<Rightarrow> [] | Some b \<Rightarrow> b), set_conn i 0 d2)))))"

text \<open>Whether a work number belongs to the terminal: \<open>workID\<close> is compared with each of them and with the
  first unused entry, over 8 characters. More than 1023 rows overrun the array.\<close>

definition checkworkID :: "'e odb \<Rightarrow> bytes \<Rightarrow> bytes \<Rightarrow> 'e db \<Rightarrow> unit outcome \<times> 'e db" where
  "checkworkID w pos workID d = (let sql = asc ''select * from epos_term_workid where term_id='' @ sq pos in
     select_buf w (-1) (-2) (-3) 512 sql (\<lambda>rs. case those (map (str_col ''workid'' 9) rs) of
       None \<Rightarrow> Exc
     | Some ws \<Rightarrow> if length ws > 1023 then Exc
         else if \<exists>x \<in> set (ws @ [[]]). take 8 (x @ replicate 8 0) = take 8 workID then Done () else Code (-1)) d)"

section \<open>Transactions of the smart card business\<close>

definition setYctStat :: "'e odb \<Rightarrow> int \<Rightarrow> bytes \<Rightarrow> 'e db \<Rightarrow> unit outcome \<times> 'e db" where
  "setYctStat w st seq = (let sql = asc ''UPDATE YCT_txn SET status='' @ int_txt st @ asc '' WHERE YCT_seq='' @ sq seq in
     update_buf w (-1) 512 sql)"

definition updateLastSigninStatus :: "'e odb \<Rightarrow> bytes \<Rightarrow> 'e db \<Rightarrow> unit outcome \<times> 'e db" where
  "updateLastSigninStatus w term_id = (let sql = asc ''update dgt_sign_log set sign_status='0' where log_seq =(select max(log_seq)  from dgt_sign_log   where term_id=''
       @ sq term_id @ asc '')'' in
     update_buf w (-1) 512 sql)"

definition updateYct :: "'e odb \<Rightarrow> bytes \<Rightarrow> bytes \<Rightarrow> bytes \<Rightarrow> bytes \<Rightarrow> 'e db \<Rightarrow> unit outcome \<times> 'e db" where
  "updateYct w PKLogCard process YCTLogCard seq = (let sql = asc ''UPDATE YCT_txn SET pk_card='' @ sq PKLogCard
       @ asc '', process='' @ sq process @ asc '', yct_card='' @ sq YCTLogCard @ asc '' WHERE YCT_seq='' @ sq seq in
     update_buf w (-1) 512 sql)"

definition getYctStat :: "'e odb \<Rightarrow> bytes \<Rightarrow> 'e db \<Rightarrow> (bytes \<times> bytes \<times> bytes) outcome \<times> 'e db" where
  "getYctStat w pos = (let sql = asc ''select * from YCT_txn where pos_no='' @ sq pos @ asc '' and status=4 '' in
     in_buf 512 sql (select_op w (-1) (-2) 1 sql
       (first_row (\<lambda>r. do { p \<leftarrow> r ''process''; q \<leftarrow> r ''yct_seq''; s \<leftarrow> r ''stan''; Some (p, q, s) }))))"

text \<open>The data of a transaction to reverse: sequence, terminal, serial, smart card, card, amount.\<close>

definition getYctRev :: "'e odb \<Rightarrow> 'e db \<Rightarrow> (bytes \<times> bytes \<times> bytes \<times> bytes \<times> bytes \<times> bytes) outcome \<times> 'e db" where
  "getYctRev w = select_op w (-1) (-2) (-3) (asc ''select * from YCT_txn where status = 3 order by stan'')
     (first_row (\<lambda>r. do { q \<leftarrow> r ''yct_seq''; p \<leftarrow> r ''pos_no''; s \<leftarrow> r ''pos_serial''; y \<leftarrow> r ''YCT_card'';
       c \<leftarrow> r ''card_no''; a \<leftarrow> r ''amount''; Some (q, p, s, y, c, a) }))"

definition setYctAck :: "'e odb \<Rightarrow> bytes \<Rightarrow> bytes \<Rightarrow> bytes \<Rightarrow> 'e db \<Rightarrow> unit outcome \<times> 'e db" where
  "setYctAck w seq st hexAmo = (let sql = asc ''insert into YCT_Ack(yct_seq, status, hex_amount) values(''
       @ sq seq @ asc '', '' @ sq st @ asc '', '' @ sq hexAmo @ asc '')'' in
     in_buf 100 sql (update_op w (-1) sql))"

definition updateYctAck :: "'e odb \<Rightarrow> bytes \<Rightarrow> bytes \<Rightarrow> 'e db \<Rightarrow> unit outcome \<times> 'e db" where
  "updateYctAck w seq st = (let sql = asc ''update YCT_Ack set status='' @ sq st @ asc '' where yct_seq='' @ sq seq in
     in_buf 200 sql (update_op w (-1) sql))"

text \<open>The data of a transaction to confirm: one query for the transaction and, on the same connection, one
  for the confirmation; where there is none the transaction is marked as done.\<close>

definition ack_cols :: "row \<Rightarrow> bytes list option" where
  "ack_cols r = those (map r [''yct_seq'', ''pos_no'', ''pos_serial'', ''YCT_card'', ''amount''])"

definition ack_rest :: "'e odb \<Rightarrow> nat \<Rightarrow> bytes list \<Rightarrow> 'e db \<Rightarrow> bytes list outcome \<times> 'e db" where
  "ack_rest w i cols d = (let sql = asc ''select * from YCT_Ack where yct_seq = '' @ sq (hd cols) in
     if length sql \<ge> 50 then (Exc, d) else
     (case run_rs w i sql d of
       (None, d1) \<Rightarrow> (Code (-2), set_conn i 2 d1)
     | (Some [], d1) \<Rightarrow> (case setYctStat w 0 (hd cols) (set_conn i 0 d1) of
         (Exc, d2) \<Rightarrow> (Exc, d2) | (_, d2) \<Rightarrow> (Code (-3), d2))
     | (Some (r # _), d1) \<Rightarrow> (case those (map r [''status'', ''hex_amount'']) of
         None \<Rightarrow> (Exc, d1) | Some c2 \<Rightarrow> (Done (cols @ c2), set_conn i 0 d1))))"

definition getYctAck :: "'e odb \<Rightarrow> bytes \<Rightarrow> 'e db \<Rightarrow> bytes list outcome \<times> 'e db" where
  "getYctAck w stan d = (case getConnStat w d of
     (None, d1) \<Rightarrow> (Code (-1), d1)
   | (Some i, d1) \<Rightarrow> (let sql = asc ''select * from YCT_txn where status = 1 and stan='' @ sq stan in
       if length sql \<ge> 50 then (Exc, d1) else
       (case run_rs w i sql d1 of
         (None, d2) \<Rightarrow> (Code (-2), set_conn i 2 d2)
       | (Some [], d2) \<Rightarrow> (Code (-3), set_conn i 0 d2)
       | (Some (r # _), d2) \<Rightarrow> (case ack_cols r of None \<Rightarrow> (Exc, d2) | Some cols \<Rightarrow> ack_rest w i cols d2))))"

section \<open>The record of a transaction\<close>

text \<open>What else the trades use of \<open>CGlobal\<close>; \<open>prmVer\<close>, \<open>inType\<close> and the terminal's own number come from
  the terminal library.\<close>

record tgbl = gbl +
  order_no :: bytes
  call_tel :: bytes
  order_time :: bytes
  dayAmo :: int
  timeout :: int
  mycoolpayeasy_return :: int
  prmVer :: bytes
  inType :: byte
  dll_pos_no :: bytes
  get_card :: int

text \<open>The statements of \<open>setEposTxn\<close> and the columns it sets: a query (1), a payment (2) or a logon (3) is
  inserted under a new sequence number, the answer (11, 22, 33) updates that row.\<close>

definition pay_no :: "tgbl \<Rightarrow> bytes" where
  "pay_no g = (if take 4 (fee_type g) = asc ''0123'' then order_no g else phone_no g)"

definition txn_text :: "int \<Rightarrow> tgbl \<Rightarrow> bytes \<Rightarrow> bytes \<Rightarrow> bytes \<Rightarrow> bytes \<Rightarrow> bytes" where
  "txn_text status g seq stan rsp amo =
     (if status = 1 then asc ''INSERT INTO epos_txn(epos_seq, mti, term_id, term_serial, txn_time, biz_type, pay_no, phone) VALUES(''
          @ sq seq @ asc '', '' @ commas [sq (asc ''0100''), sq (pos_no g), sq (pos_serial g), asc ''SYSDATE''] @ asc '', ''
          @ commas [sq (fee_type g), sq (pay_no g), sq (call_tel g)] @ asc '')''
      else if status = 2 then asc ''INSERT INTO epos_txn(epos_seq, mti, term_id, term_serial, txn_time, amount, biz_type, bank, pay_no, card_no, phone) VALUES(''
          @ commas [sq seq, sq (asc ''0200''), sq (pos_no g), sq (pos_serial g), asc ''SYSDATE''] @ asc '', '' @ cstr (amount g) @ asc '',''
          @ commas [sq (fee_type g), sq (bank g), sq (pay_no g), sq (card_no g), sq (call_tel g)] @ asc '')''
      else if status = 3 then asc ''INSERT INTO epos_txn(epos_seq, mti, term_id, txn_time, phone) VALUES(''
          @ sq seq @ asc '', '' @ commas [sq (asc ''0800''), sq (pos_no g), asc ''SYSDATE''] @ asc '', '' @ sq (call_tel g) @ asc '')''
      else if status = 11 then asc ''UPDATE epos_txn SET stan='' @ sq stan @ asc '', rsp_code ='' @ sq rsp @ asc '', amount =''
          @ cstr amo @ asc '' WHERE epos_seq='' @ sq seq
      else if status = 22 then asc ''UPDATE epos_txn SET stan = '' @ sq stan @ asc '', rsp_code ='' @ sq rsp
          @ asc '' WHERE epos_seq='' @ sq seq
      else if status = 33 then asc ''UPDATE epos_txn SET rsp_code ='' @ sq rsp @ asc '' WHERE epos_seq='' @ sq seq
      else [])"

text \<open>Running a statement on a connection already taken.\<close>

definition exec_on :: "'e odb \<Rightarrow> nat \<Rightarrow> bytes \<Rightarrow> 'e db \<Rightarrow> unit outcome \<times> 'e db" where
  "exec_on w i sql d = (if length sql \<ge> 512 then (Exc, d) else
     (case run_sql w i sql d of
       (True, d1) \<Rightarrow> (Code (-4), set_conn i 2 d1)
     | (False, d1) \<Rightarrow> (Done (), set_conn i 0 d1)))"

definition setEposTxn :: "'e odb \<Rightarrow> int \<Rightarrow> tgbl \<Rightarrow> pack \<Rightarrow> bytes \<Rightarrow> 'e db \<Rightarrow> (unit outcome \<times> bytes) \<times> 'e db" where
  "setEposTxn w status g p seq d =
     (if status = 1 \<or> status = 2 \<or> status = 3 then
        (case getConnStat w d of
          (None, d1) \<Rightarrow> ((Code (-1), seq), d1)
        | (Some i, d1) \<Rightarrow> (case run_rs w i (asc ''select lpad(epos_txn_seq.nextval, 10,0) aaa from dual'') d1 of
            (None, d2) \<Rightarrow> ((Code (-2), seq), set_conn i 2 d2)
          | (Some [], d2) \<Rightarrow> ((Code (-3), seq), set_conn i 0 d2)
          | (Some (r # _), d2) \<Rightarrow> (case str_col ''aaa'' 11 r of
              None \<Rightarrow> ((Exc, seq), d2)
            | Some q \<Rightarrow> (case exec_on w i (txn_text status g q [] [] []) d2 of (x, d3) \<Rightarrow> ((x, q), d3)))))
      else
        (case (if status = 11 then byte_to_hex (FIELD p 4) 6 else Some []) of None \<Rightarrow> ((Exc, seq), d)
         | Some amo \<Rightarrow>
        (case getConnStat w d of
          (None, d1) \<Rightarrow> ((Code (-1), seq), d1)
        | (Some i, d1) \<Rightarrow>
            (case exec_on w i (txn_text status g seq (take 12 (FIELD p 37)) (take 2 (FIELD p 39)) amo) d1 of
              (x, d2) \<Rightarrow> ((x, seq), d2)))))"

section \<open>Cards bound to a terminal\<close>

definition bound_col :: "string \<Rightarrow> row list \<Rightarrow> bytes outcome" where
  "bound_col c rs = (case hd rs c of None \<Rightarrow> Code (-4) | Some b \<Rightarrow> Done b)"

definition getEcard :: "'e odb \<Rightarrow> bytes \<Rightarrow> 'e db \<Rightarrow> bytes outcome \<times> 'e db" where
  "getEcard w pos = select_op w (-1) (-2) (-3)
     (asc ''select e.card_no from epos_term e  where  term_id = '' @ sq pos) (bound_col ''card_no'')"

definition getEcard_name :: "'e odb \<Rightarrow> bytes \<Rightarrow> 'e db \<Rightarrow> (bytes \<times> bytes) outcome \<times> 'e db" where
  "getEcard_name w pos = select_op w (-1) (-2) (-3)
     (asc ''select e.card_no,m.name from epos_term e,merchant m,merchant_term t where e.term_id=t.def_term_id(+) and t.mid=m.mid and t.def_term_id = '' @ sq pos)
     (\<lambda>rs. case hd rs ''card_no'' of None \<Rightarrow> Code (-4)
       | Some b \<Rightarrow> (case hd rs ''name'' of None \<Rightarrow> Exc | Some n \<Rightarrow> Done (b, n)))"

definition getPosno :: "'e odb \<Rightarrow> bytes \<Rightarrow> 'e db \<Rightarrow> bytes outcome \<times> 'e db" where
  "getPosno w ecard = select_op w (-1) (-2) (-3)
     (asc ''select term_id from epos_term where card_no = '' @ sq ecard) (bound_col ''term_id'')"

end
