(* ===== verification/Tables.thy ===== *)
theory Tables
  imports Db
begin

text \<open>
  The tables the program of \<open>src/CTSI\<close> keeps in memory (\<open>Def.h\<close>) and the operations of \<open>DB.cpp\<close> that load
  them, called in turn by \<open>getTable\<close>. A vector is a list, an element with its index; an access outside
  one, like a text longer than the field it is copied into, is \<open>Exc\<close>.
\<close>

section \<open>The tables\<close>

record bank_info_row =
  bi_bank :: bytes
  bi_key :: int

record bank_card_row =
  bc_card :: bytes
  bc_len :: nat
  bc_bank :: bytes
  bc_track :: int
  bc_offset :: int

record bank_busi_row =
  bb_bank :: bytes
  bb_biz :: bytes
  bb_area :: bytes
  bb_pos_type :: int

record epos_group_row =
  eg_tgroup :: int
  eg_type :: int
  eg_eCard :: int
  eg_phs_ticket :: int
  eg_get_card :: int
  eg_turn :: int
  eg_welcome :: bytes
  eg_update :: bytes

record air_pay_row =
  ap_area :: bytes
  ap_biz :: bytes
  ap_name :: bytes
  ap_amount :: int
  ap_info :: bytes

record menu_get_row =
  mg_tgroup :: int
  mg_asktype :: int
  mg_bank :: bytes
  mg_group :: int

record menu_group_row =
  mp_group :: int
  mp_ver :: bytes
  mp_mbl :: int

record menu_row =
  me_id :: int
  me_name :: bytes
  me_info :: bytes

record menu_conf_row =
  mc_group :: int
  mc_parent :: int
  mc_current :: int
  mc_child :: int

record adv_row =
  ad_group :: int
  ad_fee :: bytes
  ad_text :: bytes

record tips_row =
  ti_return :: bytes
  ti_tips :: bytes
  ti_pos :: bytes
  ti_menu :: int

record sell_row =
  se_biz :: bytes
  se_card :: bytes
  se_amount :: int

record mobile_row =
  mo_field :: bytes
  mo_owner :: int

record message_row =
  ms_sys :: bytes
  ms_title :: bytes
  ms_group :: int

record area_row =
  ar_flag :: int
  ar_area :: bytes
  ar_acc :: bytes
  ar_biz :: bytes
  ar_status :: int

record fail_row =
  fa_id :: bytes
  fa_party :: bytes
  fa_bit39 :: bytes
  fa_bit62 :: bytes
  fa_desc :: bytes

text \<open>The global variables. Of the two-dimensional \<open>menu_conf\<close> and \<open>print_adv\<close> only the filled part of a
  line is kept: its length is \<open>menu_cnt\<close>, \<open>print_adv_cnt\<close>.\<close>

record tables =
  bank_info :: "bank_info_row list"
  bank_card :: "bank_card_row list"
  bank_busi :: "bank_busi_row list"
  epos_group :: "epos_group_row list"
  favorable_air_pay :: "air_pay_row list"
  epos_menu_get :: "menu_get_row list"
  epos_menu_group :: "menu_group_row list"
  epos_menu :: "menu_row list"
  menu_conf :: "menu_conf_row list list"
  print_adv :: "adv_row list list"
  epos_tips :: "tips_row list"
  sell_card_amo :: "sell_row list"
  epos_mobile :: "mobile_row list"
  YiDong_Turn :: int
  LianTong_Turn :: int
  new_message :: "message_row list"
  area_biz :: "area_row list"
  fail_message :: "fail_row list"
  CS_GBL_URL :: bytes
  CS_DCN_URL :: bytes

section \<open>Loading\<close>

text \<open>A row is read into a record; a loading answers its code and the tables. After an exception, \<open>None\<close>, the
  table being loaded holds the rows before the one that could not be read; the model does not say what is in
  the tables then.\<close>

type_synonym 'e loading = "tables \<Rightarrow> 'e db \<Rightarrow> (int \<times> tables) option \<times> 'e db"

definition load_rows :: "(row \<Rightarrow> 'a option) \<Rightarrow> ('a list \<Rightarrow> tables \<Rightarrow> tables) \<Rightarrow> row list \<Rightarrow> ((tables \<Rightarrow> tables) \<times> int) outcome" where
  "load_rows rd upd rs = (case those (map rd rs) of None \<Rightarrow> Exc | Some xs \<Rightarrow> Done (upd xs, 0))"

definition loaded :: "((tables \<Rightarrow> tables) \<times> int) outcome \<times> 'e db \<Rightarrow> tables \<Rightarrow> (int \<times> tables) option \<times> 'e db" where
  "loaded x t = (case x of (Done (f, c), d) \<Rightarrow> (Some (c, f t), d) | (Code c, d) \<Rightarrow> (Some (c, t), d) | (Exc, d) \<Rightarrow> (None, d))"

definition load :: "'e odb \<Rightarrow> string \<Rightarrow> int \<Rightarrow> (row list \<Rightarrow> ((tables \<Rightarrow> tables) \<times> int) outcome) \<Rightarrow> 'e loading" where
  "load w sql no_row rd t d = loaded (select_op w (-1) (-2) no_row (asc sql) rd d) t"

definition getBankInfo :: "'e odb \<Rightarrow> 'e loading" where
  "getBankInfo w = load w ''select * from bank_info'' (-3) (load_rows
     (\<lambda>r. do { b \<leftarrow> str_col ''bank'' 7 r; k \<leftarrow> int_col ''key'' r; Some \<lparr>bi_bank = b, bi_key = k\<rparr> })
     (\<lambda>xs t. t\<lparr>bank_info := xs\<rparr>))"

definition getBankCard :: "'e odb \<Rightarrow> 'e loading" where
  "getBankCard w = load w ''select * from bank_card'' (-3) (load_rows
     (\<lambda>r. do { c \<leftarrow> str_col ''card_no'' 10 r; b \<leftarrow> str_col ''bank'' 7 r; k \<leftarrow> int_col ''track_no'' r;
       f \<leftarrow> int_col ''offset'' r;
       Some \<lparr>bc_card = c, bc_len = strlen c, bc_bank = b, bc_track = k, bc_offset = f\<rparr> })
     (\<lambda>xs t. t\<lparr>bank_card := xs\<rparr>))"

text \<open>Only the businesses that are open (status not 0) are kept.\<close>

definition busi_row :: "row \<Rightarrow> bank_busi_row option option" where
  "busi_row r = do { s \<leftarrow> int_col ''status'' r;
     if s = 0 then Some None
     else do { b \<leftarrow> str_col ''bank'' 7 r; z \<leftarrow> str_col ''biz_type'' 5 r; a \<leftarrow> str_col ''acc_area'' 5 r;
       p \<leftarrow> int_col ''pos_type'' r; Some (Some \<lparr>bb_bank = b, bb_biz = z, bb_area = a, bb_pos_type = p\<rparr>) } }"

definition getBankBusi :: "'e odb \<Rightarrow> 'e loading" where
  "getBankBusi w = load w ''select * from bank_busi'' (-3)
     (load_rows busi_row (\<lambda>xs t. t\<lparr>bank_busi := map the (filter (\<lambda>x. x \<noteq> None) xs)\<rparr>))"

definition getEposGroup :: "'e odb \<Rightarrow> 'e loading" where
  "getEposGroup w = load w ''select * from epos_group order by tgroup'' (-3) (load_rows
     (\<lambda>r. do { g \<leftarrow> int_col ''tGroup'' r; y \<leftarrow> int_col ''group_type'' r; e \<leftarrow> int_col ''eCard'' r;
       p \<leftarrow> int_col ''PHS_TICKET'' r; c \<leftarrow> int_col ''GET_CARD'' r; d \<leftarrow> int_col ''DianXin_Turn'' r;
       h \<leftarrow> opt_col ''welcome'' 501 [] r; u \<leftarrow> opt_col ''update_info'' 301 [] r;
       Some \<lparr>eg_tgroup = g, eg_type = y, eg_eCard = e, eg_phs_ticket = p, eg_get_card = c, eg_turn = d,
         eg_welcome = h, eg_update = u\<rparr> })
     (\<lambda>xs t. t\<lparr>epos_group := xs\<rparr>))"

text \<open>The table of favourable payments may be empty.\<close>

definition getFavorableAirPay :: "'e odb \<Rightarrow> 'e loading" where
  "getFavorableAirPay w t d = loaded (select_gen w (-1) (-2) 2
     (asc ''select area,biz_type,name,amount,info from favorable_air_pay where sysdate between begin_date and end_date order by area asc,biz_type asc,priority asc'')
     (load_rows
       (\<lambda>r. do { a \<leftarrow> str_col ''area'' 5 r; b \<leftarrow> str_col ''biz_type'' 5 r; n \<leftarrow> str_col ''name'' 41 r;
         m \<leftarrow> int_col ''amount'' r; i \<leftarrow> opt_col ''info'' 301 [] r;
         Some \<lparr>ap_area = a, ap_biz = b, ap_name = n, ap_amount = m, ap_info = i\<rparr> })
       (\<lambda>xs t. t\<lparr>favorable_air_pay := xs\<rparr>)) d) t"

definition getEposMenuGet :: "'e odb \<Rightarrow> 'e loading" where
  "getEposMenuGet w = load w ''select * from epos_menu_get order by asktype desc, bank desc'' (-3) (load_rows
     (\<lambda>r. do { g \<leftarrow> int_col ''tGroup'' r; a \<leftarrow> int_col ''asktype'' r; b \<leftarrow> str_col ''bank'' 7 r;
       m \<leftarrow> int_col ''menu_group'' r; Some \<lparr>mg_tgroup = g, mg_asktype = a, mg_bank = b, mg_group = m\<rparr> })
     (\<lambda>xs t. t\<lparr>epos_menu_get := xs\<rparr>))"

definition getEposMenuGroup :: "'e odb \<Rightarrow> 'e loading" where
  "getEposMenuGroup w = load w ''select * from epos_menu_group order by menu_group'' (-3) (load_rows
     (\<lambda>r. do { g \<leftarrow> int_col ''menu_group'' r; v \<leftarrow> str_col ''menu_ver'' 9 r; m \<leftarrow> int_col ''mbl_flag'' r;
       Some \<lparr>mp_group = g, mp_ver = v, mp_mbl = m\<rparr> })
     (\<lambda>xs t. t\<lparr>epos_menu_group := xs\<rparr>))"

section \<open>The menus\<close>

text \<open>The rows come with descending numbers; the first tells the size of the vector, and each entry goes to
  the place of its number.\<close>

definition no_menu :: menu_row where "no_menu = \<lparr>me_id = 0, me_name = [], me_info = []\<rparr>"

definition menu_entry :: "row \<Rightarrow> (int \<times> bytes \<times> bytes option) option" where
  "menu_entry r = do { m \<leftarrow> int_col ''menu_id'' r; n \<leftarrow> str_col ''name'' 30 r;
     case r ''info'' of None \<Rightarrow> Some (m, n, None)
     | Some _ \<Rightarrow> (case str_col ''info'' 201 r of None \<Rightarrow> None | Some i \<Rightarrow> Some (m, n, Some i)) }"

definition put_menu :: "menu_row \<Rightarrow> int \<Rightarrow> bytes \<Rightarrow> bytes option \<Rightarrow> menu_row" where
  "put_menu old m n i = \<lparr>me_id = m, me_name = n, me_info = (case i of None \<Rightarrow> me_info old | Some x \<Rightarrow> x)\<rparr>"

fun place_menus :: "menu_row list \<Rightarrow> (int \<times> bytes \<times> bytes option) list \<Rightarrow> menu_row list option" where
  "place_menus v [] = Some v"
| "place_menus v ((m, n, i) # ms) = (if 0 \<le> m \<and> m < int (length v)
     then place_menus (v[nat m := put_menu (v ! nat m) m n i]) ms else None)"

definition menu_vector :: "row list \<Rightarrow> menu_row list option" where
  "menu_vector rs = do { ms \<leftarrow> those (map menu_entry rs);
     place_menus (replicate (nat (fst (hd ms) + 1)) no_menu) ms }"

definition getEposMenu :: "'e odb \<Rightarrow> 'e loading" where
  "getEposMenu w = load w ''select * from epos_menu order by menu_id desc'' (-3)
     (\<lambda>rs. case menu_vector rs of None \<Rightarrow> Exc | Some v \<Rightarrow> Done (\<lambda>t. t\<lparr>epos_menu := v\<rparr>, 0))"

definition MAX_MENU_ITEM :: nat where "MAX_MENU_ITEM = 1000"

text \<open>Each row is appended to the line of its group; there is one line more than there are menus.\<close>

fun add_lines :: "nat \<Rightarrow> ('a \<Rightarrow> int) \<Rightarrow> 'a list list \<Rightarrow> 'a list \<Rightarrow> 'a list list option" where
  "add_lines room grp v [] = Some v"
| "add_lines room grp v (x # xs) = (if 0 \<le> grp x \<and> grp x < int (length v) \<and> length (v ! nat (grp x)) < room
     then add_lines room grp (v[nat (grp x) := v ! nat (grp x) @ [x]]) xs else None)"

definition conf_entry :: "row \<Rightarrow> menu_conf_row option" where
  "conf_entry r = do { g \<leftarrow> int_col ''menu_group'' r; p \<leftarrow> int_col ''parent'' r; c \<leftarrow> int_col ''currentm'' r;
     h \<leftarrow> int_col ''child'' r; Some \<lparr>mc_group = g, mc_parent = p, mc_current = c, mc_child = h\<rparr> }"

definition getMenuConf :: "'e odb \<Rightarrow> 'e loading" where
  "getMenuConf w t = load w ''select * from epos_menu_conf order by priority'' (-3)
     (\<lambda>rs. case do { xs \<leftarrow> those (map conf_entry rs);
         add_lines (MAX_MENU_ITEM + 1) mc_group (replicate (length (epos_menu t) + 1) []) xs } of
       None \<Rightarrow> Exc | Some v \<Rightarrow> Done (\<lambda>t. t\<lparr>menu_conf := v\<rparr>, 0)) t"

definition MAX_PRINT_ADV :: nat where "MAX_PRINT_ADV = 50"
definition MAX_PRINT_ADV_ITEM :: nat where "MAX_PRINT_ADV_ITEM = 300"

definition adv_entry :: "row \<Rightarrow> adv_row option" where
  "adv_entry r = do { g \<leftarrow> int_col ''fee_group'' r; f \<leftarrow> opt_col ''fee_type'' 5 (asc ''0000'') r;
     a \<leftarrow> str_col ''advertisement'' 1024 r; Some \<lparr>ad_group = g, ad_fee = f, ad_text = a\<rparr> }"

text \<open>After an error the connection is given back as if it were in order.\<close>

definition get_print_adv :: "'e odb \<Rightarrow> 'e loading" where
  "get_print_adv w t d = loaded (select_gen w (-1) (-2) 0 (asc ''select * from print_adv order by fee_group'')
     (or_none (-3) (\<lambda>rs. case do { xs \<leftarrow> those (map adv_entry rs);
         add_lines MAX_PRINT_ADV_ITEM ad_group (replicate MAX_PRINT_ADV []) xs } of
       None \<Rightarrow> Exc | Some v \<Rightarrow> Done (\<lambda>t. t\<lparr>print_adv := v\<rparr>, 0))) d) t"

section \<open>Other tables\<close>

definition getEposTips :: "'e odb \<Rightarrow> 'e loading" where
  "getEposTips w = load w ''select * from epos_tips'' 0 (load_rows
     (\<lambda>r. do { f \<leftarrow> opt_col ''return'' 2 (asc ''1'') r; s \<leftarrow> opt_col ''tips'' 301 [] r;
       p \<leftarrow> opt_col ''epos_or_ipos'' 2 (asc ''0'') r; m \<leftarrow> int_col ''menu_id'' r;
       Some \<lparr>ti_return = f, ti_tips = s, ti_pos = p, ti_menu = m\<rparr> })
     (\<lambda>xs t. t\<lparr>epos_tips := xs\<rparr>))"

definition getSellCardAmo :: "'e odb \<Rightarrow> 'e loading" where
  "getSellCardAmo w = load w ''select * from sell_card_amo order by priority'' 0 (load_rows
     (\<lambda>r. do { b \<leftarrow> str_col ''biz_type'' 5 r; c \<leftarrow> str_col ''card_type'' 5 r; a \<leftarrow> int_col ''amount'' r;
       Some \<lparr>se_biz = b, se_card = c, se_amount = a\<rparr> })
     (\<lambda>xs t. t\<lparr>sell_card_amo := xs\<rparr>))"

definition getEposMobile :: "'e odb \<Rightarrow> 'e loading" where
  "getEposMobile w = load w ''select * from epos_mobile'' 0 (load_rows
     (\<lambda>r. do { f \<leftarrow> opt_col ''mobile_field'' 4 [] r; n \<leftarrow> int_col ''mobile_owner'' r;
       Some \<lparr>mo_field = f, mo_owner = n\<rparr> })
     (\<lambda>xs t. t\<lparr>epos_mobile := xs\<rparr>))"

text \<open>The switches of the operators 2 and 3; another operator ends the loop with an error, after the
  changes made so far.\<close>

fun turn_loop :: "row list \<Rightarrow> tables \<Rightarrow> (int \<times> tables) option" where
  "turn_loop [] t = Some (0, t)"
| "turn_loop (r # rs) t = do { p \<leftarrow> int_col ''operators'' r;
     if p = 2 then do { v \<leftarrow> int_col ''turn'' r; turn_loop rs (t\<lparr>YiDong_Turn := v\<rparr>) }
     else if p = 3 then do { v \<leftarrow> int_col ''turn'' r; turn_loop rs (t\<lparr>LianTong_Turn := v\<rparr>) }
     else Some (-1, t) }"

definition getEposTurn :: "'e odb \<Rightarrow> 'e loading" where
  "getEposTurn w t = load w ''select * from epos_turn'' (-1)
     (\<lambda>rs. case turn_loop rs t of None \<Rightarrow> Exc | Some (c, t') \<Rightarrow> Done (\<lambda>_. t', c)) t"

definition getEposNewMessage :: "'e odb \<Rightarrow> 'e loading" where
  "getEposNewMessage w = load w ''select * from epos_new_message order by tgroup'' (-1) (load_rows
     (\<lambda>r. do { s \<leftarrow> opt_col ''sys_message'' 1024 [] r; h \<leftarrow> opt_col ''title_message'' 31 [] r;
       g \<leftarrow> int_col ''tgroup'' r; Some \<lparr>ms_sys = s, ms_title = h, ms_group = g\<rparr> })
     (\<lambda>xs t. t\<lparr>new_message := xs\<rparr>))"

definition getAreaBiz :: "'e odb \<Rightarrow> 'e loading" where
  "getAreaBiz w = load w ''select * from epos_area_biz order by biz_flag,area desc,accarea desc'' (-3) (load_rows
     (\<lambda>r. do { f \<leftarrow> int_col ''biz_flag'' r; a \<leftarrow> str_col ''area'' 5 r; c \<leftarrow> str_col ''accarea'' 5 r;
       b \<leftarrow> str_col ''biz_type'' 5 r; s \<leftarrow> int_col ''status'' r;
       Some \<lparr>ar_flag = f, ar_area = a, ar_acc = c, ar_biz = b, ar_status = s\<rparr> })
     (\<lambda>xs t. t\<lparr>area_biz := xs\<rparr>))"

definition getFailMessage :: "'e odb \<Rightarrow> 'e loading" where
  "getFailMessage w = load w ''select * from biz_rsp order by rsp_id'' (-3) (load_rows
     (\<lambda>r. do { i \<leftarrow> str_col ''rsp_id'' 12 r; p \<leftarrow> opt_col ''party_code'' 7 (asc '' '') r;
       b \<leftarrow> str_col ''bit39_rsp'' 3 r; c \<leftarrow> opt_col ''bit62_rsp'' 3 (asc '' '') r;
       x \<leftarrow> opt_col ''busi_desc'' 300 (asc '' '') r;
       Some \<lparr>fa_id = i, fa_party = p, fa_bit39 = b, fa_bit62 = c, fa_desc = x\<rparr> })
     (\<lambda>xs t. t\<lparr>fail_message := xs\<rparr>))"

definition set_attr :: "bytes \<times> bytes \<Rightarrow> tables \<Rightarrow> tables" where
  "set_attr x t = (if fst x = asc ''CS_GBL_URL'' then t\<lparr>CS_GBL_URL := snd x\<rparr>
     else if fst x = asc ''CS_DCN_URL'' then t\<lparr>CS_DCN_URL := snd x\<rparr> else t)"

definition getPosAttr :: "'e odb \<Rightarrow> 'e loading" where
  "getPosAttr w = load w ''select * from t_pos_attr'' (-3) (load_rows
     (\<lambda>r. do { n \<leftarrow> str_col ''ATTR_NAME'' 20 r; v \<leftarrow> str_col ''ATTR_VALUE'' 30 r; Some (n, v) })
     (fold set_attr))"

section \<open>All tables\<close>

text \<open>\<open>getTable\<close> stops at the first code that is not 0.\<close>

fun load_all :: "'e loading list \<Rightarrow> 'e loading" where
  "load_all [] t d = (Some (0, t), d)"
| "load_all (f # fs) t d = (case f t d of
     (Some (c, t'), d') \<Rightarrow> if c = 0 then load_all fs t' d' else (Some (c, t'), d')
   | (None, d') \<Rightarrow> (None, d'))"

definition table_loads :: "'e odb \<Rightarrow> 'e loading list" where
  "table_loads w = [getEposMenu w, getEposGroup w, getEposMenuGet w, getEposMenuGroup w, getBankInfo w, getBankCard w,
     getBankBusi w, getMenuConf w, get_print_adv w, getEposTips w, getSellCardAmo w, getEposMobile w, getEposTurn w,
     getEposNewMessage w, getAreaBiz w, getFavorableAirPay w, getFailMessage w, getPosAttr w]"

definition getTable :: "'e odb \<Rightarrow> 'e loading" where
  "getTable w = load_all (table_loads w)"

end
