(* ===== verification/DbProofs.thy ===== *)
theory DbProofs
  imports Tables
begin

text \<open>
  The connections of \<open>Db\<close> and \<open>Tables\<close>: an operation that returns has given its connection back. The contract
  is the locale \<open>pooled\<close>, interpreted on every operation; \<open>getYctPIN2\<close> does not keep it, and exhausts the pool.
  The loaded tables are well formed.
\<close>

section \<open>Giving connections back\<close>

text \<open>Nobody else takes or gives back connections while this thread sleeps.\<close>

definition alone :: "'e odb \<Rightarrow> bool" where
  "alone w \<longleftrightarrow> (\<forall>cs e. fst (while_asleep w cs e) = cs)"

definition used_in :: "nat list \<Rightarrow> nat set" where
  "used_in cs = {i. i < length cs \<and> cs ! i = 1}"

definition used :: "'e db \<Rightarrow> nat set" where "used d = used_in (conns d)"

lemma used_in_update: "v \<noteq> 1 \<Longrightarrow> used_in (cs[i := v]) = used_in cs - {i}"
proof (rule set_eqI)
  assume v: "v \<noteq> 1"
  fix x show "x \<in> used_in (cs[i := v]) \<longleftrightarrow> x \<in> used_in cs - {i}"
    using v by (cases "x = i") (auto simp: used_in_def)
qed

lemma used_in_Cons: "used_in (c # cs) = (if c = 1 then {0} else {}) \<union> Suc ` used_in cs"
proof (rule set_eqI)
  fix i show "i \<in> used_in (c # cs) \<longleftrightarrow> i \<in> (if c = 1 then {0} else {}) \<union> Suc ` used_in cs"
    by (cases i) (auto simp: used_in_def)
qed

text \<open>What a scan does to the states: nothing, or one connection that was not in use is.\<close>

definition took :: "nat \<Rightarrow> nat list \<Rightarrow> nat option \<Rightarrow> nat list \<Rightarrow> bool" where
  "took k cs r cs' \<longleftrightarrow> length cs' = length cs \<and> (case r of None \<Rightarrow> used_in cs' = used_in cs
     | Some i \<Rightarrow> \<exists>j. i = k + j \<and> j < length cs \<and> j \<notin> used_in cs \<and> used_in cs' = insert j (used_in cs))"

lemma took_Cons: "took (Suc k) cs r cs' \<Longrightarrow> took k (c # cs) r (c # cs')"
  by (auto simp: took_def used_in_Cons split: option.splits)

lemma scan_took: "scan_conns w k cs e = (r, cs', e') \<Longrightarrow> took k cs r cs'"
proof (induction w k cs e arbitrary: r cs' e' rule: scan_conns.induct)
  case (1 w i e)
  then show ?case by (simp add: took_def)
next
  case (2 w i c cs e)
  have here: "took i (c # cs) (Some i) (1 # cs)" if "c \<noteq> 1"
    using that by (auto simp: took_def used_in_Cons)
  show ?case
    using 2 here by (auto split: if_splits prod.splits intro: took_Cons)
qed

lemma try_took:
  "try_conns w n d = (r, d') \<Longrightarrow> alone w \<Longrightarrow> took 0 (conns d) r (conns d')"
proof (induction n arbitrary: d)
  case 0
  then show ?case by (auto simp: took_def)
next
  case (Suc n)
  obtain s cs e where sc: "scan_conns w 0 (conns d) (outside d) = (s, cs, e)" by (metis prod_cases3)
  note tk = scan_took [OF sc]
  show ?case
  proof (cases s)
    case (Some i)
    with Suc.prems sc tk show ?thesis by auto
  next
    case None
    obtain cs' e2 where sl: "while_asleep w cs e = (cs', e2)" by (cases "while_asleep w cs e")
    with Suc.prems(2) have "cs' = cs" by (auto simp: alone_def) (metis fst_conv)
    with Suc.prems sc sl None have "try_conns w n (d\<lparr>conns := cs, outside := e2\<rparr>) = (r, d')" by simp
    from Suc.IH [OF this Suc.prems(2)] have "took 0 cs r (conns d')" by simp
    with tk None show ?thesis by (auto simp: took_def split: option.splits)
  qed
qed

lemma getConnStat_took:
  assumes "getConnStat w d = (r, d')" "alone w"
  shows "case r of None \<Rightarrow> used d' = used d \<and> length (conns d') = length (conns d)
    | Some i \<Rightarrow> i < length (conns d) \<and> i \<notin> used d \<and> used d' = insert i (used d) \<and> length (conns d') = length (conns d)"
proof -
  have "took 0 (conns d) r (conns d')" using assms try_took by (simp add: getConnStat_def)
  then show ?thesis by (cases r) (auto simp: took_def used_def)
qed

text \<open>An operation keeps the contract when a result other than an exception means that exactly the
  connections in use before are in use after it.\<close>

definition gives_back :: "'e db \<Rightarrow> 'e db \<Rightarrow> bool" where
  "gives_back d d' \<longleftrightarrow> used d' = used d \<and> length (conns d') = length (conns d)"

lemma gives_back_set:
  assumes "getConnStat w d = (Some i, d1)" "alone w" "conns d2 = conns d1" "v \<noteq> 1"
  shows "gives_back d (set_conn i v d2)"
proof -
  from getConnStat_took [OF assms(1,2)]
  have "i \<notin> used d" "used d1 = insert i (used d)" "length (conns d1) = length (conns d)" by simp_all
  then show ?thesis using assms(3,4) by (simp add: gives_back_def set_conn_def used_def used_in_update)
qed

lemma gives_back_none: "getConnStat w d = (None, d1) \<Longrightarrow> alone w \<Longrightarrow> gives_back d d1"
  using getConnStat_took [of w d None d1] by (simp add: gives_back_def)

lemma run_conns: "run_rs w i sql d = (r, d') \<Longrightarrow> conns d' = conns d" "run_sql w i sql d = (x, d') \<Longrightarrow> conns d' = conns d"
  by (auto simp: run_rs_def run_sql_def split: prod.splits)

lemma select_gen_back:
  assumes "select_gen w a b v sql rd d = (x, d')" "alone w" "x \<noteq> Exc" "v \<noteq> 1"
  shows "gives_back d d'"
proof -
  obtain r d1 where g: "getConnStat w d = (r, d1)" by (cases "getConnStat w d")
  show ?thesis
  proof (cases r)
    case None
    with g assms show ?thesis using gives_back_none by (auto simp: select_gen_def)
  next
    case (Some i)
    obtain rs d2 where q: "run_rs w i sql d1 = (rs, d2)" by (cases "run_rs w i sql d1")
    have "d' = set_conn i v d2 \<or> d' = set_conn i 0 d2"
      using assms(1,3) g Some q by (cases rs) (auto simp: select_gen_def split: outcome.splits)
    then show ?thesis
      using gives_back_set [OF g [unfolded Some] assms(2) run_conns(1) [OF q]] assms(4) by auto
  qed
qed

lemma select_op_back:
  assumes "select_op w a b c sql rd d = (x, d')" "alone w" "x \<noteq> Exc"
  shows "gives_back d d'"
  using select_gen_back [of w a b 2] assms by (simp add: select_op_def)

lemma update_op_back:
  assumes "update_op w b sql d = (x, d')" "alone w"
  shows "gives_back d d'"
proof -
  obtain r d1 where g: "getConnStat w d = (r, d1)" by (cases "getConnStat w d")
  show ?thesis
  proof (cases r)
    case None
    with g assms show ?thesis using gives_back_none by (auto simp: update_op_def)
  next
    case (Some i)
    obtain e d2 where q: "run_sql w i sql d1 = (e, d2)" by (cases "run_sql w i sql d1")
    have "d' = set_conn i 2 d2 \<or> d' = set_conn i 0 d2"
      using assms(1) g Some q by (cases e) (auto simp: update_op_def)
    then show ?thesis
      using gives_back_set [OF g [unfolded Some] assms(2) run_conns(2) [OF q]] by auto
  qed
qed

lemma update_buf_fits: "length sql < n \<Longrightarrow> update_buf w c n sql = update_op w c sql"
  by (rule ext) (auto simp: update_buf_def update_op_def split: option.split prod.split)

lemma select_buf_fits: "length sql < n \<Longrightarrow> select_buf w a b c n sql rd = select_op w a b c sql rd"
  by (rule ext) (auto simp: select_buf_def select_op_def select_gen_def split: option.split prod.split)

lemma update_buf_back:
  assumes "update_buf w c n sql d = (x, d')" "alone w" "x \<noteq> Exc"
  shows "gives_back d d'"
proof (cases "length sql < n")
  case True
  with assms update_op_back show ?thesis by (simp add: update_buf_fits)
next
  case False
  with assms gives_back_none [of w d d'] show ?thesis by (auto simp: update_buf_def split: option.splits prod.splits)
qed

lemma select_buf_back:
  assumes "select_buf w a b c n sql rd d = (x, d')" "alone w" "x \<noteq> Exc"
  shows "gives_back d d'"
proof (cases "length sql < n")
  case True
  with assms select_op_back show ?thesis by (simp add: select_buf_fits)
next
  case False
  with assms gives_back_none [of w d d'] show ?thesis by (auto simp: select_buf_def split: option.splits prod.splits)
qed

text \<open>\<open>getYctPIN2\<close>, unless the PIN is blocked.\<close>

lemma getYctPIN2_back:
  assumes "getYctPIN2 w s0 tm d = (x, d')" "alone w" "x \<noteq> Exc" "x \<noteq> Code 1"
  shows "gives_back d d'"
proof -
  let ?s = "asc ''select * from yct_isam where term_id = '' @ sq tm"
  obtain r d1 where g: "getConnStat w d = (r, d1)" by (cases "getConnStat w d")
  show ?thesis
  proof (cases r)
    case None
    with g assms show ?thesis using gives_back_none by (auto simp: getYctPIN2_def)
  next
    case (Some i)
    obtain rs d2 where q: "run_rs w i ?s d1 = (rs, d2)" by (cases "run_rs w i ?s d1")
    have "d' = set_conn i 2 d2 \<or> d' = set_conn i 0 d2"
      using assms(1,3,4) g Some q by (auto simp: getYctPIN2_def Let_def split: option.splits list.splits if_splits)
    then show ?thesis
      using gives_back_set [OF g [unfolded Some] assms(2) run_conns(1) [OF q]] by auto
  qed
qed

section \<open>The contract\<close>

text \<open>A call of an operation that returns.\<close>

definition finishes :: "('e db \<Rightarrow> 'a outcome \<times> 'e db) \<Rightarrow> 'e db \<Rightarrow> 'e db \<Rightarrow> bool" where
  "finishes f d d' \<longleftrightarrow> fst (f d) \<noteq> Exc \<and> snd (f d) = d'"

text \<open>What a caller relies on of an operation on the database.\<close>

locale pooled =
  fixes w :: "'e odb" and f :: "'e db \<Rightarrow> 'a outcome \<times> 'e db"
  assumes returns: "f d = (x, d') \<Longrightarrow> alone w \<Longrightarrow> x \<noteq> Exc \<Longrightarrow> gives_back d d'"
begin

lemma keeps_used: "f d = (x, d') \<Longrightarrow> alone w \<Longrightarrow> x \<noteq> Exc \<Longrightarrow> used d' = used d"
  using returns by (simp add: gives_back_def)

lemma keeps_free:
  assumes "f d = (x, d')" "alone w" "x \<noteq> Exc" "i < length (conns d)" "i \<notin> used d"
  shows "i < length (conns d') \<and> i \<notin> used d'"
  using returns [OF assms(1-3)] assms(4,5) by (simp add: gives_back_def)

lemma finishes_used: "finishes f d d' \<Longrightarrow> alone w \<Longrightarrow> used d' = used d"
  using keeps_used [of d "fst (f d)" d'] by (auto simp: finishes_def)

end

lemma pooled_buf: "(\<And>d x d'. f d = (x, d') \<Longrightarrow> alone w \<Longrightarrow> x \<noteq> Exc \<Longrightarrow> gives_back d d')
    \<Longrightarrow> in_buf n sql f d = (x, d') \<Longrightarrow> alone w \<Longrightarrow> x \<noteq> Exc \<Longrightarrow> gives_back d d'"
  by (auto simp: in_buf_def split: if_splits)

lemmas pooled_rules = update_buf_back select_buf_back pooled_buf [OF select_op_back] pooled_buf [OF update_op_back] select_op_back update_op_back select_gen_back

interpretation db_time: pooled w "getDBtime w" for w
  by unfold_locales (auto simp: getDBtime_def Let_def intro: pooled_rules)

interpretation day_amo: pooled w "getDayAmo w tm n0" for w tm n0
  by unfold_locales (auto simp: getDayAmo_def Let_def intro: pooled_rules)

interpretation sum_day: pooled w "setSumDayAmo w a tm" for w a tm
  by unfold_locales (auto simp: setSumDayAmo_def Let_def intro: pooled_rules)

interpretation logon_status: pooled w "setEposLogonStatus w a tm" for w a tm
  by unfold_locales (auto simp: setEposLogonStatus_def Let_def intro: pooled_rules)

interpretation pin_error: pooled w "setYCTPinErr w tm" for w tm
  by unfold_locales (auto simp: setYCTPinErr_def Let_def intro: pooled_rules)

interpretation work_id: pooled w "checkworkID w tm id" for w tm id
  by unfold_locales (auto simp: checkworkID_def Let_def intro: pooled_rules split: if_splits)

interpretation yct_stat_set: pooled w "setYctStat w a q" for w a q
  by unfold_locales (auto simp: setYctStat_def Let_def intro: pooled_rules)

interpretation last_signin: pooled w "updateLastSigninStatus w tm" for w tm
  by unfold_locales (auto simp: updateLastSigninStatus_def Let_def intro: pooled_rules)

interpretation yct_update: pooled w "updateYct w pk pr y q" for w pk pr y q
  by unfold_locales (auto simp: updateYct_def Let_def intro: pooled_rules)

interpretation yct_stat: pooled w "getYctStat w tm" for w tm
  by unfold_locales (auto simp: getYctStat_def Let_def intro: pooled_rules)

interpretation yct_rev: pooled w "getYctRev w" for w
  by unfold_locales (auto simp: getYctRev_def Let_def intro: pooled_rules)

interpretation yct_ack_set: pooled w "setYctAck w q s h" for w q s h
  by unfold_locales (auto simp: setYctAck_def Let_def intro: pooled_rules)

interpretation yct_ack_update: pooled w "updateYctAck w q s" for w q s
  by unfold_locales (auto simp: updateYctAck_def Let_def intro: pooled_rules)

interpretation ecard: pooled w "getEcard w tm" for w tm
  by unfold_locales (auto simp: getEcard_def Let_def intro: pooled_rules)

interpretation ecard_name: pooled w "getEcard_name w tm" for w tm
  by unfold_locales (auto simp: getEcard_name_def Let_def intro: pooled_rules)

interpretation posno: pooled w "getPosno w c" for w c
  by unfold_locales (auto simp: getPosno_def Let_def intro: pooled_rules)

text \<open>\<open>getYctAck\<close>: two queries on one connection, and an update after it is given back.\<close>

lemma ack_rest_back:
  assumes "getConnStat w d = (Some i, d1)" "conns d2 = conns d1" "ack_rest w i cols d2 = (x, d')" "alone w" "x \<noteq> Exc"
  shows "gives_back d d'"
proof -
  note bk = gives_back_set [OF assms(1,4)]
  let ?s = "asc ''select * from YCT_Ack where yct_seq = '' @ sq (hd cols)"
  obtain rs d3 where q: "run_rs w i ?s d2 = (rs, d3)" by (cases "run_rs w i ?s d2")
  have c3: "conns d3 = conns d1" using run_conns(1) [OF q] assms(2) by simp
  have l: "length ?s < 50" using assms(3,5) by (auto simp: ack_rest_def Let_def split: if_splits)
  consider "d' = set_conn i 2 d3 \<or> d' = set_conn i 0 d3"
    | y where "setYctStat w 0 (hd cols) (set_conn i 0 d3) = (y, d')" "y \<noteq> Exc"
    using assms(3,5) q l by (auto simp: ack_rest_def Let_def split: option.splits list.splits prod.splits outcome.splits)
  then show ?thesis
  proof cases
    case 1
    then show ?thesis using bk [OF c3] by auto
  next
    case (2 y)
    then show ?thesis using yct_stat_set.returns [OF 2(1) assms(4) 2(2)] bk [OF c3, of 0] by (simp add: gives_back_def)
  qed
qed

lemma getYctAck_back:
  assumes "getYctAck w stan d = (x, d')" "alone w" "x \<noteq> Exc"
  shows "gives_back d d'"
proof -
  obtain r d1 where g: "getConnStat w d = (r, d1)" by (cases "getConnStat w d")
  show ?thesis
  proof (cases r)
    case None
    with g assms show ?thesis using gives_back_none by (auto simp: getYctAck_def)
  next
    case (Some i)
    note g = g [unfolded Some]
    let ?s = "asc ''select * from YCT_txn where status = 1 and stan='' @ sq stan"
    obtain rs d2 where q: "run_rs w i ?s d1 = (rs, d2)" by (cases "run_rs w i ?s d1")
    have l: "length ?s < 50" using assms g by (auto simp: getYctAck_def Let_def split: if_splits)
    have "(d' = set_conn i 2 d2 \<or> d' = set_conn i 0 d2) \<or> (\<exists>cols. ack_rest w i cols d2 = (x, d'))"
      using assms(1,3) g q l by (auto simp: getYctAck_def Let_def split: option.splits list.splits)
    then show ?thesis
      using gives_back_set [OF g assms(2) run_conns(1) [OF q]] ack_rest_back [OF g run_conns(1) [OF q] _ assms(2,3)] by auto
  qed
qed

interpretation yct_ack: pooled w "getYctAck w stan" for w stan
  by unfold_locales (rule getYctAck_back)

text \<open>But its first text never fits the buffer of 50 characters: without the transaction number it has 50 already.\<close>

lemma getYctAck_overruns: "fst (getYctAck w stan d) = Exc \<or> fst (getYctAck w stan d) = Code (- 1)"
proof -
  have "length (asc ''select * from YCT_txn where status = 1 and stan='') = 48" by (simp add: asc_def)
  then have "50 \<le> length (asc ''select * from YCT_txn where status = 1 and stan='' @ sq stan)" by (simp add: sq_def)
  then show ?thesis by (cases "getConnStat w d"; cases "fst (getConnStat w d)") (auto simp: getYctAck_def Let_def)
qed

text \<open>The operations with further results.\<close>

definition txn_op :: "'e odb \<Rightarrow> int \<Rightarrow> tgbl \<Rightarrow> pack \<Rightarrow> bytes \<Rightarrow> 'e db \<Rightarrow> unit outcome \<times> 'e db" where
  "txn_op w st g p seq d = (case setEposTxn w st g p seq d of ((x, q), d') \<Rightarrow> (x, d'))"

definition load_op :: "'e loading \<Rightarrow> tables \<Rightarrow> 'e db \<Rightarrow> unit outcome \<times> 'e db" where
  "load_op f t d = (case f t d of (None, d') \<Rightarrow> (Exc, d') | (Some (c, t'), d') \<Rightarrow> (Code c, d'))"

lemma exec_on_back:
  assumes "getConnStat w d = (Some i, d1)" "alone w" "conns d2 = conns d1" "exec_on w i sql d2 = (x, d')" "x \<noteq> Exc"
  shows "gives_back d d'"
proof -
  obtain e d3 where q: "run_sql w i sql d2 = (e, d3)" by (cases "run_sql w i sql d2")
  have "d' = set_conn i 2 d3 \<or> d' = set_conn i 0 d3"
    using assms(4,5) q by (cases e) (auto simp: exec_on_def split: if_splits)
  then show ?thesis using gives_back_set [OF assms(1,2)] run_conns(2) [OF q] assms(3) by auto
qed

lemma setEposTxn_back:
  assumes "setEposTxn w st g p seq d = ((x, q), d')" "alone w" "x \<noteq> Exc"
  shows "gives_back d d'"
proof -
  obtain r d1 where c: "getConnStat w d = (r, d1)" by (cases "getConnStat w d")
  show ?thesis
  proof (cases r)
    case None
    with c assms have "d' = d1"
      by (auto simp: setEposTxn_def split: if_splits option.splits)
    with c None show ?thesis using gives_back_none assms(2) by blast
  next
    case (Some i)
    note bk = gives_back_set [OF c [unfolded Some] assms(2)] and ex = exec_on_back [OF c [unfolded Some] assms(2)]
    show ?thesis
    proof (cases "st = 1 \<or> st = 2 \<or> st = 3")
      case False
      then obtain sql where "exec_on w i sql d1 = (x, d')"
        using assms(1,3) c Some by (auto simp: setEposTxn_def split: option.splits prod.splits if_splits)
      with ex assms(3) show ?thesis by simp
    next
      case True
      let ?s = "asc ''select lpad(epos_txn_seq.nextval, 10,0) aaa from dual''"
      obtain rs d2 where q: "run_rs w i ?s d1 = (rs, d2)" by (cases "run_rs w i ?s d1")
      have "(d' = set_conn i 2 d2 \<or> d' = set_conn i 0 d2) \<or> (\<exists>sql. exec_on w i sql d2 = (x, d'))"
        using assms(1,3) c Some q True
        by (auto simp: setEposTxn_def split: option.splits prod.splits list.splits)
      then show ?thesis using bk [OF run_conns(1) [OF q]] ex [OF run_conns(1) [OF q] _ assms(3)] by auto
    qed
  qed
qed

interpretation txn: pooled w "txn_op w st g p seq" for w st g p seq
  by unfold_locales (auto simp: txn_op_def intro: setEposTxn_back split: prod.splits)

lemma loaded_back:
  assumes "load_op f t d = (x, d')" "alone w" "x \<noteq> Exc" "f t d = loaded (select_gen w a b v sql rd d) t" "v \<noteq> 1"
  shows "gives_back d d'"
proof -
  obtain y d2 where s: "select_gen w a b v sql rd d = (y, d2)" by (cases "select_gen w a b v sql rd d")
  have "y \<noteq> Exc" "d2 = d'"
    using assms(1,3,4) s by (cases y; auto simp: load_op_def loaded_def)+
  with select_gen_back [OF s assms(2) _ assms(5)] show ?thesis by simp
qed

lemma load_back:
  assumes "load_op f t d = (x, d')" "alone w" "x \<noteq> Exc" "f t d = load w sql n rd t d"
  shows "gives_back d d'"
  using assms(4) by (intro loaded_back [OF assms(1-3), of _ _ 2]) (auto simp: load_def select_op_def)

interpretation load_getBankInfo: pooled w "load_op (getBankInfo w) t" for w t
  by unfold_locales (rule load_back, assumption+, auto simp: getBankInfo_def)

interpretation load_getBankCard: pooled w "load_op (getBankCard w) t" for w t
  by unfold_locales (rule load_back, assumption+, auto simp: getBankCard_def)

interpretation load_getBankBusi: pooled w "load_op (getBankBusi w) t" for w t
  by unfold_locales (rule load_back, assumption+, auto simp: getBankBusi_def)

interpretation load_getEposGroup: pooled w "load_op (getEposGroup w) t" for w t
  by unfold_locales (rule load_back, assumption+, auto simp: getEposGroup_def)

interpretation load_getFavorableAirPay: pooled w "load_op (getFavorableAirPay w) t" for w t
  by unfold_locales (rule loaded_back, assumption+, auto simp: getFavorableAirPay_def)

interpretation load_getEposMenuGet: pooled w "load_op (getEposMenuGet w) t" for w t
  by unfold_locales (rule load_back, assumption+, auto simp: getEposMenuGet_def)

interpretation load_getEposMenuGroup: pooled w "load_op (getEposMenuGroup w) t" for w t
  by unfold_locales (rule load_back, assumption+, auto simp: getEposMenuGroup_def)

interpretation load_getEposMenu: pooled w "load_op (getEposMenu w) t" for w t
  by unfold_locales (rule load_back, assumption+, auto simp: getEposMenu_def)

interpretation load_getMenuConf: pooled w "load_op (getMenuConf w) t" for w t
  by unfold_locales (rule load_back, assumption+, auto simp: getMenuConf_def)

interpretation load_get_print_adv: pooled w "load_op (get_print_adv w) t" for w t
  by unfold_locales (rule loaded_back, assumption+, auto simp: get_print_adv_def)

interpretation load_getEposTips: pooled w "load_op (getEposTips w) t" for w t
  by unfold_locales (rule load_back, assumption+, auto simp: getEposTips_def)

interpretation load_getSellCardAmo: pooled w "load_op (getSellCardAmo w) t" for w t
  by unfold_locales (rule load_back, assumption+, auto simp: getSellCardAmo_def)

interpretation load_getEposMobile: pooled w "load_op (getEposMobile w) t" for w t
  by unfold_locales (rule load_back, assumption+, auto simp: getEposMobile_def)

interpretation load_getEposTurn: pooled w "load_op (getEposTurn w) t" for w t
  by unfold_locales (rule load_back, assumption+, auto simp: getEposTurn_def)

interpretation load_getEposNewMessage: pooled w "load_op (getEposNewMessage w) t" for w t
  by unfold_locales (rule load_back, assumption+, auto simp: getEposNewMessage_def)

interpretation load_getAreaBiz: pooled w "load_op (getAreaBiz w) t" for w t
  by unfold_locales (rule load_back, assumption+, auto simp: getAreaBiz_def)

interpretation load_getFailMessage: pooled w "load_op (getFailMessage w) t" for w t
  by unfold_locales (rule load_back, assumption+, auto simp: getFailMessage_def)

interpretation load_getPosAttr: pooled w "load_op (getPosAttr w) t" for w t
  by unfold_locales (rule load_back, assumption+, auto simp: getPosAttr_def)

section \<open>Sequences of calls\<close>

inductive db_call :: "'e odb \<Rightarrow> 'e db \<Rightarrow> 'e db \<Rightarrow> bool" for w :: "'e odb" where
  call_time: "finishes (getDBtime w) d d' \<Longrightarrow> db_call w d d'"
| call_day_amo: "finishes (getDayAmo w tm n0) d d' \<Longrightarrow> db_call w d d'"
| call_sum_day: "finishes (setSumDayAmo w a tm) d d' \<Longrightarrow> db_call w d d'"
| call_logon_status: "finishes (setEposLogonStatus w a tm) d d' \<Longrightarrow> db_call w d d'"
| call_pin_error: "finishes (setYCTPinErr w tm) d d' \<Longrightarrow> db_call w d d'"
| call_work_id: "finishes (checkworkID w tm wid) d d' \<Longrightarrow> db_call w d d'"
| call_yct_stat_set: "finishes (setYctStat w a q) d d' \<Longrightarrow> db_call w d d'"
| call_last_signin: "finishes (updateLastSigninStatus w tm) d d' \<Longrightarrow> db_call w d d'"
| call_yct_update: "finishes (updateYct w pk pr y q) d d' \<Longrightarrow> db_call w d d'"
| call_yct_stat: "finishes (getYctStat w tm) d d' \<Longrightarrow> db_call w d d'"
| call_yct_rev: "finishes (getYctRev w) d d' \<Longrightarrow> db_call w d d'"
| call_yct_ack: "finishes (getYctAck w q) d d' \<Longrightarrow> db_call w d d'"
| call_yct_ack_set: "finishes (setYctAck w q s h) d d' \<Longrightarrow> db_call w d d'"
| call_yct_ack_update: "finishes (updateYctAck w q s) d d' \<Longrightarrow> db_call w d d'"
| call_ecard: "finishes (getEcard w tm) d d' \<Longrightarrow> db_call w d d'"
| call_ecard_name: "finishes (getEcard_name w tm) d d' \<Longrightarrow> db_call w d d'"
| call_posno: "finishes (getPosno w c) d d' \<Longrightarrow> db_call w d d'"
| call_txn: "finishes (txn_op w st g p q) d d' \<Longrightarrow> db_call w d d'"
| call_pin: "finishes (getYctPIN2 w s0 tm) d d' \<Longrightarrow> fst (getYctPIN2 w s0 tm d) \<noteq> Code 1 \<Longrightarrow> db_call w d d'"
| call_load: "f \<in> set (table_loads w) \<Longrightarrow> finishes (load_op f t) d d' \<Longrightarrow> db_call w d d'"

lemmas finishes_ops =
  db_time.finishes_used day_amo.finishes_used sum_day.finishes_used logon_status.finishes_used
  pin_error.finishes_used work_id.finishes_used yct_stat_set.finishes_used last_signin.finishes_used
  yct_update.finishes_used yct_stat.finishes_used yct_rev.finishes_used yct_ack.finishes_used
  yct_ack_set.finishes_used yct_ack_update.finishes_used ecard.finishes_used ecard_name.finishes_used
  posno.finishes_used txn.finishes_used

lemmas finishes_loads =
  load_getBankInfo.finishes_used load_getBankCard.finishes_used load_getBankBusi.finishes_used load_getEposGroup.finishes_used
  load_getFavorableAirPay.finishes_used load_getEposMenuGet.finishes_used load_getEposMenuGroup.finishes_used load_getEposMenu.finishes_used
  load_getMenuConf.finishes_used load_get_print_adv.finishes_used load_getEposTips.finishes_used load_getSellCardAmo.finishes_used
  load_getEposMobile.finishes_used load_getEposTurn.finishes_used load_getEposNewMessage.finishes_used load_getAreaBiz.finishes_used
  load_getFailMessage.finishes_used load_getPosAttr.finishes_used

lemma db_call_used: "db_call w d d' \<Longrightarrow> alone w \<Longrightarrow> used d' = used d"
proof (induction rule: db_call.induct)
  case (call_load f t d d')
  then show ?case unfolding table_loads_def list.set insert_iff empty_iff
    by (elim disjE) (hypsubst, rule finishes_loads, assumption, assumption | simp)+
next
  case (call_pin s0 tm d d')
  then show ?case using getYctPIN2_back [of w s0 tm d "fst (getYctPIN2 w s0 tm d)" d']
    by (auto simp: finishes_def gives_back_def)
qed (rule finishes_ops, assumption+)+

text \<open>When no other thread uses the pool meanwhile, any sequence of calls of the modelled operations on the database that return (with a result or an error code, not by an exception) leaves exactly those connections in use that were in use before it.\<close>

theorem calls_give_back:
  assumes "(db_call w)\<^sup>*\<^sup>* d d'" "alone w"
  shows "used d' = used d"
  using assms(1)
  by (induction rule: rtranclp_induct) (simp_all add: db_call_used [OF _ assms(2)])


text \<open>A database with one answer to every query and no errors, and nobody else.\<close>

definition still_db :: "row \<Rightarrow> unit odb" where
  "still_db r = \<lparr>reconnect = \<lambda>i e. (False, e), get_rs = \<lambda>i s e. (Some [r], e), exec_sql = \<lambda>i s e. (False, e),
     while_asleep = \<lambda>cs e. (cs, e)\<rparr>"

lemma still_alone: "alone (still_db r)"
  by (simp add: alone_def still_db_def)

theorem calls_give_back_witness:
  "\<exists>d'. (db_call (still_db (\<lambda>_. Some (asc ''20150831''))))\<^sup>*\<^sup>* \<lparr>conns = [1, 2, 0], outside = ()\<rparr> d' \<and> used d' = {0}"
proof -
  let ?w = "still_db (\<lambda>_. Some (asc ''20150831''))" and ?d = "\<lparr>conns = [1, 2, 0], outside = ()\<rparr> :: unit db"
  have "finishes (getDBtime ?w) ?d ?d" by code_simp
  then have r: "(db_call ?w)\<^sup>*\<^sup>* ?d ?d" using call_time by blast
  moreover have "used ?d = {0}" by (simp add: used_def used_in_Cons) (simp add: used_in_def)
  ultimately show ?thesis using calls_give_back [OF r still_alone] by blast
qed

section \<open>The leak\<close>

text \<open>How many connections are free, when none is broken.\<close>

definition free :: "nat list \<Rightarrow> nat" where "free cs = count_list cs 0"

lemma scan_free01:
  "set cs \<subseteq> {0, 1} \<Longrightarrow> scan_conns w k cs e = (r, cs', e') \<Longrightarrow>
    e' = e \<and> set cs' \<subseteq> {0, 1} \<and> free cs' = free cs - 1 \<and> (r = None \<longleftrightarrow> free cs = 0)"
proof (induction w k cs e arbitrary: r cs' e' rule: scan_conns.induct)
  case (1 w i e)
  then show ?case by (simp add: free_def)
next
  case (2 w i c cs e)
  show ?case
  proof (cases "c = 0")
    case True
    with 2 show ?thesis by (auto simp: free_def)
  next
    case False
    with 2(3) have c: "c = 1" "set cs \<subseteq> {0, 1}" by auto
    obtain r2 cs2 e2 where s: "scan_conns w (Suc i) cs e = (r2, cs2, e2)" by (metis prod_cases3)
    with c 2(4) have "r = r2" "cs' = 1 # cs2" "e' = e2" by auto
    with 2(2) [OF False _ c(2) s] c show ?thesis by (auto simp: free_def)
  qed
qed

lemma try_none01:
  "set (conns d) \<subseteq> {0, 1} \<Longrightarrow> free (conns d) = 0 \<Longrightarrow> alone w \<Longrightarrow> try_conns w n d = (r, d') \<Longrightarrow>
    r = None \<and> set (conns d') \<subseteq> {0, 1} \<and> free (conns d') = 0"
proof (induction n arbitrary: d)
  case 0
  then show ?case by simp
next
  case (Suc n)
  obtain s cs e where sc: "scan_conns w 0 (conns d) (outside d) = (s, cs, e)" by (metis prod_cases3)
  note f = scan_free01 [OF Suc.prems(1) sc]
  obtain cs' e2 where sl: "while_asleep w cs e = (cs', e2)" by (cases "while_asleep w cs e")
  have "cs' = cs" using Suc.prems(3) sl unfolding alone_def by (metis fst_conv)
  with Suc.prems f sc sl have "try_conns w n (d\<lparr>conns := cs, outside := e2\<rparr>) = (r, d')" by simp
  from Suc.IH [OF _ _ Suc.prems(3) this] f Suc.prems(2) show ?case by simp
qed

lemma getConnStat01:
  assumes "set (conns d) \<subseteq> {0, 1}" "alone w" "getConnStat w d = (r, d')"
  shows "set (conns d') \<subseteq> {0, 1} \<and> free (conns d') = free (conns d) - 1 \<and> (r = None \<longleftrightarrow> free (conns d) = 0)"
proof (cases "free (conns d) = 0")
  case True
  with try_none01 [OF assms(1) True assms(2), of 5 r d'] assms(3) show ?thesis by (simp add: getConnStat_def)
next
  case False
  obtain s cs e where sc: "scan_conns w 0 (conns d) (outside d) = (s, cs, e)" by (metis prod_cases3)
  note f = scan_free01 [OF assms(1) sc]
  with False obtain i where i: "s = Some i" by auto
  have "try_conns w (Suc 4) d = (r, d')" using assms(3) unfolding getConnStat_def by simp
  then have "r = Some i \<and> conns d' = cs" using sc i unfolding try_conns.simps by auto
  with f False show ?thesis by simp
qed

text \<open>What the PIN query of a blocked terminal leaves behind.\<close>

lemma pin_leak_step:
  assumes "set (conns d) \<subseteq> {0, 1}" "alone w" "\<forall>i s e. \<exists>rs e'. get_rs w i s e = (Some (r # rs), e')"
    "r ''status'' = Some st" "sint (atoi32 st) \<noteq> 0" "length (asc ''select * from yct_isam where term_id = '' @ sq tm) < 500"
  shows "set (conns (snd (getYctPIN2 w s0 tm d))) \<subseteq> {0, 1}
    \<and> free (conns (snd (getYctPIN2 w s0 tm d))) = free (conns d) - 1"
proof -
  let ?s = "asc ''select * from yct_isam where term_id = '' @ sq tm"
  obtain c d1 where g: "getConnStat w d = (c, d1)" by (cases "getConnStat w d")
  note f = getConnStat01 [OF assms(1,2) g]
  have "conns (snd (getYctPIN2 w s0 tm d)) = conns d1"
  proof (cases c)
    case None
    with g assms(6) show ?thesis by (simp add: getYctPIN2_def)
  next
    case (Some i)
    obtain rs e' where q: "get_rs w i ?s (outside d1) = (Some (r # rs), e')" using assms(3) by blast
    have "run_rs w i ?s d1 = (Some (r # rs), d1\<lparr>outside := e'\<rparr>)" by (simp add: run_rs_def q)
    with g Some assms(4-6) show ?thesis by (simp add: getYctPIN2_def Let_def)
  qed
  with f show ?thesis by simp
qed

text \<open>C21: the query of the PIN of a terminal whose PIN is blocked does not give its connection back: when nobody else uses the pool, as many such queries as there are free connections leave none, and from then on no connection is to be had.\<close>

theorem blocked_pin_exhausts:
  assumes "set (conns d) \<subseteq> {0, 1}" "alone w" "\<forall>i s e. \<exists>rs e'. get_rs w i s e = (Some (r # rs), e')"
    "r ''status'' = Some st" "sint (atoi32 st) \<noteq> 0" "length (asc ''select * from yct_isam where term_id = '' @ sq tm) < 500"
    "free (conns d) \<le> n"
  shows "fst (getConnStat w (((\<lambda>d. snd (getYctPIN2 w s0 tm d)) ^^ n) d)) = None"
proof -
  let ?f = "\<lambda>d. snd (getYctPIN2 w s0 tm d)"
  have "set (conns ((?f ^^ n) d)) \<subseteq> {0, 1} \<and> free (conns ((?f ^^ n) d)) = free (conns d) - n"
  proof (induction n)
    case 0
    then show ?case using assms(1) by simp
  next
    case (Suc n)
    then show ?case using pin_leak_step [OF _ assms(2-6), of "(?f ^^ n) d" s0] by simp
  qed
  with assms(7) have s: "set (conns ((?f ^^ n) d)) \<subseteq> {0, 1}" "free (conns ((?f ^^ n) d)) = 0" by simp_all
  obtain c d1 where g: "getConnStat w ((?f ^^ n) d) = (c, d1)" by (cases "getConnStat w ((?f ^^ n) d)")
  with getConnStat01 [OF s(1) assms(2) g] s(2) show ?thesis by simp
qed

theorem blocked_pin_exhausts_witness:
  "fst (getConnStat (still_db (\<lambda>_. Some (asc ''1''))) (((\<lambda>d. snd (getYctPIN2 (still_db (\<lambda>_. Some (asc ''1''))) 0 (asc ''60000001'') d)) ^^ 10)
     \<lparr>conns = replicate 10 0, outside = ()\<rparr>)) = None"
proof (rule blocked_pin_exhausts [where r = "\<lambda>_. Some (asc ''1'')" and st = "asc ''1''"])
  show "\<forall>i s e. \<exists>rs e'. get_rs (still_db (\<lambda>_. Some (asc ''1''))) i s e = (Some ((\<lambda>_. Some (asc ''1'')) # rs), e')"
    by (simp add: still_db_def)
  show "sint (atoi32 (asc ''1'')) \<noteq> 0" by code_simp
  show "length (asc ''select * from yct_isam where term_id = '' @ sq (asc ''60000001'')) < 500" by code_simp
  show "free (conns (\<lparr>conns = replicate 10 0, outside = ()\<rparr> :: unit db)) \<le> 10" by code_simp
qed (simp_all add: still_alone)

end
