(* ===== verification/DbUpdates.thy ===== *)
theory DbUpdates
  imports DbProofs ToolsText
begin

text \<open>
  The single changes of \<open>src/CTSI/DB.cpp\<close>: the routines that write one statement with \<open>ExecuteSQL\<close>. They
  differ in the text of the statement, in the size of the buffer the text is written into, in whether it is
  written before (\<open>in_buf\<close> with \<open>update_op\<close>) or after (\<open>update_buf\<close>) a connection is taken, and in the code of a
  failed statement. All of them keep the contract \<open>pooled\<close>, with the operations of \<open>DbProofs\<close> in any order.
\<close>

section \<open>Texts\<close>

definition sqi :: "int \<Rightarrow> bytes" where "sqi n = sq (int_txt n)"

text \<open>Values separated by a comma and a blank.\<close>

fun comma_list :: "bytes list \<Rightarrow> bytes" where
  "comma_list [] = []"
| "comma_list [x] = x"
| "comma_list (x # y # r) = x @ 0x2C # 0x20 # comma_list (y # r)"

section \<open>Terminals\<close>

definition update_epos_term :: "'e odb \<Rightarrow> bytes \<Rightarrow> bytes \<Rightarrow> 'e db \<Rightarrow> unit outcome \<times> 'e db" where
  "update_epos_term w term_id st = update_buf w (-1) 300
     (asc ''update epos_term set status='' @ sq st @ asc '' where term_id = '' @ sq term_id)"

definition updateDayAmo :: "'e odb \<Rightarrow> bytes \<Rightarrow> int \<Rightarrow> 'e db \<Rightarrow> unit outcome \<times> 'e db" where
  "updateDayAmo w term_id amo = update_buf w (-1) 300
     (asc ''update epos_term set dayamo='' @ int_txt amo @ asc '' where term_id = '' @ sq term_id)"

definition update_input_times :: "'e odb \<Rightarrow> bytes \<Rightarrow> int \<Rightarrow> 'e db \<Rightarrow> unit outcome \<times> 'e db" where
  "update_input_times w term_id input_times = update_buf w (-1) 300
     (asc ''update epos_term set input_times='' @ sqi input_times @ asc '' where term_id = '' @ sq term_id)"

definition update_HID_type :: "'e odb \<Rightarrow> bytes \<Rightarrow> int \<Rightarrow> 'e db \<Rightarrow> unit outcome \<times> 'e db" where
  "update_HID_type w term_id HID_TYPE = update_buf w (-1) 300
     (asc ''update epos_term set HID_TYPE='' @ sqi HID_TYPE @ asc '' where term_id = '' @ sq term_id)"

definition update_print_paper :: "'e odb \<Rightarrow> bytes \<Rightarrow> int \<Rightarrow> 'e db \<Rightarrow> unit outcome \<times> 'e db" where
  "update_print_paper w term_id print_paper = update_buf w (-1) 300
     (asc ''update epos_term set print_paper='' @ sqi print_paper @ asc '' where term_id = '' @ sq term_id)"

definition update_commission_free :: "'e odb \<Rightarrow> bytes \<Rightarrow> int \<Rightarrow> 'e db \<Rightarrow> unit outcome \<times> 'e db" where
  "update_commission_free w term_id commission_free = update_buf w (-1) 300
     (asc ''update epos_term set commission_free='' @ sqi commission_free @ asc '' where term_id = '' @ sq term_id)"

definition setworkID :: "'e odb \<Rightarrow> gbl \<Rightarrow> bytes \<Rightarrow> 'e db \<Rightarrow> unit outcome \<times> 'e db" where
  "setworkID w g workid = (let sql = asc ''UPDATE epos_term SET curworkid='' @ sq workid @ asc '' WHERE Term_id='' @ sq (pos_no g) in
     in_buf 512 sql (update_op w (-4) sql))"

definition setAgreeFlag :: "'e odb \<Rightarrow> int \<Rightarrow> bytes \<Rightarrow> 'e db \<Rightarrow> unit outcome \<times> 'e db" where
  "setAgreeFlag w agreeFlag term_id = (let sql = asc ''UPDATE  epos_term SET agree_flag='' @ sqi agreeFlag
       @ asc '' WHERE term_id='' @ sq term_id in
     in_buf 512 sql (update_op w (-4) sql))"

definition setEncryptType :: "'e odb \<Rightarrow> int \<Rightarrow> int \<Rightarrow> bytes \<Rightarrow> 'e db \<Rightarrow> unit outcome \<times> 'e db" where
  "setEncryptType w encrypt_type sqlType term_id = (let sql =
       (if sqlType = 1 then asc ''UPDATE tv_user_info SET encrypt_type='' @ sqi encrypt_type
          @ asc '',mark_time=sysdate WHERE payeasyid='' @ sq term_id
        else asc ''INSERT INTO tv_user_info(payeasyid,encrypt_type,mark_time) VALUES(''
          @ commas [sq term_id, sqi encrypt_type] @ asc '',sysdate)'') in
     in_buf 512 sql (update_op w (-4) sql))"

definition setIposPromo :: "'e odb \<Rightarrow> bytes \<Rightarrow> bytes \<Rightarrow> int \<Rightarrow> 'e db \<Rightarrow> unit outcome \<times> 'e db" where
  "setIposPromo w term_id pro_id remain_count = update_buf w (-4) 1024
     (asc ''update ipos_promo set remain_account='' @ int_txt remain_count @ asc '' where term_id='' @ sq term_id
       @ asc ''and promot_id='' @ sq pro_id)"

section \<open>Printing again, and the management of cards\<close>

text \<open>The number of the transaction inside the text to print is marked with a \<open>#\<close>.\<close>

definition setRePrint :: "'e odb \<Rightarrow> bytes \<Rightarrow> bytes \<Rightarrow> bytes \<Rightarrow> int \<Rightarrow> bytes \<Rightarrow> int \<Rightarrow> 'e db \<Rightarrow> unit outcome \<times> 'e db" where
  "setRePrint w stan term_id cardno iseny pMsg tgroup d = (let newStan = 0x23 # cstr stan in
     if length newStan \<ge> 15 then (Exc, d) else
     (case CSreplace (cstr pMsg) (cstr stan) newStan 1 of None \<Rightarrow> (Exc, d)
      | Some msg \<Rightarrow> (let sql = asc ''insert into reprint(stan,txn_date,tgroup,term_id,card_no,iseny,isprint,pMsg) values(''
          @ comma_list [sq stan, asc ''sysdate'', int_txt tgroup, sq term_id, sq cardno, int_txt iseny, asc ''0'', sq msg]
          @ asc '')'' in
        in_buf 2300 sql (update_op w (-1) sql) d)))"

definition updateRePrint :: "'e odb \<Rightarrow> bytes \<Rightarrow> bytes \<Rightarrow> bytes \<Rightarrow> 'e db \<Rightarrow> unit outcome \<times> 'e db" where
  "updateRePrint w stan term_id cardno = update_buf w (-1) 500
     (asc ''update reprint set isprint=1 where term_id='' @ sq term_id
       @ asc '' and txn_date = (select max(txn_date) from reprint,epos_group where isprint=0 and txn_date>trunc(sysdate)-7 and term_id=''
       @ sq term_id @ asc '' and card_no='' @ sq cardno @ asc '' and (epos_group.group_type=1 or stan = '' @ sq stan
       @ asc '') and reprint.tgroup=epos_group.tgroup )'')"

definition updateEcardTxn :: "'e odb \<Rightarrow> bytes \<Rightarrow> 'e db \<Rightarrow> unit outcome \<times> 'e db" where
  "updateEcardTxn w event_seq = update_buf w (-1) 300
     (asc ''update mag_ecard_txn set show_flag=0 where event_seq = '' @ sq event_seq)"

section \<open>Bus cards\<close>

record dgt_card =
  BATCHNO :: bytes
  SETDATE :: bytes
  AUTHSEQ :: bytes
  LIMITEAUTHSEQL :: bytes
  KEEP :: bytes

text \<open>The members of \<open>CGlobal\<close> that the bus trades use.\<close>

record bus_gbl = tgbl +
  bus_serial :: bytes
  bus_enq_stan :: bytes
  bus_card :: bytes
  bus_old_amo :: bytes
  bus_pay_amo :: bytes
  bus_new_amo :: bytes
  bus_date :: bytes
  bus_time :: bytes
  bus_card_info :: bytes
  bus_selltype :: bytes
  dkq_code :: bytes
  dkq_PSAM :: bytes
  bus_yj_amo :: bytes
  title_flag :: int
  TRANSSEQ :: bytes
  SYSTEMNO :: bytes
  dgtCard :: dgt_card

text \<open>The texts in hexadecimal are made after the connection is taken.\<close>

definition or_exc :: "'e odb \<Rightarrow> bytes option \<Rightarrow> (bytes \<Rightarrow> 'e db \<Rightarrow> unit outcome \<times> 'e db) \<Rightarrow> 'e db \<Rightarrow> unit outcome \<times> 'e db" where
  "or_exc w x f d = (case x of Some b \<Rightarrow> f b d
     | None \<Rightarrow> (case getConnStat w d of (None, d1) \<Rightarrow> (Code (-1), d1) | (Some i, d1) \<Rightarrow> (Exc, d1)))"

definition set_DGBus_Txn :: "'e odb \<Rightarrow> bus_gbl \<Rightarrow> 'e db \<Rightarrow> unit outcome \<times> 'e db" where
  "set_DGBus_Txn w g = or_exc w (byte_to_hex (bus_card_info g) 48) (\<lambda>info. or_exc w (byte_to_hex (dkq_code g) 4) (\<lambda>code.
     update_buf w (-4) 10000
       (asc ''INSERT INTO DGBus_txn(term_id, term_serial, phone, stan, bus_enq_stan, bus_biz, bank, bank_card, bus_card, old_amo, pay_amo, new_amo, bus_date, bus_time, status, amount, bus_card_info, bus_selltype,dkq_code,dkq_psam,yj_amo) VALUES(''
        @ comma_list [sq (pos_no g), sq (bus_serial g), sq (call_tel g), sq (stan_no g), sq (bus_enq_stan g), sq (fee_type g),
            sq (bank g), sq (card_no g), sq (bus_card g), sq (bus_old_amo g), sq (bus_pay_amo g), sq (asc ''00000000''),
            sq (bus_date g), sq (bus_time g), sq (asc ''0''), sq (amount g), sq info, sq (bus_selltype g), sq code,
            sq (dkq_PSAM g), sq (bus_yj_amo g)]
        @ asc '')'')))"

definition update_DGBus_Txn :: "'e odb \<Rightarrow> bus_gbl \<Rightarrow> bytes \<Rightarrow> 'e db \<Rightarrow> unit outcome \<times> 'e db" where
  "update_DGBus_Txn w g st = or_exc w (byte_to_hex (bus_card_info g) 48) (\<lambda>info. update_buf w (-4) 1024
     (asc ''update DGBus_txn set new_amo='' @ comma_list [sq (bus_new_amo g), asc ''status='' @ sq st, asc ''bus_card_info='' @ sq info]
       @ asc '' where status not in ('' @ commas [sq (asc ''2''), sq (asc ''5''), sq (asc ''10'')]
       @ asc '') and bus_enq_stan='' @ sq (bus_enq_stan g)))"

definition update_title_flag :: "'e odb \<Rightarrow> bus_gbl \<Rightarrow> 'e db \<Rightarrow> unit outcome \<times> 'e db" where
  "update_title_flag w g = or_exc w (byte_to_hex (bus_card_info g) 48) (\<lambda>_. update_buf w (-4) 1024
     (asc ''update epos_term set title_flag='' @ int_txt (title_flag g) @ asc '' where term_id='' @ sq (pos_no g)))"

definition update_dgtTxnLog :: "'e odb \<Rightarrow> bytes \<Rightarrow> int \<Rightarrow> 'e db \<Rightarrow> unit outcome \<times> 'e db" where
  "update_dgtTxnLog w orderId st = update_buf w (-1) 300
     (asc ''update dgt_txn_log set status='' @ sqi st @ asc '' where APTRANSSEQ ='' @ sq orderId)"

definition update_cardIgoreStatus :: "'e odb \<Rightarrow> bytes \<Rightarrow> bytes \<Rightarrow> 'e db \<Rightarrow> unit outcome \<times> 'e db" where
  "update_cardIgoreStatus w cardno st = update_buf w (-1) 1024
     (asc ''update dgt_card_igoreList set status='' @ sq st @ asc '' where bus_card ='' @ sq cardno)"

definition update_dgtTxnStatusByKeep :: "'e odb \<Rightarrow> bytes \<Rightarrow> int \<Rightarrow> 'e db \<Rightarrow> unit outcome \<times> 'e db" where
  "update_dgtTxnStatusByKeep w keep st = update_buf w (-1) 300
     (asc ''update dgt_txn_log set status='' @ sqi st @ asc '' where keep ='' @ sq keep)"

definition update_dgtTxnLogByStan :: "'e odb \<Rightarrow> bytes \<Rightarrow> int \<Rightarrow> 'e db \<Rightarrow> unit outcome \<times> 'e db" where
  "update_dgtTxnLogByStan w sysyno st = update_buf w (-1) 300
     (asc ''update dgt_txn_log set status='' @ sqi st @ asc '' where STAN ='' @ sq sysyno)"

definition update_dgtTxnLog_byKeep :: "'e odb \<Rightarrow> bus_gbl \<Rightarrow> 'e db \<Rightarrow> unit outcome \<times> 'e db" where
  "update_dgtTxnLog_byKeep w g = update_buf w (-1) 1024
     (asc ''update DGT_TXN_LOG t set BATCHNO='' @ sq (BATCHNO (dgtCard g)) @ asc '',SETTIME='' @ sq (SETDATE (dgtCard g))
       @ asc '', AUTHSEQ='' @ sq (AUTHSEQ (dgtCard g)) @ asc '', LIMITEDAUTHSEQL='' @ sq (LIMITEAUTHSEQL (dgtCard g))
       @ asc '' ,APTRANSSEQ='' @ sq (TRANSSEQ g) @ asc '',STAN='' @ sq (SYSTEMNO g) @ asc ''where keep='' @ sq (KEEP (dgtCard g)))"

definition updateM1CardStatus :: "'e odb \<Rightarrow> bytes \<Rightarrow> bytes \<Rightarrow> 'e db \<Rightarrow> unit outcome \<times> 'e db" where
  "updateM1CardStatus w M1CardId cardStatus = update_buf w (-4) 512
     (asc ''update dgt_transfer_log t set t.card_status='' @ sq cardStatus @ asc '' where t.m1_card='' @ sq M1CardId)"

definition updateTranOrderStatus :: "'e odb \<Rightarrow> bytes \<Rightarrow> bytes \<Rightarrow> 'e db \<Rightarrow> unit outcome \<times> 'e db" where
  "updateTranOrderStatus w Centerseqno orderStatus = update_buf w (-1) 1024
     (asc ''update dgt_transfer_log t set  order_status ='' @ sq orderStatus @ asc ''  where centerseqno='' @ sq Centerseqno @ asc '' '')"

definition setdgtResubmit :: "'e odb \<Rightarrow> bytes \<Rightarrow> bytes \<Rightarrow> 'e db \<Rightarrow> unit outcome \<times> 'e db" where
  "setdgtResubmit w centerseqno unSubmitField = update_buf w (-1) 1024
     (asc ''update dgt_transfer_log t  set t.resubmit='' @ sq unSubmitField @ asc '' where t.centerseqno='' @ sq centerseqno)"

section \<open>Sign-on of the bus terminals\<close>

record dgt_sign =
  BATCHNO :: bytes
  sign_status :: int
  TOTALSVNUM :: bytes
  TOTALSVAMT :: bytes
  TOTALSALEDEP :: bytes
  LOG_SEQ :: bytes

definition sign_key :: "dgt_sign \<Rightarrow> bytes \<Rightarrow> bytes" where
  "sign_key s term_id = asc '' where BATCHNO = '' @ sq (BATCHNO s) @ asc '' and term_id='' @ sq term_id @ asc '' and LOG_SEQ='' @ sq (LOG_SEQ s) @ asc '' ''"

definition update_dgtSignInfo :: "'e odb \<Rightarrow> bytes \<Rightarrow> dgt_sign \<Rightarrow> 'e db \<Rightarrow> unit outcome \<times> 'e db" where
  "update_dgtSignInfo w term_id s = update_buf w (-1) 300
     (asc ''update dgt_sign_log set  TOTALSVNUM = '' @ sq (TOTALSVNUM s) @ asc '',TOTALSVAMT='' @ sq (TOTALSVAMT s)
       @ asc '',TOTALSALEDEP='' @ sq (TOTALSALEDEP s) @ sign_key s term_id)"

definition update_dgtSignData :: "'e odb \<Rightarrow> dgt_sign \<Rightarrow> bytes \<Rightarrow> 'e db \<Rightarrow> unit outcome \<times> 'e db" where
  "update_dgtSignData w s term_id = update_buf w (-1) 300
     (asc ''update dgt_sign_log set TOTALSVNUM = '' @ sq (TOTALSVNUM s) @ asc '', TOTALSVAMT ='' @ sq (TOTALSVAMT s)
       @ asc '' ,TOTALSALEDEP='' @ sq (TOTALSALEDEP s) @ sign_key s term_id)"

text \<open>The record of the caller is changed whatever the outcome.\<close>

definition update_signOutInfo :: "'e odb \<Rightarrow> bytes \<Rightarrow> dgt_sign \<Rightarrow> 'e db \<Rightarrow> (unit outcome \<times> dgt_sign) \<times> 'e db" where
  "update_signOutInfo w term_id s0 d = (let s = s0\<lparr>sign_status := 1\<rparr> in
     case update_buf w (-1) 300 (asc ''update dgt_sign_log set SIGN_STATUS = '' @ sqi (sign_status s)
       @ asc '',sign_out_time=sysdate '' @ sign_key s term_id) d of (x, d') \<Rightarrow> ((x, s), d'))"

section \<open>Approval of payments\<close>

definition updateXjxTxnStatus :: "'e odb \<Rightarrow> int \<Rightarrow> bytes \<Rightarrow> 'e db \<Rightarrow> unit outcome \<times> 'e db" where
  "updateXjxTxnStatus w iStatus XjxSeq = update_buf w (-1) 300
     (asc ''update xjx_txn set status='' @ sqi iStatus @ asc '' where xjx_seq = '' @ sq XjxSeq)"

definition updXjxStanRspcode :: "'e odb \<Rightarrow> bytes \<Rightarrow> bytes \<Rightarrow> bytes \<Rightarrow> 'e db \<Rightarrow> unit outcome \<times> 'e db" where
  "updXjxStanRspcode w XjxSeq rspcode stan = update_buf w (-1) 300
     (asc ''update xjx_txn set stan = '' @ sq stan @ asc '', rsp_code = '' @ sq rspcode @ asc '' where xjx_seq = '' @ sq XjxSeq)"

definition xjx_set_checkamount :: "'e odb \<Rightarrow> int \<Rightarrow> bytes \<Rightarrow> 'e db \<Rightarrow> unit outcome \<times> 'e db" where
  "xjx_set_checkamount w ilevel amo = update_buf w (-1) 300
     (asc ''update xjx_check_cfg set check_amount = '' @ sq amo @ asc '', recently_upd_date = sysdate where check_level = '' @ sqi ilevel)"

definition xjx_update_staff :: "'e odb \<Rightarrow> int \<Rightarrow> bytes \<Rightarrow> 'e db \<Rightarrow> unit outcome \<times> 'e db" where
  "xjx_update_staff w ilevel staff_id = update_buf w (-1) 300
     (asc ''update xjx_user set user_id = '' @ sq staff_id @ asc '', recently_upd_date = sysdate where user_type = '' @ sqi ilevel)"

definition xjx_add_account :: "'e odb \<Rightarrow> bytes \<Rightarrow> bytes \<Rightarrow> bytes \<Rightarrow> 'e db \<Rightarrow> unit outcome \<times> 'e db" where
  "xjx_add_account w account acc_name acc_bank = update_buf w (-1) 300
     (asc ''insert into xjx_account values ('' @ commas [sq account, sq acc_name, sq acc_bank] @ asc '')'')"

text \<open>With another flag an empty statement is executed.\<close>

definition xjx_set_account :: "'e odb \<Rightarrow> int \<Rightarrow> bytes \<Rightarrow> 'e db \<Rightarrow> unit outcome \<times> 'e db" where
  "xjx_set_account w flag account = update_buf w (-1) 300
     (if flag = 0 then asc ''update xjx_account_cfg set out_acc_num = '' @ sq account @ asc '' where row_id = 1''
      else if flag = 1 then asc ''update xjx_account_cfg set in_acc_num = '' @ sq account @ asc '' where row_id = 1''
      else [])"

definition xjx_upd_password :: "'e odb \<Rightarrow> int \<Rightarrow> bytes \<Rightarrow> 'e db \<Rightarrow> unit outcome \<times> 'e db" where
  "xjx_upd_password w iusertype new_pwd = update_buf w (-1) 300
     (asc ''update xjx_user set password = '' @ sq new_pwd @ asc '' where user_type = '' @ int_txt iusertype)"

text \<open>Who has checked a payment: level 2 or 3, by the new status for most of them. Other statuses, and the
  first two of a level other than 2 and 3, execute an empty statement.\<close>

definition check_text :: "bytes \<Rightarrow> bytes \<Rightarrow> bytes \<Rightarrow> bytes \<Rightarrow> bytes \<Rightarrow> bytes" where
  "check_text seq level st term_id reason =
     (let s = sint (atoi32 st); l = sint (atoi32 level);
          upd = asc ''update xjx_txn set status = '' @ sq st;
          by = (\<lambda>col. upd @ asc '','' @ asc col @ asc '' = '' @ sq term_id);
          key = asc '' where xjx_seq = '' @ sq seq in
      if s = 0 \<or> s = 1 then
        (if l = 3 then by ''LLLcheck_term_id'' @ key else if l = 2 then by ''LLcheck_term_id'' @ key else [])
      else if s = 3 \<or> s = 5 then by ''LLcheck_term_id'' @ key
      else if s = 4 \<or> s = 6 then by ''LLLcheck_term_id'' @ asc '',not_pass_reason = '' @ sq reason @ key
      else [])"

definition xjx_update_checkstatus :: "'e odb \<Rightarrow> bytes \<Rightarrow> bytes \<Rightarrow> bytes \<Rightarrow> bytes \<Rightarrow> bytes \<Rightarrow> 'e db \<Rightarrow> unit outcome \<times> 'e db" where
  "xjx_update_checkstatus w xjx_seq level st term_id reason =
     update_buf w (-1) 300 (check_text xjx_seq level st term_id reason)"

section \<open>Smart cards\<close>

record yct_data =
  stan :: bytes
  txn_date :: bytes
  txn_time :: bytes
  biz_type :: bytes
  status :: int
  term_id :: bytes
  term_serial :: bytes
  bank :: bytes
  card_no :: bytes
  amount :: bytes
  yct_serial :: bytes
  pki_card :: bytes
  ticket_no :: bytes
  ticket_amo_bef :: bytes
  ticket_amo_aft :: bytes
  result_message :: bytes
  SKEY :: bytes
  SHID :: bytes
  yct_sequence_NO :: int
  yct_stan :: bytes
  result_message_third :: bytes
  yct_ack :: int

definition setYctThirdStatus :: "'e odb \<Rightarrow> int \<Rightarrow> bytes \<Rightarrow> 'e db \<Rightarrow> unit outcome \<times> 'e db" where
  "setYctThirdStatus w st seq = update_buf w (-1) 512
     (asc ''UPDATE yctyp_txn SET status='' @ int_txt st @ asc '' WHERE stan='' @ sq seq)"

definition updateYctuntxn :: "'e odb \<Rightarrow> yct_data \<Rightarrow> bytes \<Rightarrow> 'e db \<Rightarrow> unit outcome \<times> 'e db" where
  "updateYctuntxn w y seq = update_buf w (-4) 512
     (asc ''UPDATE YCTYP_TXN SET status='' @ sqi (status y) @ asc '',ticket_amo_aft='' @ sq (ticket_amo_aft y)
       @ asc '' where stan='' @ sq seq)"

definition updateYctRollback :: "'e odb \<Rightarrow> yct_data \<Rightarrow> bytes \<Rightarrow> 'e db \<Rightarrow> unit outcome \<times> 'e db" where
  "updateYctRollback w y message = update_buf w (-4) 512
     (asc ''UPDATE YCTYP_TXN SET result_message='' @ sq message @ asc '' where stan='' @ sq (yct_stan y))"

definition updateYctResultMsg :: "'e odb \<Rightarrow> yct_data \<Rightarrow> bytes \<Rightarrow> 'e db \<Rightarrow> unit outcome \<times> 'e db" where
  "updateYctResultMsg w y message = update_buf w (-4) 512
     (asc ''UPDATE YCTYP_TXN SET result_message='' @ sq message @ asc '' where stan='' @ sq (yct_stan y))"

text \<open>The number of the smart card's transaction: decimal for a server of version 3, else as it is.\<close>

definition dec_yct_stan :: "int \<Rightarrow> yct_data \<Rightarrow> bytes option" where
  "dec_yct_stan YCT_VER y = (if YCT_VER = 3 then Some (HexToDec (yct_serial y) 16)
     else if length (cstr (yct_serial y)) \<le> 16 then Some (cstr (yct_serial y)) else None)"

text \<open>The statement of \<open>updateYctYPData\<close> and \<open>updateYctThirdData\<close>.\<close>

definition yct_text :: "yct_data \<Rightarrow> bytes \<Rightarrow> bytes \<Rightarrow> bytes \<Rightarrow> bytes" where
  "yct_text y sep serial message = asc ''update yctyp_txn set status='' @ int_txt (status y) @ sep
     @ comma_list ((asc ''yct_ack='' @ int_txt (yct_ack y)) # map (\<lambda>(c, v). asc c @ asc ''='' @ sq v)
        [(''term_id'', term_id y), (''term_serial'', term_serial y), (''bank'', bank y), (''card_no'', card_no y),
         (''amount'', amount y), (''yct_serial'', serial), (''pki_card'', pki_card y), (''ticket_no'', ticket_no y),
         (''ticket_amo_bef'', ticket_amo_bef y), (''ticket_amo_aft'', ticket_amo_aft y), (''result_message'', message)])
     @ asc '' where stan='' @ sq (stan y)"

definition updateYctYPData :: "'e odb \<Rightarrow> int \<Rightarrow> yct_data \<Rightarrow> 'e db \<Rightarrow> unit outcome \<times> 'e db" where
  "updateYctYPData w YCT_VER y d = (case dec_yct_stan YCT_VER y of None \<Rightarrow> (Exc, d)
     | Some dec \<Rightarrow> (let sql = yct_text y (asc '', '') dec (result_message y) in in_buf 2000 sql (update_op w (-1) sql) d))"

definition updateYctThirdData :: "'e odb \<Rightarrow> yct_data \<Rightarrow> 'e db \<Rightarrow> unit outcome \<times> 'e db" where
  "updateYctThirdData w y = (let sql = yct_text y (asc '','') (yct_serial y) (result_message_third y) in
     in_buf 512 sql (update_op w (-1) sql))"

definition setYctYPData :: "'e odb \<Rightarrow> int \<Rightarrow> yct_data \<Rightarrow> 'e db \<Rightarrow> unit outcome \<times> 'e db" where
  "setYctYPData w YCT_VER y d = (case dec_yct_stan YCT_VER y of None \<Rightarrow> (Exc, d)
     | Some dec \<Rightarrow> update_buf w (-4) 1024
         (asc ''INSERT INTO YCTYP_txn(stan,txn_time,biz_type,status,term_id,term_serial,bank,card_no,amount,yct_serial,pki_card,ticket_no,ticket_amo_bef,ticket_amo_aft,result_message) VALUES(''
          @ commas [sq (stan y), asc ''to_date('' @ sq (cstr (txn_date y) @ cstr (txn_time y)) @ asc '','' @ sq (asc ''yyyymmddhh24miss'') @ asc '')'',
              sq (biz_type y), int_txt (status y), sq (term_id y), sq (term_serial y), sq (bank y), sq (card_no y), sq (amount y),
              sq dec, sq (pki_card y), sq (ticket_no y), sq (ticket_amo_bef y), sq (ticket_amo_aft y), sq (result_message y)]
          @ asc '')'') d)"

text \<open>The line breaks of the source leave two tabulators each in the statement.\<close>

definition insetYctYPtxnDATA :: "'e odb \<Rightarrow> yct_data \<Rightarrow> bytes \<Rightarrow> int \<Rightarrow> 'e db \<Rightarrow> unit outcome \<times> 'e db" where
  "insetYctYPtxnDATA w y seq charge_type = update_buf w (-4) 1024
     (asc ''INSERT INTO YCTYP_TXN(stan,txn_time,biz_type,status,term_id,term_serial,bank,card_no,'' @ [9, 9]
       @ asc ''amount,yct_serial,pki_card,ticket_no,ticket_amo_bef,ticket_amo_aft,result_message,charge_type)'' @ [9, 9]
       @ asc ''VALUES('' @ commas [sq (HexToDec seq 12), asc ''sysdate'', sq (biz_type y), sqi (status y), sq (term_id y),
           sq (term_serial y), sq (bank y), sq (card_no y), sq (amount y), sq (HexToDec (yct_serial y) 16), sq (pki_card y),
           sq (ticket_no y), sq (ticket_amo_bef y), sq (ticket_amo_aft y), sq (result_message y), sqi charge_type]
       @ asc '')'')"

definition updateYctTxnStatus :: "'e odb \<Rightarrow> int \<Rightarrow> bytes \<Rightarrow> bytes \<Rightarrow> 'e db \<Rightarrow> unit outcome \<times> 'e db" where
  "updateYctTxnStatus w YCT_VER seq st d = (if YCT_VER = 3 then
       (let dec = HexToDec seq 16; sql = asc ''update yctyp_txn set status='' @ sq st @ asc '' where stan = '' @ sq dec
          @ asc ''  or yct_serial = '' @ sq dec in
        in_buf 512 sql (update_op w (-1) sql) d)
     else (Code (-1), d))"

text \<open>A sequence number of more than eight places overruns its buffer.\<close>

definition seq_no :: "int \<Rightarrow> bytes option" where
  "seq_no n = (if length (int_txt n) \<le> 8 then Some (int_txt n) else None)"

definition updateYct3SequenceNo :: "'e odb \<Rightarrow> bytes \<Rightarrow> int \<Rightarrow> 'e db \<Rightarrow> unit outcome \<times> 'e db" where
  "updateYct3SequenceNo w tm n d = (case seq_no n of None \<Rightarrow> (Exc, d)
     | Some q \<Rightarrow> (let sql = asc ''update yctyp_signin set sequence_no = '' @ sq q @ asc '' where term_id = '' @ sq tm in
         in_buf 1024 sql (update_op w (-1) sql) d))"

text \<open>\<open>SHID\<close> is put into the statements as it is; its hexadecimal form is made and not used.\<close>

definition sign_texts :: "yct_data \<Rightarrow> (bytes \<times> bytes) option" where
  "sign_texts y = do { q \<leftarrow> seq_no (yct_sequence_NO y); k \<leftarrow> byte_to_hex (SKEY y) 16; _ \<leftarrow> byte_to_hex (SHID y) 8; Some (q, k) }"

definition insertYct3SignInfo :: "'e odb \<Rightarrow> bytes \<Rightarrow> yct_data \<Rightarrow> 'e db \<Rightarrow> unit outcome \<times> 'e db" where
  "insertYct3SignInfo w tm y d = (case sign_texts y of None \<Rightarrow> (Exc, d)
     | Some (q, k) \<Rightarrow> (let sql = asc ''insert into yctyp_signin values('' @ commas [sq tm, sq (pki_card y), sq (SHID y), asc ''sysdate'', sq k, sq q]
         @ asc '')'' in in_buf 1024 sql (update_op w (-1) sql) d))"

definition updateYct3SignInfo :: "'e odb \<Rightarrow> bytes \<Rightarrow> yct_data \<Rightarrow> bytes \<Rightarrow> 'e db \<Rightarrow> unit outcome \<times> 'e db" where
  "updateYct3SignInfo w tm y cur_signTime d = (case sign_texts y of None \<Rightarrow> (Exc, d)
     | Some (q, k) \<Rightarrow> (let sql = asc ''update yctyp_signin set signin_serial = '' @ sq (SHID y) @ asc '',signin_time = '' @ sq cur_signTime
         @ asc '',skey = '' @ sq k @ asc '',sequence_no = '' @ sq q @ asc '' where term_id = '' @ sq tm in
         in_buf 1024 sql (update_op w (-1) sql) d))"

section \<open>The contract\<close>

text \<open>The changes; \<open>update_signOutInfo\<close> without the record it returns.\<close>

definition sign_out_op :: "'e odb \<Rightarrow> bytes \<Rightarrow> dgt_sign \<Rightarrow> 'e db \<Rightarrow> unit outcome \<times> 'e db" where
  "sign_out_op w tm s d = (case update_signOutInfo w tm s d of ((x, _), d') \<Rightarrow> (x, d'))"

inductive updating :: "'e odb \<Rightarrow> ('e db \<Rightarrow> unit outcome \<times> 'e db) \<Rightarrow> bool" for w :: "'e odb" where
  upd_update_epos_term: "updating w (update_epos_term w x1 x2)"
| upd_updateDayAmo: "updating w (updateDayAmo w x1 x2)"
| upd_update_input_times: "updating w (update_input_times w x1 x2)"
| upd_update_HID_type: "updating w (update_HID_type w x1 x2)"
| upd_update_print_paper: "updating w (update_print_paper w x1 x2)"
| upd_update_commission_free: "updating w (update_commission_free w x1 x2)"
| upd_setworkID: "updating w (setworkID w x1 x2)"
| upd_setAgreeFlag: "updating w (setAgreeFlag w x1 x2)"
| upd_setEncryptType: "updating w (setEncryptType w x1 x2 x3)"
| upd_setIposPromo: "updating w (setIposPromo w x1 x2 x3)"
| upd_setRePrint: "updating w (setRePrint w x1 x2 x3 x4 x5 x6)"
| upd_updateRePrint: "updating w (updateRePrint w x1 x2 x3)"
| upd_updateEcardTxn: "updating w (updateEcardTxn w x1)"
| upd_set_DGBus_Txn: "updating w (set_DGBus_Txn w x1)"
| upd_update_DGBus_Txn: "updating w (update_DGBus_Txn w x1 x2)"
| upd_update_title_flag: "updating w (update_title_flag w x1)"
| upd_update_dgtTxnLog: "updating w (update_dgtTxnLog w x1 x2)"
| upd_update_cardIgoreStatus: "updating w (update_cardIgoreStatus w x1 x2)"
| upd_update_dgtTxnStatusByKeep: "updating w (update_dgtTxnStatusByKeep w x1 x2)"
| upd_update_dgtTxnLogByStan: "updating w (update_dgtTxnLogByStan w x1 x2)"
| upd_update_dgtTxnLog_byKeep: "updating w (update_dgtTxnLog_byKeep w x1)"
| upd_updateM1CardStatus: "updating w (updateM1CardStatus w x1 x2)"
| upd_updateTranOrderStatus: "updating w (updateTranOrderStatus w x1 x2)"
| upd_setdgtResubmit: "updating w (setdgtResubmit w x1 x2)"
| upd_update_dgtSignInfo: "updating w (update_dgtSignInfo w x1 x2)"
| upd_update_dgtSignData: "updating w (update_dgtSignData w x1 x2)"
| upd_updateXjxTxnStatus: "updating w (updateXjxTxnStatus w x1 x2)"
| upd_updXjxStanRspcode: "updating w (updXjxStanRspcode w x1 x2 x3)"
| upd_xjx_set_checkamount: "updating w (xjx_set_checkamount w x1 x2)"
| upd_xjx_update_staff: "updating w (xjx_update_staff w x1 x2)"
| upd_xjx_add_account: "updating w (xjx_add_account w x1 x2 x3)"
| upd_xjx_set_account: "updating w (xjx_set_account w x1 x2)"
| upd_xjx_upd_password: "updating w (xjx_upd_password w x1 x2)"
| upd_xjx_update_checkstatus: "updating w (xjx_update_checkstatus w x1 x2 x3 x4 x5)"
| upd_setYctThirdStatus: "updating w (setYctThirdStatus w x1 x2)"
| upd_updateYctuntxn: "updating w (updateYctuntxn w x1 x2)"
| upd_updateYctRollback: "updating w (updateYctRollback w x1 x2)"
| upd_updateYctResultMsg: "updating w (updateYctResultMsg w x1 x2)"
| upd_updateYctYPData: "updating w (updateYctYPData w x1 x2)"
| upd_updateYctThirdData: "updating w (updateYctThirdData w x1)"
| upd_setYctYPData: "updating w (setYctYPData w x1 x2)"
| upd_insetYctYPtxnDATA: "updating w (insetYctYPtxnDATA w x1 x2 x3)"
| upd_updateYctTxnStatus: "updating w (updateYctTxnStatus w x1 x2 x3)"
| upd_updateYct3SequenceNo: "updating w (updateYct3SequenceNo w x1 x2)"
| upd_insertYct3SignInfo: "updating w (insertYct3SignInfo w x1 x2)"
| upd_updateYct3SignInfo: "updating w (updateYct3SignInfo w x1 x2 x3)"
| upd_sign_out: "updating w (sign_out_op w x1 x2)"

text \<open>One statement on the connection that is taken; the connection is free, or broken when it fails.\<close>

definition statement :: "'e odb \<Rightarrow> bool \<Rightarrow> 'e db \<Rightarrow> 'e db \<Rightarrow> bool" where
  "statement w bad d d' \<longleftrightarrow> (\<exists>i d1 sql. getConnStat w d = (Some i, d1)
     \<and> exec_sql w i sql (outside d1) = (bad, outside d') \<and> conns d' = (conns d1)[i := if bad then 2 else 0])"

text \<open>What a change may do, by its result.\<close>

definition changed :: "'e odb \<Rightarrow> 'e db \<Rightarrow> unit outcome \<Rightarrow> 'e db \<Rightarrow> bool" where
  "changed w d x d' \<longleftrightarrow> (case x of
       Done _ \<Rightarrow> statement w False d d'
     | Code _ \<Rightarrow> d' = d \<or> getConnStat w d = (None, d') \<or> statement w True d d'
     | Exc \<Rightarrow> d' = d \<or> (\<exists>i. getConnStat w d = (Some i, d')))"

lemma statementI:
  assumes "getConnStat w d = (Some i, d1)" "run_sql w i sql d1 = (bad, d2)"
  shows "statement w bad d (set_conn i (if bad then 2 else 0) d2)"
proof -
  from assms(2) have "exec_sql w i sql (outside d1) = (bad, outside d2)" "conns d2 = conns d1"
    by (auto simp: run_sql_def split: prod.splits)
  with assms(1) show ?thesis unfolding statement_def set_conn_def by (intro exI [of _ i] exI [of _ d1] exI [of _ sql]) simp
qed

lemma changed_idle [simp]: "changed w d (Code c) d" "changed w d Exc d"
  by (simp_all add: changed_def)

lemma update_op_changed: "update_op w c sql d = (x, d') \<Longrightarrow> changed w d x d'"
  using statementI [of w d]
  by (auto simp: update_op_def changed_def split: option.splits prod.splits bool.splits) fastforce+

lemma in_buf_changed: "in_buf n sql (update_op w c sql) d = (x, d') \<Longrightarrow> changed w d x d'"
  using update_op_changed by (auto simp: in_buf_def split: if_splits)

lemma update_buf_changed: "update_buf w c n sql d = (x, d') \<Longrightarrow> changed w d x d'"
proof (cases "length sql < n")
  case False
  assume "update_buf w c n sql d = (x, d')"
  with False show ?thesis by (auto simp: update_buf_def changed_def split: option.splits prod.splits)
qed (simp add: update_buf_fits update_op_changed)

lemma or_exc_changed:
  assumes "or_exc w b0 f d = (x, d')" "\<And>b. b0 = Some b \<Longrightarrow> f b d = (x, d') \<Longrightarrow> changed w d x d'"
  shows "changed w d x d'"
  using assms by (auto simp: or_exc_def changed_def split: option.splits prod.splits)

lemmas buf_updates =
  update_epos_term_def updateDayAmo_def update_input_times_def update_HID_type_def update_print_paper_def
  update_commission_free_def setIposPromo_def updateRePrint_def updateEcardTxn_def update_dgtTxnLog_def
  update_cardIgoreStatus_def update_dgtTxnStatusByKeep_def update_dgtTxnLogByStan_def
  update_dgtTxnLog_byKeep_def updateM1CardStatus_def updateTranOrderStatus_def setdgtResubmit_def
  update_dgtSignInfo_def update_dgtSignData_def updateXjxTxnStatus_def updXjxStanRspcode_def
  xjx_set_checkamount_def xjx_update_staff_def xjx_add_account_def xjx_set_account_def xjx_upd_password_def
  setYctThirdStatus_def updateYctuntxn_def updateYctRollback_def updateYctResultMsg_def insetYctYPtxnDATA_def

lemmas checked_updates =
  setworkID_def setAgreeFlag_def setEncryptType_def setRePrint_def set_DGBus_Txn_def update_DGBus_Txn_def
  update_title_flag_def xjx_update_checkstatus_def updateYctYPData_def updateYctThirdData_def setYctYPData_def
  updateYctTxnStatus_def updateYct3SequenceNo_def insertYct3SignInfo_def updateYct3SignInfo_def

lemma updating_changed:
  assumes "updating w f" "f d = (x, d')"
  shows "changed w d x d'"
  using assms
  by cases (auto simp: buf_updates checked_updates sign_out_op_def update_signOutInfo_def Let_def
      split: if_splits option.splits prod.splits intro: in_buf_changed update_buf_changed elim!: or_exc_changed)

lemma changed_back:
  assumes "changed w d x d'" "alone w" "x \<noteq> Exc"
  shows "gives_back d d'"
proof -
  have st: "gives_back d d'" if st: "statement w bad d d'" for bad
  proof -
    from st obtain i d1 where g: "getConnStat w d = (Some i, d1)" and c: "conns d' = (conns d1)[i := if bad then 2 else 0]"
      by (auto simp: statement_def)
    from gives_back_set [OF g assms(2) refl, of "if bad then 2 else 0"] c show ?thesis
      by (simp add: gives_back_def set_conn_def used_def split: if_splits)
  qed
  with assms gives_back_none [of w d d'] show ?thesis
    by (cases x) (auto simp: changed_def gives_back_def)
qed

section \<open>The properties\<close>

text \<open>Every change keeps the contract of \<open>DbProofs\<close>.\<close>

lemma updating_pooled: "updating w f \<Longrightarrow> pooled w f"
  by unfold_locales (rule changed_back [OF updating_changed])

lemmas updating_used = pooled.finishes_used [OF updating_pooled]

inductive any_call :: "'e odb \<Rightarrow> 'e db \<Rightarrow> 'e db \<Rightarrow> bool" for w :: "'e odb" where
  known_call: "db_call w d d' \<Longrightarrow> any_call w d d'"
| change_call: "updating w f \<Longrightarrow> finishes f d d' \<Longrightarrow> any_call w d d'"

lemma any_call_used: "any_call w d d' \<Longrightarrow> alone w \<Longrightarrow> used d' = used d"
  by (induction rule: any_call.induct) (auto dest: db_call_used updating_used)

text \<open>C10: when no other thread takes or gives back connections meanwhile, any sequence of calls of the modelled operations on the database (the queries, the loaders of the tables and all the changes) that return with a result or an error code leaves exactly those connections in use that were in use before it. Not among the calls are those that end with an exception, and the one answer that keeps its connection: the PIN query of a terminal whose PIN is blocked.\<close>

theorem all_calls_give_back:
  assumes "(any_call w)\<^sup>*\<^sup>* d d'" "alone w"
  shows "used d' = used d"
  using assms(1)
  by (induction rule: rtranclp_induct) (simp_all add: any_call_used [OF _ assms(2)])

theorem all_calls_give_back_witness:
  "\<exists>d'. (any_call (still_db (\<lambda>_. Some (asc ''20150831''))))\<^sup>*\<^sup>* \<lparr>conns = [1, 2, 0], outside = ()\<rparr> d' \<and> used d' = {0}"
proof -
  let ?w = "still_db (\<lambda>_. Some (asc ''20150831''))" and ?d = "\<lparr>conns = [1, 2, 0], outside = ()\<rparr> :: unit db"
  have "finishes (getDBtime ?w) ?d ?d" by code_simp
  then have "any_call ?w ?d ?d" using call_time known_call by blast
  moreover have "finishes (updateEcardTxn ?w (asc ''7'')) ?d ?d" by code_simp
  then have "any_call ?w ?d ?d" using change_call upd_updateEcardTxn by blast
  ultimately have r: "(any_call ?w)\<^sup>*\<^sup>* ?d ?d" by auto
  have "used ?d = {0}" by (simp add: used_def used_in_Cons) (simp add: used_in_def)
  with all_calls_give_back [OF r still_alone] r show ?thesis by blast
qed

text \<open>C22: what each of the changes does to the database and to the pool is determined by its result. A success means that exactly one statement was executed, on the connection that was taken, and that the connection is free again. An error code means that nothing was done, that no connection was to be had, or that one statement was refused and its connection is marked as broken. A text that overruns its buffer, or cannot be made, executes no statement, but may leave the connection in use.\<close>

theorem change_by_result:
  assumes "updating w f" "f d = (x, d')"
  shows "case x of
      Done _ \<Rightarrow> statement w False d d'
    | Code _ \<Rightarrow> d' = d \<or> getConnStat w d = (None, d') \<or> statement w True d d'
    | Exc \<Rightarrow> d' = d \<or> (\<exists>i. getConnStat w d = (Some i, d'))"
  using updating_changed [OF assms] by (simp add: changed_def)

theorem change_by_result_witness:
  "statement (still_db (\<lambda>_. None)) False \<lparr>conns = [1, 0], outside = ()\<rparr> \<lparr>conns = [1, 0], outside = ()\<rparr>"
proof -
  have "updateEcardTxn (still_db (\<lambda>_. None)) (asc ''7'') \<lparr>conns = [1, 0], outside = ()\<rparr>
      = (Done (), \<lparr>conns = [1, 0], outside = ()\<rparr>)" by code_simp
  from change_by_result [OF upd_updateEcardTxn this] show ?thesis by simp
qed

text \<open>The statements of \<open>updateYctThirdData\<close> and \<open>updateYctResultMsg\<close> have 512 characters, the message in them
  may have twice as many; a longer one overruns the buffer, and the second one then keeps its connection.\<close>

lemma third_data_overrun: "512 \<le> length (cstr (result_message_third y)) \<Longrightarrow> updateYctThirdData w y d = (Exc, d)"
  by (simp add: updateYctThirdData_def Let_def in_buf_def yct_text_def sq_def)

lemma result_msg_overrun:
  "512 \<le> length (cstr message) \<Longrightarrow> getConnStat w d = (Some i, d1) \<Longrightarrow> updateYctResultMsg w y message d = (Exc, d1)"
  by (simp add: updateYctResultMsg_def update_buf_def sq_def)

end
