(* ===== verification/Host.thy ===== *)
theory Host
  imports Db
begin

text \<open>
  The exchange with the payment host (\<open>CConnect\<close> of \<open>src/CTSI/Connect.cpp\<close>) and the state the trades of
  \<open>Trade.cpp\<close>, \<open>ZHBusTrade.cpp\<close> and \<open>YCTYPTrade.cpp\<close> share. Sockets, the terminal (the \<open>TS_\<close> functions of its
  library), the clock, the reading of a bank card and of its password are a \<open>term_world\<close> of functions on the
  state \<open>'e\<close> of \<open>Db\<close>. \<open>trace\<close> records, oldest first, what left the program: packets handed to \<open>send\<close>, calls that
  change a customer's card, and lines of the monitoring log. \<open>None\<close> is an exception, an access outside a buffer, or a loop that does not end.
\<close>

section \<open>State\<close>

text \<open>\<open>Monitor\<close> has the type, state and response code of \<open>wrMonitorLog\<close>.\<close>

datatype event = Sent bytes | TopUp int bool | Monitor int int int

text \<open>\<open>cp\<close> and \<open>tg\<close> are the members \<open>pack\<close> and \<open>gbl\<close> of a \<open>CTrade\<close>.\<close>

record 'e trade =
  base :: "'e db"
  trace :: "event list"
  cp :: pack
  tg :: tgbl

text \<open>\<open>ask\<close> shows the message of a number and answers the return value of \<open>TS_OutPutMsg\<close> and the key;
  \<open>sel_write\<close> and \<open>sel_read\<close> answer the value of \<open>select\<close>, given the seconds to wait, and \<open>FD_ISSET\<close>;
  \<open>net_rcv\<close> answers the bytes received, at most the given number, none for an error or the end. \<open>sock_recv\<close>
  is \<open>recv\<close> on a connection that is read piece by piece. \<open>ts_par\<close> sets a parameter of the terminal, \<open>ts_box\<close>
  opens its cash box, and \<open>head_page\<close> writes its first page, with a balance and a commission as texts of
  digits. \<open>clock\<close> answers the local time in 14 digits.\<close>

datatype received = Again | Broken | Got bytes

record 'e term_world =
  odb :: "'e odb"
  clock :: "'e \<Rightarrow> bytes"
  trade_flag :: bool
  pe_ip :: bytes
  pe_port :: int
  net_up :: "'e \<Rightarrow> bool \<times> 'e"
  net_sock :: "'e \<Rightarrow> bool \<times> 'e"
  net_look :: "bytes \<Rightarrow> 'e \<Rightarrow> bool \<times> 'e"
  net_conn :: "bytes \<Rightarrow> int \<Rightarrow> 'e \<Rightarrow> bool \<times> 'e"
  sel_write :: "int \<Rightarrow> 'e \<Rightarrow> (int \<times> bool) \<times> 'e"
  sel_read :: "int \<Rightarrow> 'e \<Rightarrow> (int \<times> bool) \<times> 'e"
  net_snd :: "bytes \<Rightarrow> 'e \<Rightarrow> 'e"
  net_rcv :: "nat \<Rightarrow> 'e \<Rightarrow> bytes \<times> 'e"
  net_shut :: "'e \<Rightarrow> 'e"
  sock_recv :: "nat \<Rightarrow> 'e \<Rightarrow> received \<times> 'e"
  ts_par :: "nat \<Rightarrow> 'e \<Rightarrow> 'e"
  ts_box :: "'e \<Rightarrow> 'e"
  head_page :: "bytes \<Rightarrow> bytes \<Rightarrow> 'e \<Rightarrow> 'e"
  ask :: "nat \<Rightarrow> 'e \<Rightarrow> (int \<times> int) \<times> 'e"
  mngCard :: "bytes \<Rightarrow> int \<Rightarrow> int \<Rightarrow> tgbl \<Rightarrow> 'e \<Rightarrow> (int \<times> tgbl) \<times> 'e"
  getCardPwd :: "bytes \<Rightarrow> tgbl \<Rightarrow> 'e \<Rightarrow> (int \<times> tgbl) \<times> 'e"

definition call :: "('e \<Rightarrow> 'a \<times> 'e) \<Rightarrow> 'e trade \<Rightarrow> 'a \<times> 'e trade" where
  "call f s = (case f (outside (base s)) of (x, e) \<Rightarrow> (x, s\<lparr>base := (base s)\<lparr>outside := e\<rparr>\<rparr>))"

definition effect :: "('e \<Rightarrow> 'e) \<Rightarrow> 'e trade \<Rightarrow> 'e trade" where
  "effect f s = snd (call (\<lambda>e. ((), f e)) s)"

definition emit :: "event \<Rightarrow> 'e trade \<Rightarrow> 'e trade" where
  "emit ev s = s\<lparr>trace := trace s @ [ev]\<rparr>"

text \<open>An operation on the database: its result, or its code.\<close>

definition on_db :: "('e db \<Rightarrow> 'a outcome \<times> 'e db) \<Rightarrow> 'e trade \<Rightarrow> ((int + 'a) \<times> 'e trade) option" where
  "on_db f s = (case f (base s) of
     (Exc, d) \<Rightarrow> None
   | (Code c, d) \<Rightarrow> Some (Inl c, s\<lparr>base := d\<rparr>)
   | (Done x, d) \<Rightarrow> Some (Inr x, s\<lparr>base := d\<rparr>))"

section \<open>Connecting, sending and receiving\<close>

definition conToHost :: "'e term_world \<Rightarrow> bytes \<Rightarrow> int \<Rightarrow> 'e trade \<Rightarrow> int \<times> 'e trade" where
  "conToHost w myHostName myPort s = (case call (net_up w) s of (ok, s1) \<Rightarrow>
     if \<not> ok then (-1, s1) else (case call (net_sock w) s1 of (ok, s2) \<Rightarrow>
     if \<not> ok then (-1, s2) else (case call (net_look w myHostName) s2 of (ok, s3) \<Rightarrow>
     if \<not> ok then (-1, s3) else (case call (net_conn w myHostName myPort) s3 of (ok, s4) \<Rightarrow>
     if \<not> ok then (-1, s4) else (0, s4)))))"

definition seconds :: "int \<Rightarrow> int" where "seconds timeOut = (if timeOut = 0 then 90 else timeOut)"

definition sndMsg :: "'e term_world \<Rightarrow> bytes \<Rightarrow> int \<Rightarrow> 'e trade \<Rightarrow> int \<times> 'e trade" where
  "sndMsg w sendData timeOut s = (case call (sel_write w (seconds timeOut)) s of ((r, isset), s1) \<Rightarrow>
     if r = -1 then (-1, effect (net_shut w) s1)
     else if r = 0 then (-2, effect (net_shut w) s1)
     else if isset then (0, emit (Sent sendData) (effect (net_snd w sendData) s1))
     else (-3, s1))"

definition rcvMsg :: "'e term_world \<Rightarrow> nat \<Rightarrow> int \<Rightarrow> 'e trade \<Rightarrow> (int \<times> bytes) \<times> 'e trade" where
  "rcvMsg w recvMaxLen timeOut s = (case call (sel_read w (seconds timeOut)) s of ((r, isset), s1) \<Rightarrow>
     if r = -1 then ((-1, []), s1)
     else if r = 0 then ((-3, []), s1)
     else if isset then (case call (net_rcv w recvMaxLen) s1 of (d, s2) \<Rightarrow>
       if d = [] then ((-1, []), s2) else ((0, take recvMaxLen d), s2))
     else ((-3, []), s1))"

definition HOSTNAME :: "'e term_world \<Rightarrow> bytes" where
  "HOSTNAME w = (if cstr (pe_ip w) \<noteq> [] then cstr (pe_ip w)
     else if trade_flag w then asc ''132.97.117.210'' else asc ''132.97.42.24'')"

definition PORT :: "'e term_world \<Rightarrow> int" where
  "PORT w = (if pe_port w \<noteq> 0 then pe_port w else 4100)"

text \<open>The caller's buffer of 1025 zeros after the exchange. A failure to mark the socket as writable (-3) goes
  on to the receiving. The first two bytes of the answer are its length in BCD.\<close>

definition rcv_len :: "bytes \<Rightarrow> int" where
  "rcv_len d = atol (hex_chars (take 2 (d @ replicate 1025 0)) @ [0])"

definition HostSendRecvData :: "'e term_world \<Rightarrow> bytes \<Rightarrow> int \<Rightarrow> 'e trade \<Rightarrow> (int \<times> bytes) \<times> 'e trade" where
  "HostSendRecvData w sendData timeOut s = (case conToHost w (HOSTNAME w) (PORT w) s of (c, s1) \<Rightarrow>
     if c \<noteq> 0 then ((1, replicate 1025 0), s1) else (case sndMsg w sendData 0 s1 of (r, s2) \<Rightarrow>
     if r = -1 then ((2, replicate 1025 0), s2)
     else if r = -2 then ((3, replicate 1025 0), s2)
     else (case rcvMsg w 1024 timeOut s2 of ((r, d), s3) \<Rightarrow>
       let s4 = effect (net_shut w) s3; buf = take 1025 (d @ replicate 1025 0) in
       if r = -1 then ((4, buf), s4)
       else if r = -3 then ((5, buf), s4)
       else if rcv_len d \<noteq> int (length d) - 2 then ((6, buf), s4)
       else ((0, buf), s4))))"

definition xltHostSendRecvData :: "'e term_world \<Rightarrow> bytes \<Rightarrow> bytes \<Rightarrow> int \<Rightarrow> 'e trade \<Rightarrow> (int \<times> bytes) \<times> 'e trade" where
  "xltHostSendRecvData w sendData myIP myPort s = (case conToHost w myIP myPort s of (c, s1) \<Rightarrow>
     if c \<noteq> 0 then ((1, []), s1) else (case sndMsg w sendData 0 s1 of (r, s2) \<Rightarrow>
     if r = -1 then ((2, []), s2)
     else if r = -2 then ((3, []), s2)
     else (case rcvMsg w 1024 0 s2 of ((r, d), s3) \<Rightarrow>
       let s4 = effect (net_shut w) s3 in
       if r = -1 then ((4, d), s4) else if r = -3 then ((5, d), s4) else ((0, d), s4))))"

section \<open>The packet on the wire\<close>

text \<open>The length in BCD before the packet, in \<open>send_buff[1024]\<close>; the packet was built in a buffer of 1024.\<close>

definition framed :: "bytes \<Rightarrow> bytes option" where
  "framed p = (if length p > 1022 then None else do {
     (d, n) \<leftarrow> hex_to_byte (pad0 4 (dec_digits (length p)) @ [0]) 4 0;
     Some (take 2 d @ p) })"

text \<open>The response code, field 39.\<close>

definition rsp :: "pack \<Rightarrow> int" where "rsp p = sint (atoi32 (FIELD p 39))"

definition rsp_is :: "pack \<Rightarrow> string \<Rightarrow> bool" where "rsp_is p c \<longleftrightarrow> take 2 (FIELD p 39) = asc c"

section \<open>The card\<close>

definition CANCLE_KEY :: int where "CANCLE_KEY = 0x36"
definition RE_MNG_CARD :: int where "RE_MNG_CARD = 0x35"
definition MAXTRY :: nat where "MAXTRY = 50"

text \<open>How the card is asked for again: the arguments \<open>card_flag\<close> and \<open>pay_flag\<close> of \<open>mngCard\<close>. \<open>MNG_ONE\<close> is 0,
  \<open>MNG_MUL\<close> 1, with binding 2 and 3, with the bound card only 4 and 5.\<close>

definition again :: "int \<Rightarrow> (int \<times> int) option" where
  "again pay_flag = (if pay_flag = 1 then Some (0, 1) else if pay_flag = 3 then Some (0, 3)
     else if pay_flag = 5 then Some (0, 5) else if pay_flag = 0 then Some (2, 1)
     else if pay_flag = 2 then Some (2, 3) else if pay_flag = 4 then Some (2, 5) else None)"

fun mng_loop :: "'e term_world \<Rightarrow> bytes \<Rightarrow> int \<Rightarrow> int \<Rightarrow> bool \<Rightarrow> nat \<Rightarrow> 'e trade \<Rightarrow> int \<times> 'e trade" where
  "mng_loop w type card_flag pay_flag first 0 s = (-1, s)"
| "mng_loop w type card_flag pay_flag first (Suc n) s =
     (case (if first then Some (card_flag, pay_flag) else again pay_flag) of None \<Rightarrow> (-1, s)
      | Some (c, p) \<Rightarrow> (case call (mngCard w type c p (tg s)) s of ((r, g), s1) \<Rightarrow>
          let s2 = s1\<lparr>tg := g\<rparr> in
          if r = CANCLE_KEY then (CANCLE_KEY, s2)
          else if r = RE_MNG_CARD then mng_loop w type card_flag pay_flag False n s2
          else if r \<noteq> 0 then (-1, s2) else (0, s2)))"

definition mngCard_Hdl :: "'e term_world \<Rightarrow> bytes \<Rightarrow> 'e trade \<Rightarrow> int \<times> 'e trade" where
  "mngCard_Hdl w type s = mng_loop w type 0 (get_card (tg s)) True MAXTRY s"

text \<open>After a wrong password: message 1, then the password again.\<close>

definition reGetPwd :: "'e term_world \<Rightarrow> bytes \<Rightarrow> 'e trade \<Rightarrow> int \<times> 'e trade" where
  "reGetPwd w type s = (case call (ask w 1) s of ((r, k), s1) \<Rightarrow>
     if k = 0 then (case call (getCardPwd w type (tg s1)) s1 of ((r, g), s2) \<Rightarrow>
       let s3 = s2\<lparr>tg := g\<rparr> in
       if r = CANCLE_KEY then (CANCLE_KEY, s3) else if r \<noteq> 0 then (-1, s3) else (0, s3))
     else (CANCLE_KEY, s1))"

end
