(* ===== verification/TradePack.thy ===== *)
theory TradePack
  imports Host
begin

text \<open>
  One exchange of a trade with the host, \<open>CTrade::packHdl\<close> of \<open>src/CTSI/Trade.cpp\<close>: the limit of the day, the
  packet, the record in the database, the answer and what follows from it; and the logon that uses it.
  Messages on the terminal are numbered: 2 over the limit, 3 database error, 5 time-out, 6 answer not readable,
  7 serial number differs.
\<close>

section \<open>The limit of the day\<close>

fun strstr :: "bytes \<Rightarrow> bytes \<Rightarrow> bool" where
  "strstr [] n \<longleftrightarrow> n = []"
| "strstr (c # h) n \<longleftrightarrow> take (length n) (c # h) = n \<or> strstr h n"

definition ECARDTRADE :: bytes where
  "ECARDTRADE = asc ''[0301][0302][0075][0074][0083][0221][0109][0268][0339][0340]''"

text \<open>The sum is one of \<open>int\<close>: it wraps around.\<close>

definition over_limit :: "tgbl \<Rightarrow> int \<Rightarrow> bool" where
  "over_limit g nowAmo \<longleftrightarrow> dayAmo g \<noteq> 0 \<and> sint (word_of_int nowAmo + atoi32 (amount g)) > dayAmo g"

text \<open>\<open>Inl r\<close> ends the trade with the code \<open>r\<close>, \<open>Inr n\<close> goes on with the total \<open>n\<close> of the day, 0 where it is not read.\<close>

definition check_limit :: "'e term_world \<Rightarrow> int \<Rightarrow> 'e trade \<Rightarrow> ((int + int) \<times> 'e trade) option" where
  "check_limit w flag s = (let g = tg s in
     if flag = 2 \<and> \<not> strstr ECARDTRADE (cstr (fee_type g)) then do {
       (r, s1) \<leftarrow> on_db (getDayAmo (odb w) (dll_pos_no g) 0) s;
       case r of
         Inr nowAmo \<Rightarrow> if over_limit g nowAmo then Some (Inl (-1), snd (call (ask w 2) s1)) else Some (Inr nowAmo, s1)
       | Inl c \<Rightarrow> Some (Inl (-1), snd (call (ask w 3) s1)) }
     else Some (Inr 0, s))"

section \<open>Sending\<close>

text \<open>The record of the transaction; the result of the statement is not looked at.\<close>

definition put_txn :: "'e term_world \<Rightarrow> int \<Rightarrow> bytes \<Rightarrow> 'e trade \<Rightarrow> (bytes \<times> 'e trade) option" where
  "put_txn w status seq s = (case setEposTxn (odb w) status (tg s) (cp s) seq (base s) of
     ((Exc, q), d) \<Rightarrow> None | ((_, q), d) \<Rightarrow> Some (q, s\<lparr>base := d\<rparr>))"

definition db_time :: "'e term_world \<Rightarrow> 'e trade \<Rightarrow> (bytes \<times> 'e trade) option" where
  "db_time w s = do { (r, s1) \<leftarrow> on_db (getDBtime (odb w)) s;
     Some (case r of Inl c \<Rightarrow> [] | Inr t \<Rightarrow> t, s1) }"

definition order_clock :: "'e term_world \<Rightarrow> int \<Rightarrow> 'e trade \<Rightarrow> 'e trade option" where
  "order_clock w flag s = (if flag = 2 then do { (t, s1) \<leftarrow> db_time w s; Some (s1\<lparr>tg := (tg s1)\<lparr>order_time := t\<rparr>\<rparr>) }
     else Some s)"

definition ver9000 :: "tgbl \<Rightarrow> bool" where "ver9000 g \<longleftrightarrow> sint (atoi32 (prmVer g)) \<ge> 9000"

text \<open>A payment of a newer terminal is framed by two parameters; a time-out of the trade applies otherwise.\<close>

definition send_recv :: "'e term_world \<Rightarrow> int \<Rightarrow> bytes \<Rightarrow> 'e trade \<Rightarrow> (int \<times> bytes) \<times> 'e trade" where
  "send_recv w flag d s =
     (if flag = 2 \<and> ver9000 (tg s)
      then (case HostSendRecvData w d 0 (effect (ts_par w 1) s) of (r, s1) \<Rightarrow> (r, effect (ts_par w 0) s1))
      else if timeout (tg s) > 0
      then (case HostSendRecvData w d (timeout (tg s)) s of (r, s1) \<Rightarrow>
        (r, s1\<lparr>tg := (tg s1)\<lparr>mycoolpayeasy_return := 1\<rparr>\<rparr>))
      else HostSendRecvData w d 0 s)"

definition log_type :: "int \<Rightarrow> int option" where
  "log_type flag = (if flag = 1 \<or> flag = 2 then Some flag else if flag = 3 then Some 5
     else if flag = 5 then Some 3 else None)"

definition monitor :: "int option \<Rightarrow> int \<Rightarrow> int \<Rightarrow> 'e trade \<Rightarrow> 'e trade" where
  "monitor t st code s = (case t of None \<Rightarrow> s | Some x \<Rightarrow> emit (Monitor x st code) s)"

definition no_answer :: "'e term_world \<Rightarrow> int \<Rightarrow> int \<Rightarrow> 'e trade \<Rightarrow> 'e trade" where
  "no_answer w flag iRet s = monitor (log_type flag) 2 iRet
     (if flag \<noteq> 3 \<and> mycoolpayeasy_return (tg s) = 0 then snd (call (ask w 5) s) else s)"

section \<open>The answer\<close>

definition not_counted :: "string list" where
  "not_counted = [''0301'', ''0302'', ''0074'', ''0075'', ''0170'', ''0184'', ''0083'', ''0221'', ''0109'', ''0268'', ''0339'', ''0340'']"

definition fee_in :: "string list \<Rightarrow> tgbl \<Rightarrow> bool" where
  "fee_in l g \<longleftrightarrow> list_ex (\<lambda>c. take 4 (fee_type g) = asc c) l"

text \<open>An accepted payment is added to the total of the day when it was begun on the day of the answer;
  two times that could not be read are the same day.\<close>

definition day_of :: "bytes \<Rightarrow> bytes" where "day_of t = take 8 (t @ replicate 8 0)"

definition count_payment :: "'e term_world \<Rightarrow> 'e trade \<Rightarrow> 'e trade option" where
  "count_payment w s = (if rsp_is (cp s) ''00'' \<and> \<not> fee_in not_counted (tg s) then do {
       (t, s1) \<leftarrow> db_time w s;
       if day_of (order_time (tg s1)) = day_of t
       then map_option snd (on_db (setSumDayAmo (odb w) (sint (atoi32 (amount (tg s1)))) (pos_no (tg s1))) s1)
       else Some s1 }
     else Some s)"

definition record_answer :: "'e term_world \<Rightarrow> int \<Rightarrow> bytes \<Rightarrow> 'e trade \<Rightarrow> 'e trade option" where
  "record_answer w flag seq s = (if seq = [] then Some s
     else if flag = 1 then map_option snd (put_txn w 11 seq s)
     else if flag = 2 then do { (q, s1) \<leftarrow> put_txn w 22 seq s; count_payment w s1 }
     else if flag = 3 then map_option snd (put_txn w 33 seq s)
     else Some s)"

text \<open>What the first five characters of field 46 ask the terminal to do; the digits are padded in front.\<close>

definition getBit46 :: "bytes \<Rightarrow> int option" where
  "getBit46 bit46 = do { (b, n) \<leftarrow> hex_to_byte bit46 5 0;
     Some (if b ! 1 AND 0x04 = 0x04 then 7
       else if b ! 2 AND 0x80 = 0x80 then 2
       else if b ! 2 AND 0x08 = 0x08 then 3
       else if b ! 2 AND 0x04 = 0x04 then 4
       else if b ! 2 AND 0x02 = 0x02 then 5
       else if b ! 2 AND 0x01 = 0x01 then 6 else 1) }"

definition logon_bits :: "'e term_world \<Rightarrow> 'e trade \<Rightarrow> 'e trade option" where
  "logon_bits w s = (let f46 = FIELD (cp s) 46 in
     if rsp (cp s) = 0 \<and> f46 ! 0 \<noteq> 0 \<and> f46 ! 2 \<noteq> 0 \<and> eny (tg s) \<and> f46 ! 0 = 0x39 then do {
       b \<leftarrow> getBit46 f46;
       if b \<noteq> 1 then map_option snd (on_db (setEposLogonStatus (odb w) b (pos_no (tg s))) s) else Some s }
     else Some s)"

definition answer_stat :: "pack \<Rightarrow> int" where "answer_stat p = (if rsp p \<noteq> 0 then 3 else 0)"

text \<open>A minus sign in front of the terminal's serial number becomes a zero.\<close>

definition unsigned_serial :: "tgbl \<Rightarrow> tgbl" where
  "unsigned_serial g = (if take 1 (pos_serial g) = [0x2D] then g\<lparr>pos_serial := 0x30 # drop 1 (pos_serial g)\<rparr> else g)"

definition trade_type :: "int \<Rightarrow> tgbl \<Rightarrow> int option" where
  "trade_type flag g = (if (flag = 1 \<or> flag = 2) \<and> fee_in [''0221''] g then Some 15 else log_type flag)"

section \<open>The first page of the terminal\<close>

text \<open>The question to the host of the cards whether the terminal has a card of a pool (\<open>CDB::pep_isSonCard\<close> of
  \<open>DB.cpp\<close>): the time, the terminal, the length of the whole in the place of the zeros.\<close>

definition son_query :: "bytes \<Rightarrow> bytes \<Rightarrow> bytes option" where
  "son_query curdatetime termmid = (let b = asc ''FFFF'' @ cstr curdatetime @ cstr termmid @ asc ''00000000PEP000H0'' @ cstr termmid in
     if length b \<ge> 1024 then None else poke 26 (take 8 (pad0 8 (dec_digits (length b)))) b)"

text \<open>The body of the answer behind its 34 bytes of head, in a buffer of 2048. The loop does not look at the end
  of the connection, at which \<open>recv\<close> answers no bytes.\<close>

partial_function (option) rcv_body :: "'e term_world \<Rightarrow> int \<Rightarrow> bytes \<Rightarrow> 'e trade \<Rightarrow> (bytes option \<times> 'e trade) option" where
  "rcv_body w pack_len got s = (if pack_len \<le> int (length got) then Some (Some got, s)
     else (case call (sock_recv w (nat pack_len - length got)) s of (r, s1) \<Rightarrow>
       (case r of Again \<Rightarrow> rcv_body w pack_len got s1
        | Broken \<Rightarrow> Some (None, s1)
        | Got d \<Rightarrow> if 34 + length got + length d > 2048 then None else rcv_body w pack_len (got @ d) s1)))"

text \<open>The answer: the code at place 42, the length of a text, the text, the flag.\<close>

definition son_flag :: "bytes \<Rightarrow> int option" where
  "son_flag outBuf = do { rspcode \<leftarrow> copy_at 42 4 outBuf; desplen \<leftarrow> copy_at 46 2 outBuf;
     let tmplen = sint (atoi32 (desplen @ [0]));
     if tmplen < 0 then None
     else if sint (atoi32 (rspcode @ [0])) \<noteq> 0 then Some (-1)
     else do { b \<leftarrow> copy_at (48 + nat tmplen) 1 outBuf; Some (sint (atoi32 (b @ [0]))) } }"

definition pep_isSonCard :: "'e term_world \<Rightarrow> bytes \<Rightarrow> 'e trade \<Rightarrow> (int \<times> 'e trade) option" where
  "pep_isSonCard w termmid s = do {
     q \<leftarrow> son_query (clock w (outside (base s))) termmid;
     case conToHost w (cstr (pe_ip w)) (pe_port w) s of (c, s1) \<Rightarrow>
       if c \<noteq> 0 then Some (-1, s1) else (case sndMsg w q 10 s1 of (r, s2) \<Rightarrow>
       if r \<noteq> 0 then Some (-1, s2) else (case call (sock_recv w 34) s2 of (x, s3) \<Rightarrow>
         (case x of Got h \<Rightarrow> if length h \<noteq> 34 then Some (-1, s3) else do {
            (body, s4) \<leftarrow> rcv_body w (sint (atoi32 (drop 26 h @ [0])) - 34) [] s3;
            case body of None \<Rightarrow> Some (-1, s4)
            | Some b \<Rightarrow> do { son \<leftarrow> son_flag (take 2048 (h @ b @ replicate 2048 0)); Some (son, effect (net_shut w) s4) } }
          | _ \<Rightarrow> Some (-1, s3)))) }"

text \<open>The balance and the commission in field 54; a terminal with a card of a pool has what its limit leaves.\<close>

definition page_amounts :: "tgbl \<Rightarrow> pack \<Rightarrow> int \<Rightarrow> int \<Rightarrow> (bytes \<times> bytes) option" where
  "page_amounts g p nowAmo son = do {
     bankamo \<leftarrow> copy_at 1 12 (FIELD p 54); yjamo \<leftarrow> copy_at 13 13 (FIELD p 54); _ \<leftarrow> copy_at 27 12 (FIELD p 54);
     Some (if son = 1 then fmt0 12 (sint (word_of_int (dayAmo g) - (word_of_int nowAmo + atoi32 (amount g)))) else bankamo,
       (if hd yjamo = 0x44 then 0x2D else 0x30) # tl yjamo) }"

definition pool_page :: "tgbl \<Rightarrow> bool" where
  "pool_page g \<longleftrightarrow> take 2 (bank g) = asc ''10'' \<and> \<not> fee_in [''0074'', ''0075'', ''0322''] g"

definition after_payment :: "'e term_world \<Rightarrow> int \<Rightarrow> 'e trade \<Rightarrow> 'e trade option" where
  "after_payment w nowAmo s = (let s1 = (if inType (tg s) = 0x0C then effect (ts_box w) s else s) in
     if pool_page (tg s1) then do {
       (son, s2) \<leftarrow> pep_isSonCard w (dll_pos_no (tg s1)) s1;
       (mny, yj) \<leftarrow> page_amounts (tg s2) (cp s2) nowAmo son;
       Some (effect (head_page w mny yj) s2) }
     else Some s1)"

definition check_serial :: "'e term_world \<Rightarrow> int \<Rightarrow> int \<Rightarrow> 'e trade \<Rightarrow> (int \<times> 'e trade) option" where
  "check_serial w flag nowAmo s = do {
     serial \<leftarrow> byte_to_hex (FIELD (cp s) 11) 3;
     let s = s\<lparr>tg := unsigned_serial (tg s)\<rparr>;
     let g = tg s;
     if cstr (fee_type g) = asc ''0368'' \<or> cstr (fee_type g) = asc ''0056'' then Some (0, s)
     else if take 6 (pos_serial g) \<noteq> take 6 serial
     then Some (-1, snd (call (ask w 7) (monitor (trade_type flag g) 2 7 s)))
     else (let s1 = monitor (trade_type flag g) (answer_stat (cp s)) (rsp (cp s)) s in
       if flag = 2 \<and> ver9000 g \<and> rsp_is (cp s) ''00'' then do { s2 \<leftarrow> after_payment w nowAmo s1; Some (0, s2) } else Some (0, s1)) }"

definition read_answer :: "'e term_world \<Rightarrow> int \<Rightarrow> int \<Rightarrow> bytes \<Rightarrow> bytes \<Rightarrow> 'e trade \<Rightarrow> (int \<times> 'e trade) option" where
  "read_answer w flag nowAmo seq buf s = do {
     (ok, p) \<leftarrow> unpackFunc buf 0 (cp s);
     let s1 = s\<lparr>cp := p\<rparr>;
     if ok \<noteq> 1 then Some (-3, snd (call (ask w 6) s1))
     else do { s2 \<leftarrow> record_answer w flag seq s1; s3 \<leftarrow> logon_bits w s2; check_serial w flag nowAmo s3 } }"

section \<open>The whole exchange\<close>

definition packHdl :: "'e term_world \<Rightarrow> int \<Rightarrow> 'e trade \<Rightarrow> (int \<times> 'e trade) option" where
  "packHdl w flag s = do {
     (stop, s1) \<leftarrow> check_limit w flag s;
     case stop of Inl r \<Rightarrow> Some (r, s1)
     | Inr nowAmo \<Rightarrow> do {
         (packet, p) \<leftarrow> Comm_Pack flag (gbl.truncate (tg s1)) (cp s1);
         frame \<leftarrow> framed packet;
         let s2 = s1\<lparr>cp := p\<rparr>;
         (seq, s3) \<leftarrow> (if flag < 4 then put_txn w flag [] s2 else Some ([], s2));
         s4 \<leftarrow> order_clock w flag s3;
         case send_recv w flag frame s4 of ((iRet, buf), s5) \<Rightarrow>
           if iRet \<noteq> 0 then Some (-2, no_answer w flag iRet s5)
           else read_answer w flag nowAmo seq buf s5 } }"

section \<open>Logon\<close>

text \<open>The ordinary logon; that the answer could not be read (-3) is not noticed. The second component is what
  is stored in \<open>logon_random2\<close>.\<close>

definition logonHdl :: "'e term_world \<Rightarrow> 'e trade \<Rightarrow> (int \<times> bytes option \<times> 'e trade) option" where
  "logonHdl w s = (let s1 = s\<lparr>tg := (tg s)\<lparr>pos_serial := asc ''999999'' @ [0]\<rparr>\<rparr> in do {
     p \<leftarrow> wrField 3 (clock w (outside (base s))) (gbl.truncate (tg s1)) (cp s1);
     (r, s2) \<leftarrow> packHdl w 3 (s1\<lparr>cp := p\<rparr>);
     if r = -1 then Some (-1, None, s2) else if r = -2 then Some (-2, None, s2)
     else do { n \<leftarrow> copy_at 8 8 (FIELD (cp s2) 63); Some (0, Some n, s2) } })"

end
