(* ===== verification/TradeProofs.thy ===== *)
theory TradeProofs
  imports TradePack PackProofs
begin

text \<open>
  What one exchange of \<open>TradePack\<close> keeps: it sends at most one packet, the one built for its kind, and writes
  at most one line of the monitoring log; a payment is sent only within the limit of the day; success means
  that the answer carried the serial number of the terminal.
\<close>

section \<open>What the steps leave alone\<close>

text \<open>Nothing the trades keep has changed, apart from the database and the world.\<close>

definition kept :: "'e trade \<Rightarrow> 'e trade \<Rightarrow> bool" where
  "kept s s' \<longleftrightarrow> trace s' = trace s \<and> cp s' = cp s \<and> tg s' = tg s"

lemma kept_refl [simp]: "kept s s"
  by (simp add: kept_def)

lemma kept_trans [trans]: "kept a b \<Longrightarrow> kept b c \<Longrightarrow> kept a c"
  by (simp add: kept_def)

lemma call_kept: "call f s = (x, s') \<Longrightarrow> kept s s'"
  by (auto simp: call_def kept_def split: prod.splits)

lemma snd_call_kept [simp]: "kept s (snd (call f s))"
  by (cases "call f s") (simp add: call_kept)

lemma effect_kept [simp]: "kept s (effect f s)"
  by (simp add: effect_def)

lemma on_db_kept: "on_db f s = Some (x, s') \<Longrightarrow> kept s s'"
  by (auto simp: on_db_def kept_def split: prod.splits outcome.splits)

lemma put_txn_kept: "put_txn w st q s = Some (x, s') \<Longrightarrow> kept s s'"
  by (auto simp: put_txn_def kept_def split: prod.splits outcome.splits)

lemma db_time_kept: "db_time w s = Some (x, s') \<Longrightarrow> kept s s'"
  by (auto simp: db_time_def bind_eq_Some_conv dest: on_db_kept)

text \<open>The trace has grown by the events \<open>evs\<close>.\<close>

definition grew :: "event list \<Rightarrow> 'e trade \<Rightarrow> 'e trade \<Rightarrow> bool" where
  "grew evs s s' \<longleftrightarrow> trace s' = trace s @ evs"

lemma kept_grew: "kept s s' \<Longrightarrow> grew [] s s'"
  by (simp add: kept_def grew_def)

lemma grew_emit [simp]: "grew [e] s (emit e s)"
  by (simp add: grew_def emit_def)

lemma grew_trans: "grew a s t \<Longrightarrow> grew b t u \<Longrightarrow> grew (a @ b) s u"
  by (simp add: grew_def)

lemma grew_kept: "grew a s t \<Longrightarrow> kept t u \<Longrightarrow> grew a s u" "kept s t \<Longrightarrow> grew a t u \<Longrightarrow> grew a s u"
  by (simp_all add: grew_def kept_def)

lemma emit_same [simp]: "cp (emit e s) = cp s" "tg (emit e s) = tg s"
  by (simp_all add: emit_def)

text \<open>The answer of \<open>check_limit\<close>.\<close>

definition limit_free :: "tgbl \<Rightarrow> bool" where
  "limit_free g \<longleftrightarrow> strstr ECARDTRADE (cstr (fee_type g))"

lemma check_limit_cases:
  assumes "check_limit w flag s = Some (x, s')"
  obtains (unlimited) "flag \<noteq> 2 \<or> limit_free (tg s)" "x = Inr 0" "s' = s"
    | (within) n d where "flag = 2" "\<not> limit_free (tg s)" "getDayAmo (odb w) (dll_pos_no (tg s)) 0 (base s) = (Done n, d)"
        "\<not> over_limit (tg s) n" "x = Inr n" "kept s s'"
    | (stopped) "flag = 2" "\<not> limit_free (tg s)" "x = Inl (-1)" "kept s s'"
proof (cases "flag = 2 \<and> \<not> limit_free (tg s)")
  case True
  let ?q = "getDayAmo (odb w) (dll_pos_no (tg s)) 0"
  obtain r s1 where d: "on_db ?q s = Some (r, s1)"
    using True assms by (auto simp: check_limit_def limit_free_def Let_def bind_eq_Some_conv)
  note k = on_db_kept [OF d]
  show thesis
  proof (cases r)
    case (Inl c)
    then show thesis using True d assms k kept_trans [OF k snd_call_kept] that(3)
      by (auto simp: check_limit_def limit_free_def Let_def)
  next
    case (Inr n)
    obtain d1 where g: "?q (base s) = (Done n, d1)"
      using d Inr by (auto simp: on_db_def split: prod.splits outcome.splits)
    show thesis using True d assms Inr k kept_trans [OF k snd_call_kept] that(2) [OF _ _ g] that(3)
      by (auto simp: check_limit_def limit_free_def Let_def split: if_splits)
  qed
next
  case False
  with assms that(1) show thesis by (auto simp: check_limit_def limit_free_def)
qed

lemma check_limit_kept: "check_limit w flag s = Some (x, s') \<Longrightarrow> kept s s'"
  by (elim check_limit_cases) auto

section \<open>Sending\<close>

lemma conToHost_kept: "conToHost w h p s = (c, s') \<Longrightarrow> kept s s'"
  unfolding conToHost_def
  by (auto split: prod.splits if_splits dest!: call_kept intro: kept_trans)

text \<open>A socket that \<open>select\<close> reports is in the set it leaves.\<close>

definition select_marks :: "'e term_world \<Rightarrow> bool" where
  "select_marks w \<longleftrightarrow> (\<forall>t e. case fst (sel_write w t e) of (r, b) \<Rightarrow> r = -1 \<or> r = 0 \<or> b)"

text \<open>At most one packet leaves, the given one, and then the result is 0.\<close>

lemma sndMsg_grew:
  assumes "sndMsg w d t s = (r, s')"
  shows "kept s s' \<or> grew [Sent d] s s' \<and> cp s' = cp s \<and> tg s' = tg s"
    and "select_marks w \<Longrightarrow> r = -1 \<or> r = -2 \<or> grew [Sent d] s s'"
proof -
  obtain n b s1 where c: "call (sel_write w (seconds t)) s = ((n, b), s1)" by (metis prod.exhaust)
  have k: "kept s s1" using call_kept [OF c] .
  have m: "n = -1 \<or> n = 0 \<or> b" if "select_marks w"
    using c that by (auto simp: call_def select_marks_def split: prod.splits) (metis case_prod_conv fst_conv)
  have e: "grew [Sent d] s (emit (Sent d) (effect f s1))" for f
    using grew_kept(2) [OF kept_trans [OF k effect_kept] grew_emit] .
  show "kept s s' \<or> grew [Sent d] s s' \<and> cp s' = cp s \<and> tg s' = tg s"
    using assms c k e kept_trans [OF k effect_kept] by (auto simp: sndMsg_def kept_def split: if_splits)
  show "select_marks w \<Longrightarrow> r = -1 \<or> r = -2 \<or> grew [Sent d] s s'"
    using assms c m e by (auto simp: sndMsg_def split: if_splits)
qed

lemma rcvMsg_kept: "rcvMsg w n t s = (x, s') \<Longrightarrow> kept s s'"
  unfolding rcvMsg_def
  by (auto split: prod.splits if_splits dest!: call_kept intro: kept_trans)

lemma HostSendRecvData_grew:
  assumes "HostSendRecvData w d t s = (r, s')"
  shows "kept s s' \<or> grew [Sent d] s s' \<and> cp s' = cp s \<and> tg s' = tg s"
    and "select_marks w \<Longrightarrow> fst r = 0 \<Longrightarrow> grew [Sent d] s s'"
proof -
  obtain c s1 where c: "conToHost w (HOSTNAME w) (PORT w) s = (c, s1)" by (metis prod.exhaust)
  obtain n s2 where n: "sndMsg w d 0 s1 = (n, s2)" by (metis prod.exhaust)
  obtain x b s3 where x: "rcvMsg w 1024 t s2 = ((x, b), s3)" by (metis prod.exhaust)
  note k = conToHost_kept [OF c] sndMsg_grew [OF n] kept_trans [OF rcvMsg_kept [OF x] effect_kept]
  have cases: "s' = s1 \<and> fst r = 1 \<or> s' = s2 \<and> fst r \<noteq> 0 \<or> s' = effect (net_shut w) s3 \<and> n \<noteq> -1 \<and> n \<noteq> -2"
    using assms c n x by (auto simp: HostSendRecvData_def Let_def split: if_splits)
  show "kept s s' \<or> grew [Sent d] s s' \<and> cp s' = cp s \<and> tg s' = tg s"
    using cases k unfolding kept_def grew_def by metis
  show "select_marks w \<Longrightarrow> fst r = 0 \<Longrightarrow> grew [Sent d] s s'"
    using cases k unfolding kept_def grew_def by (metis one_neq_zero)
qed

lemma send_recv_grew:
  assumes "send_recv w flag d s = (r, s')"
  shows "trace s' = trace s \<or> grew [Sent d] s s'" "cp s' = cp s"
    and "select_marks w \<Longrightarrow> fst r = 0 \<Longrightarrow> grew [Sent d] s s'"
proof -
  have e: "trace (effect f x) = trace x" "cp (effect f x) = cp x" for f and x :: "'a trade"
    using effect_kept [of x f] by (simp_all add: kept_def)
  obtain t s1 s2 where h: "HostSendRecvData w d t s1 = (r, s2)" "trace s1 = trace s" "trace s' = trace s2"
    "cp s1 = cp s" "cp s' = cp s2"
    using assms by (auto simp: send_recv_def e split: if_splits prod.splits)
  show "trace s' = trace s \<or> grew [Sent d] s s'" "cp s' = cp s"
    "select_marks w \<Longrightarrow> fst r = 0 \<Longrightarrow> grew [Sent d] s s'"
    using HostSendRecvData_grew [OF h(1)] h(2-5) by (auto simp: kept_def grew_def)
qed

section \<open>The answer\<close>

lemma count_payment_kept: "count_payment w s = Some s' \<Longrightarrow> kept s s'"
  by (auto simp: count_payment_def bind_eq_Some_conv split: if_splits dest!: on_db_kept db_time_kept intro: kept_trans)

lemma record_answer_kept: "record_answer w flag q s = Some s' \<Longrightarrow> kept s s'"
  by (auto simp: record_answer_def bind_eq_Some_conv split: if_splits
    dest!: put_txn_kept count_payment_kept intro: kept_trans)

lemma logon_bits_kept: "logon_bits w s = Some s' \<Longrightarrow> kept s s'"
  by (auto simp: logon_bits_def Let_def bind_eq_Some_conv split: if_splits dest!: on_db_kept)

text \<open>At most one line of the monitoring log.\<close>

definition logged :: "event list \<Rightarrow> bool" where
  "logged evs \<longleftrightarrow> evs = [] \<or> (\<exists>a b c. evs = [Monitor a b c])"

lemma monitor_logged: "\<exists>evs. logged evs \<and> grew evs s (monitor t a b s)"
  by (cases t) (auto simp: monitor_def logged_def grew_def emit_def)

lemma monitor_same [simp]: "cp (monitor t a b s) = cp s" "tg (monitor t a b s) = tg s"
  by (simp_all add: monitor_def split: option.splits)

lemma no_answer_logged: "\<exists>evs. logged evs \<and> grew evs s (no_answer w flag r s)"
proof -
  obtain s1 where s1: "kept s s1" "no_answer w flag r s = monitor (log_type flag) 2 r s1"
    by (cases "flag \<noteq> 3 \<and> mycoolpayeasy_return (tg s) = 0") (rule that [OF snd_call_kept], simp add: no_answer_def,
      rule that [OF kept_refl], auto simp: no_answer_def)
  then show ?thesis using monitor_logged [of s1 "log_type flag" 2 r] grew_kept(2) [OF s1(1)] by auto
qed

text \<open>Two businesses do not compare serial numbers.\<close>

definition serial_free :: "tgbl \<Rightarrow> bool" where
  "serial_free g \<longleftrightarrow> cstr (fee_type g) = asc ''0368'' \<or> cstr (fee_type g) = asc ''0056''"

definition serial_ok :: "'e trade \<Rightarrow> bool" where
  "serial_ok s \<longleftrightarrow> (\<exists>b. byte_to_hex (FIELD (cp s) 11) 3 = Some b \<and> take 6 (pos_serial (tg s)) = take 6 b)"

lemma unsigned_serial_fee [simp]: "fee_type (unsigned_serial g) = fee_type g"
  by (simp add: unsigned_serial_def)

text \<open>After an accepted payment a newer terminal may ask whether its card is one of a pool.\<close>

definition page_query :: "int \<Rightarrow> 'e trade \<Rightarrow> event list \<Rightarrow> bool" where
  "page_query flag s evs \<longleftrightarrow> flag = 2 \<and> ver9000 (tg s) \<and> rsp_is (cp s) ''00'' \<and> pool_page (tg s)
     \<and> (\<exists>t q. son_query t (dll_pos_no (tg s)) = Some q \<and> evs = [Sent q])"

lemma rcv_body_kept: "rcv_body w n got s = Some (x, s') \<Longrightarrow> kept s s'"
proof -
  assume "rcv_body w n got s = Some (x, s')"
  then have "case (x, s') of (x, s') \<Rightarrow> kept s s'"
  proof (rule rcv_body.raw_induct [rotated])
    fix f :: "'a term_world \<Rightarrow> int \<Rightarrow> bytes \<Rightarrow> 'a trade \<Rightarrow> (bytes option \<times> 'a trade) option" and w n got s y
    assume IH: "\<And>w n got s y. f w n got s = Some y \<Longrightarrow> case y of (x, s') \<Rightarrow> kept s s'"
      and e: "(if n \<le> int (length got) then Some (Some got, s)
        else case call (sock_recv w (nat n - length got)) s of (r, s1) \<Rightarrow>
          (case r of Again \<Rightarrow> f w n got s1 | Broken \<Rightarrow> Some (None, s1)
           | Got d \<Rightarrow> if 34 + length got + length d > 2048 then None else f w n (got @ d) s1)) = Some y"
    obtain r s1 where c: "call (sock_recv w (nat n - length got)) s = (r, s1)" by (metis prod.exhaust)
    show "case y of (x, s') \<Rightarrow> kept s s'"
      using e c call_kept [OF c] by (auto split: if_splits received.splits prod.splits dest!: IH intro: kept_trans)
  qed
  then show ?thesis by simp
qed

lemma pep_isSonCard_spec:
  assumes "pep_isSonCard w t s = Some (r, s')"
  shows "\<exists>evs. (evs = [] \<or> (\<exists>d q. son_query d t = Some q \<and> evs = [Sent q])) \<and> grew evs s s' \<and> cp s' = cp s \<and> tg s' = tg s"
proof -
  obtain q where q: "son_query (clock w (outside (base s))) t = Some q"
    using assms by (auto simp: pep_isSonCard_def bind_eq_Some_conv)
  obtain c s1 where c: "conToHost w (cstr (pe_ip w)) (pe_port w) s = (c, s1)" by (metis prod.exhaust)
  obtain n s2 where n: "sndMsg w q 10 s1 = (n, s2)" by (metis prod.exhaust)
  obtain x s3 where x: "call (sock_recv w 34) s2 = (x, s3)" by (metis prod.exhaust)
  have s12: "s' = s1 \<or> kept s2 s'"
    using assms q c n x call_kept [OF x]
    by (auto simp: pep_isSonCard_def bind_eq_Some_conv split: if_splits received.splits option.splits
      dest!: rcv_body_kept intro: kept_trans [OF kept_trans effect_kept] kept_trans)
  have k: "kept s s1" by (rule conToHost_kept [OF c])
  note g = sndMsg_grew(1) [OF n]
  show ?thesis
  proof (cases "kept s s'")
    case True
    then show ?thesis by (intro exI [of _ "[]"]) (simp add: kept_def grew_def)
  next
    case False
    with s12 k g have "grew [Sent q] s s' \<and> cp s' = cp s \<and> tg s' = tg s"
      by (auto simp: kept_def grew_def)
    with q show ?thesis by (intro exI [of _ "[Sent q]"]) auto
  qed
qed

lemma after_payment_spec:
  assumes "after_payment w n s = Some s'" "ver9000 (tg s)" "rsp_is (cp s) ''00''"
  shows "\<exists>page. (page = [] \<or> page_query 2 s' page) \<and> grew page s s' \<and> cp s' = cp s \<and> tg s' = tg s"
proof -
  define s1 where "s1 = (if inType (tg s) = 0x0C then effect (ts_box w) s else s)"
  have k: "kept s s1" by (simp add: s1_def)
  show ?thesis
  proof (cases "pool_page (tg s1)")
    case False
    then have "s' = s1" using assms(1) by (simp add: after_payment_def s1_def Let_def)
    with k show ?thesis by (intro exI [of _ "[]"]) (simp add: kept_def grew_def)
  next
    case True
    then obtain son s2 f where p: "pep_isSonCard w (dll_pos_no (tg s1)) s1 = Some (son, s2)" and e: "s' = effect f s2"
      using assms(1) by (auto simp: after_payment_def s1_def [symmetric] Let_def bind_eq_Some_conv)
    from pep_isSonCard_spec [OF p] obtain evs where "evs = [] \<or> (\<exists>d q. son_query d (dll_pos_no (tg s1)) = Some q \<and> evs = [Sent q])"
      "grew evs s1 s2" "cp s2 = cp s1" "tg s2 = tg s1" by blast
    with effect_kept [of s2 f] k e assms(2,3) True show ?thesis
      by (intro exI [of _ evs]) (auto simp: kept_def grew_def page_query_def)
  qed
qed

lemma check_serial_spec:
  assumes "check_serial w flag n s = Some (r, s')"
  shows "\<exists>evs page. logged evs \<and> (page = [] \<or> r = 0 \<and> page_query flag s' page) \<and> grew (evs @ page) s s'"
    "r = 0 \<Longrightarrow> serial_free (tg s') \<or> serial_ok s'" "r = 0 \<or> r = -1"
proof -
  let ?s = "s\<lparr>tg := unsigned_serial (tg s)\<rparr>"
  obtain b where b: "byte_to_hex (FIELD (cp s) 11) 3 = Some b"
    using assms by (auto simp: check_serial_def bind_eq_Some_conv)
  obtain s1 page where s1: "\<exists>evs. logged evs \<and> grew evs ?s s1" "cp s1 = cp s" "tg s1 = tg ?s"
    "page = [] \<or> r = 0 \<and> page_query flag s' page" "grew page s1 s'" "cp s' = cp s1" "tg s' = tg s1"
    and r: "r = 0 \<and> (serial_free (tg ?s) \<or> take 6 (pos_serial (tg ?s)) = take 6 b) \<or> r = -1"
  proof (cases "serial_free (tg ?s)")
    case True
    then have "r = 0" "s' = ?s" using assms b by (auto simp: check_serial_def serial_free_def)
    then show ?thesis using True that [of ?s "[]"] by (auto simp: logged_def grew_def)
  next
    case False
    show ?thesis
    proof (cases "take 6 (pos_serial (tg ?s)) = take 6 b")
      case True
      let ?m = "monitor (trade_type flag (tg ?s)) (answer_stat (cp s)) (rsp (cp s)) ?s"
      note m = monitor_logged [of ?s "trade_type flag (tg ?s)" "answer_stat (cp s)" "rsp (cp s)"]
      show ?thesis
      proof (cases "flag = 2 \<and> ver9000 (tg ?m) \<and> rsp_is (cp ?m) ''00''")
        case page: True
        then have "after_payment w n ?m = Some s'" "r = 0"
          using False True assms b by (auto simp: check_serial_def serial_free_def Let_def bind_eq_Some_conv)
        from after_payment_spec [OF this(1)] page this(2) True m that [of ?m] show ?thesis by auto
      next
        case no: False
        then have "s' = ?m" "r = 0"
          using False True assms b by (auto simp: check_serial_def serial_free_def Let_def split: if_splits)
        then show ?thesis using True m that [of ?m "[]"] by (simp add: grew_def)
      qed
    next
      case ne: False
      let ?m = "monitor (trade_type flag (tg ?s)) 2 7 ?s"
      have "r = -1" "kept ?m s'"
        using ne False assms b by (auto simp: check_serial_def serial_free_def Let_def)
      then show ?thesis using that [of ?m "[]"] monitor_logged [of ?s "trade_type flag (tg ?s)" 2 7] by (simp add: kept_def grew_def)
    qed
  qed
  show "\<exists>evs page. logged evs \<and> (page = [] \<or> r = 0 \<and> page_query flag s' page) \<and> grew (evs @ page) s s'"
    using s1(1,4,5) grew_trans [of _ ?s s1 page s'] by (auto simp: grew_def)
  show "r = 0 \<or> r = -1" using r by auto
  show "r = 0 \<Longrightarrow> serial_free (tg s') \<or> serial_ok s'" using r s1 b by (auto simp: serial_ok_def)
qed

lemma read_answer_spec:
  assumes "read_answer w flag n q buf s = Some (r, s')"
  shows "\<exists>evs page. logged evs \<and> (page = [] \<or> r = 0 \<and> page_query flag s' page) \<and> grew (evs @ page) s s'"
    "r = 0 \<Longrightarrow> serial_free (tg s') \<or> serial_ok s'"
proof -
  obtain ok p where u: "unpackFunc buf 0 (cp s) = Some (ok, p)"
    using assms by (auto simp: read_answer_def bind_eq_Some_conv)
  let ?s = "s\<lparr>cp := p\<rparr>"
  have "(\<exists>evs page. logged evs \<and> (page = [] \<or> r = 0 \<and> page_query flag s' page) \<and> grew (evs @ page) s s')
    \<and> (r = 0 \<longrightarrow> serial_free (tg s') \<or> serial_ok s')"
  proof (cases "ok = 1")
    case False
    then have "r = -3" "kept ?s s'" using assms u by (auto simp: read_answer_def)
    then show ?thesis by (auto simp: kept_def grew_def logged_def)
  next
    case True
    then obtain s2 s3 where a: "record_answer w flag q ?s = Some s2" "logon_bits w s2 = Some s3" "check_serial w flag n s3 = Some (r, s')"
      using assms u by (auto simp: read_answer_def bind_eq_Some_conv)
    have "trace s3 = trace s"
      using kept_trans [OF record_answer_kept [OF a(1)] logon_bits_kept [OF a(2)]] by (simp add: kept_def)
    then show ?thesis using check_serial_spec [OF a(3)] by (simp add: grew_def)
  qed
  then show "\<exists>evs page. logged evs \<and> (page = [] \<or> r = 0 \<and> page_query flag s' page) \<and> grew (evs @ page) s s'"
    "r = 0 \<Longrightarrow> serial_free (tg s') \<or> serial_ok s'" by simp_all
qed

section \<open>The exchange\<close>

text \<open>The packets an exchange may send.\<close>

definition own_packet :: "int \<Rightarrow> 'e trade \<Rightarrow> event list \<Rightarrow> bool" where
  "own_packet flag s evs \<longleftrightarrow> (\<exists>p q d. Comm_Pack flag (gbl.truncate (tg s)) (cp s) = Some (p, q) \<and> framed p = Some d \<and> evs = [Sent d])"

lemma order_clock_keeps: "order_clock w flag s = Some s' \<Longrightarrow> trace s' = trace s \<and> cp s' = cp s"
  by (auto simp: order_clock_def bind_eq_Some_conv kept_def split: if_splits dest!: db_time_kept)

lemma packHdl_spec:
  assumes "packHdl w flag s = Some (r, s')"
  shows "\<exists>sent mons page. trace s' = trace s @ sent @ mons @ page \<and> (sent = [] \<or> own_packet flag s sent) \<and> logged mons
    \<and> (page = [] \<or> r = 0 \<and> page_query flag s' page)
    \<and> (r = 0 \<longrightarrow> (serial_free (tg s') \<or> serial_ok s') \<and> (select_marks w \<longrightarrow> sent \<noteq> []))
    \<and> (sent \<noteq> [] \<or> page \<noteq> [] \<longrightarrow> (\<exists>n s1. check_limit w flag s = Some (Inr n, s1)))"
proof -
  obtain stop s1 where c: "check_limit w flag s = Some (stop, s1)"
    using assms by (auto simp: packHdl_def bind_eq_Some_conv)
  note k1 = check_limit_kept [OF c]
  show ?thesis
  proof (cases stop)
    case (Inl x)
    have "x = -1" using c Inl by (elim check_limit_cases) auto
    with assms c Inl k1 have "r = -1" "trace s' = trace s" by (auto simp: packHdl_def kept_def)
    then show ?thesis by (intro exI [of _ "[]"]) (simp add: logged_def)
  next
    case (Inr n)
    obtain p q d where b: "Comm_Pack flag (gbl.truncate (tg s)) (cp s) = Some (p, q)" "framed p = Some d"
      using assms c Inr k1 by (auto simp: packHdl_def bind_eq_Some_conv kept_def)
    let ?s2 = "s1\<lparr>cp := q\<rparr>"
    obtain sq s3 s4 where st: "(if flag < 4 then put_txn w flag [] ?s2 else Some ([], ?s2)) = Some (sq, s3)"
      "order_clock w flag s3 = Some s4"
      and rest: "(case send_recv w flag d s4 of ((res, buf), s5) \<Rightarrow>
        if res \<noteq> 0 then Some (-2, no_answer w flag res s5) else read_answer w flag n sq buf s5) = Some (r, s')"
      using assms c Inr k1 b by (auto simp: packHdl_def bind_eq_Some_conv kept_def Let_def)
    obtain res buf s5 where sr: "send_recv w flag d s4 = ((res, buf), s5)" by (metis prod.exhaust)
    have t3: "trace s3 = trace s"
      using st(1) k1 by (auto simp: kept_def split: if_splits dest!: put_txn_kept)
    have t4: "trace s4 = trace s" using order_clock_keeps [OF st(2)] t3 by simp
    obtain sent where snt: "trace s5 = trace s @ sent" "sent = [] \<or> sent = [Sent d]"
      "select_marks w \<and> res = 0 \<longrightarrow> sent = [Sent d]"
    proof -
      have "select_marks w \<and> res = 0 \<longrightarrow> trace s5 = trace s @ [Sent d]" "trace s5 = trace s \<or> trace s5 = trace s @ [Sent d]"
        using send_recv_grew [OF sr] t4 by (auto simp: grew_def)
      then show thesis by (cases "trace s5 = trace s") (rule that [of "[]"], auto intro: that [of "[Sent d]"])
    qed
    have "\<exists>mons page. logged mons \<and> (page = [] \<or> r = 0 \<and> page_query flag s' page) \<and> grew (mons @ page) s5 s' \<and> (r = 0 \<longrightarrow> res = 0 \<and> (serial_free (tg s') \<or> serial_ok s'))"
    proof (cases "res = 0")
      case True
      with rest sr have "read_answer w flag n sq buf s5 = Some (r, s')" by simp
      from read_answer_spec [OF this] True show ?thesis by blast
    next
      case False
      with rest sr have "r = -2" "s' = no_answer w flag res s5" by simp_all
      with no_answer_logged [of s5 w flag res] show ?thesis by (metis append_Nil2 neg_numeral_neq_numeral zero_neq_neg_numeral)
    qed
    then obtain mons page where "logged mons" "page = [] \<or> r = 0 \<and> page_query flag s' page" "grew (mons @ page) s5 s'" "r = 0 \<longrightarrow> res = 0 \<and> (serial_free (tg s') \<or> serial_ok s')" by blast
    then show ?thesis
      using snt b c Inr by (intro exI [of _ sent] exI [of _ mons] exI [of _ page]) (auto simp: grew_def own_packet_def)
  qed
qed

text \<open>C4: one exchange puts at most one packet on the wire for the host of the trades, the one built for the kind of the exchange from the state before it, and writes at most one line of the monitoring log. A second packet, the question whether the terminal has a card of a pool, leaves only behind the first one and only after a payment that succeeds: the host has accepted it, the terminal is a newer one with a card of such a bank, and the packet names the terminal. An exchange reports success only when its packet was sent (given a select that marks the socket it reports) and the answer carried the serial number of the terminal, unless the business is one of the two that do not compare it.\<close>

theorem packHdl_one_packet:
  assumes "packHdl w flag s = Some (r, s')" "select_marks w"
  shows "\<exists>sent mons page. trace s' = trace s @ sent @ mons @ page \<and> (sent = [] \<or> own_packet flag s sent) \<and> logged mons
    \<and> (page = [] \<or> sent \<noteq> [] \<and> r = 0 \<and> page_query flag s' page)
    \<and> (r = 0 \<longrightarrow> sent \<noteq> [] \<and> (serial_free (tg s') \<or> serial_ok s'))"
proof -
  from packHdl_spec [OF assms(1)] obtain sent mons page where "trace s' = trace s @ sent @ mons @ page"
    "sent = [] \<or> own_packet flag s sent" "logged mons" "page = [] \<or> r = 0 \<and> page_query flag s' page"
    "r = 0 \<longrightarrow> (serial_free (tg s') \<or> serial_ok s') \<and> sent \<noteq> []" using assms(2) by blast
  then show ?thesis by (intro exI [of _ sent] exI [of _ mons] exI [of _ page]) blast
qed

section \<open>The limit\<close>

lemma sint32_range: "- (2 ^ 31) \<le> sint (x :: 32 word) \<and> sint x < 2 ^ 31"
  using sint_greater_eq [of x] sint_less [of x] by simp

lemma getDayAmo_range: "getDayAmo w t 0 d = (Done n, d') \<Longrightarrow> - (2 ^ 31) \<le> n \<and> n < 2 ^ 31"
proof -
  assume "getDayAmo w t 0 d = (Done n, d')"
  then have "n = 0 \<or> (\<exists>x :: 32 word. n = sint x)"
    by (auto simp: getDayAmo_def Let_def select_buf_def or_none_def first_row_def outcome_of_def
      split: if_splits prod.splits option.splits)
  then show ?thesis using sint32_range by auto
qed

lemma sum_wraps:
  fixes a :: "32 word"
  assumes "- (2 ^ 31) \<le> n" "n < 2 ^ 31" "0 \<le> n + sint a" "n + sint a < 2 ^ 31"
  shows "sint (word_of_int n + a) = n + sint a"
proof -
  have "word_of_int n + a = word_of_int (n + sint a)" by simp
  then have "sint (word_of_int n + a) = sint (word_of_int (n + sint a) :: 32 word)" by (rule arg_cong)
  also have "\<dots> = signed_take_bit 31 (n + sint a)" by (simp only: sint_sbintrunc') simp
  also have "\<dots> = n + sint a" using assms by (simp add: signed_take_bit_int_eq_self)
  finally show ?thesis .
qed

text \<open>C9: a payment of a business with a limit is put on the wire only when the total of the day could be read and, together with the amount, does not exceed the limit of the terminal, unless that sum leaves the 32-bit range.\<close>

theorem payment_within_limit:
  assumes "packHdl w 2 s = Some (r, s')" "\<not> limit_free (tg s)" "Sent p \<in> set (drop (length (trace s)) (trace s'))"
    and "0 < dayAmo (tg s)"
  shows "\<exists>n d. getDayAmo (odb w) (dll_pos_no (tg s)) 0 (base s) = (Done n, d)
    \<and> (n + sint (atoi32 (amount (tg s))) \<le> dayAmo (tg s) \<or> n + sint (atoi32 (amount (tg s))) \<ge> 2 ^ 31)"
proof -
  obtain sent mons page where sm: "trace s' = trace s @ sent @ mons @ page" "logged mons"
    "sent \<noteq> [] \<or> page \<noteq> [] \<longrightarrow> (\<exists>m s1. check_limit w 2 s = Some (Inr m, s1))" using packHdl_spec [OF assms(1)] by blast
  have "sent \<noteq> [] \<or> page \<noteq> []" using sm(1,2) assms(3) by (auto simp: logged_def)
  with sm(3) obtain m s1 where c: "check_limit w 2 s = Some (Inr m, s1)" by blast
  then obtain n d where n: "getDayAmo (odb w) (dll_pos_no (tg s)) 0 (base s) = (Done n, d)" "\<not> over_limit (tg s) n"
    using assms(2) by (elim check_limit_cases) auto
  let ?a = "atoi32 (amount (tg s))"
  have "n + sint ?a \<le> dayAmo (tg s) \<or> n + sint ?a \<ge> 2 ^ 31"
  proof (cases "0 \<le> n + sint ?a \<and> n + sint ?a < 2 ^ 31")
    case True
    then have "sint (word_of_int n + ?a) = n + sint ?a" using sum_wraps getDayAmo_range [OF n(1)] by blast
    with n(2) assms(4) show ?thesis by (simp add: over_limit_def)
  next
    case False
    with assms(4) show ?thesis by linarith
  qed
  with n(1) show ?thesis by blast
qed

text \<open>The exception is real: a sum past the range passes every limit.\<close>

lemma limit_wraps:
  assumes "atoi32 (amount g) = 2000000000" "dayAmo g = 500000"
  shows "\<not> over_limit g 200000000"
  using assms by (simp add: over_limit_def)

section \<open>An exchange\<close>

text \<open>A database that logs the statements it executes and a host with one answer, whatever it is sent; empty for none.\<close>

definition shop_db :: "bytes list odb" where
  "shop_db = \<lparr>reconnect = \<lambda>i e. (False, e), get_rs = \<lambda>i s e. (Some [\<lambda>_. Some (asc ''0001'')], e),
     exec_sql = \<lambda>i s e. (False, e @ [s]), while_asleep = \<lambda>cs e. (cs, e)\<rparr>"

definition shop :: "bytes \<Rightarrow> bytes list term_world" where
  "shop ans = \<lparr>odb = shop_db, clock = \<lambda>e. asc ''20150831120000'', trade_flag = True, pe_ip = [0], pe_port = 0,
     net_up = \<lambda>e. (True, e), net_sock = \<lambda>e. (True, e), net_look = \<lambda>h e. (True, e), net_conn = \<lambda>h p e. (True, e),
     sel_write = \<lambda>t e. ((1, True), e), sel_read = \<lambda>t e. ((1, True), e), net_snd = \<lambda>d e. e, net_rcv = \<lambda>n e. (ans, e),
     net_shut = \<lambda>e. e, sock_recv = \<lambda>n e. (Broken, e), ts_par = \<lambda>n e. e, ts_box = \<lambda>e. e,
     head_page = \<lambda>m y e. e, ask = \<lambda>n e. ((0, 0), e),
     mngCard = \<lambda>t c p g e. ((0, g), e), getCardPwd = \<lambda>t g e. ((0, g), e)\<rparr>"

definition sale_gbl :: tgbl where
  "sale_gbl = \<lparr>card_no = asc ''6222021234567890'' @ [0], card_no_len = 16, amount = asc ''000000010000'' @ [0],
     stan_no = asc ''000000000000'' @ [0], pos_no = asc ''60000001'' @ [0], fee_type = asc ''0131'' @ [0],
     phone_no = [0], phone_len = 0, curworkid = [0], pos_serial = asc ''000123'' @ [0], password = [], track2 = [], track2_len = 0,
     track3 = [], track3_len = 0, xlt_card = [], random_num = [], key_num = 0, eny = False, psamNum = [], ip = [],
     bank = asc ''999999'', logon_random2 = [], order_no = [0], call_tel = [0], order_time = [], dayAmo = 50000000, timeout = 0,
     mycoolpayeasy_return = 0, prmVer = asc ''8000'' @ [0], inType = 0, dll_pos_no = asc ''60000001'' @ [0], get_card = 0\<rparr>"

definition sale :: "bytes list trade" where
  "sale = \<lparr>base = \<lparr>conns = [0], outside = []\<rparr>, trace = [],
     cp = \<lparr>MTI_Code = [0, 0, 0], FIELD = (\<lambda>_. replicate 17 0), Real_Length = (\<lambda>_. 1)\<rparr>, tg = sale_gbl\<rparr>"

lemma free_conn: "getConnStat shop_db \<lparr>conns = [0], outside = e\<rparr> = (Some 0, \<lparr>conns = [Suc 0], outside = e\<rparr>)"
  by (simp add: getConnStat_def numeral_eq_Suc)

lemma shop_rs: "run_rs shop_db i sql d = (Some [\<lambda>_. Some (asc ''0001'')], d)"
  by (simp add: run_rs_def shop_db_def)

lemma shop_amo: "getDayAmo shop_db (asc ''60000001'' @ [0]) 0 (base sale) = (Done 1, base sale)"
proof -
  have a: "sint (atoi32 (asc ''0001'')) = 1" by code_simp
  have c: "length (asc ''select sum_dayamo from epos_term where term_id='' @ sq (asc ''60000001'' @ [0])) = 57" by code_simp
  show ?thesis
    unfolding getDayAmo_def Let_def sale_def trade.simps
    by (simp del: length_append add: select_buf_def c free_conn shop_rs or_none_def first_row_def outcome_of_def set_conn_def a)
qed

lemma sale_limit: "check_limit (shop a) 2 sale = Some (Inr 1, sale)"
proof -
  have a: "\<not> strstr ECARDTRADE (cstr (fee_type sale_gbl))" "\<not> over_limit sale_gbl 1" by code_simp+
  have b: "dll_pos_no sale_gbl = asc ''60000001'' @ [0]" "tg sale = sale_gbl" by (simp_all add: sale_gbl_def sale_def)
  have c: "odb (shop a) = shop_db" by (simp add: shop_def)
  show ?thesis by (simp add: check_limit_def Let_def on_db_def a b c shop_amo)
qed

lemma sale_map: "SetAllBitMap (replicate 17 0) (bits_payment (gbl.truncate sale_gbl)) = [0x70, 0x38, 0x01, 0, 0x40, 0x81, 0x12, 0x0F, 0, 0, 0, 0, 0, 0, 0, 0, 0]"
  by code_simp

definition sale_pack :: pack where
  "sale_pack = \<lparr>MTI_Code = [0x02, 0x00, 0], FIELD = (\<lambda>_. replicate 17 0)(1 := [0x70, 0x38, 0x01, 0, 0x40, 0x81, 0x12, 0x0F, 0, 0, 0, 0, 0, 0, 0, 0, 0]),
     Real_Length = (\<lambda>_. 1)\<rparr>"

lemma sale_exchange: "Exchange_PAYMENT (gbl.truncate (tg sale)) (cp sale) = sale_pack"
  by (simp add: Exchange_PAYMENT_def exchange_def sale_def sale_pack_def sale_map)

lemma len1: "len_bcd (Suc 0) = Some [0, 1, 0]"
proof -
  have "hex_pairs (pad0 4 (dec_digits 1)) = [0, 1]" by code_simp
  then show ?thesis using len_bcd_pairs [of 1] by simp
qed

definition sale_packet :: bytes where
  "sale_packet = [2, 0, 0x70, 0x38, 0x01, 0, 0x40, 0x81, 0x12, 0x0F, 1, 0, 0, 0, 0, 0, 0, 0, 1, 0, 0, 0,
   1, 0, 0, 0, 1, 0, 0, 1, 0, 0, 1, 0, 0, 1, 0, 0]"

lemma sale_packed: "packFunc sale_pack = Some sale_packet"
  by (simp add: packFunc_def sale_pack_def sale_packet_def upt_rec_numeral CheckBitMap_def pack_field_def Packet_Table_def Packet_List_def copy_at_def len1)

lemma sale_framed: "framed sale_packet = Some (0 # 0x38 # sale_packet)"
proof -
  have l: "length sale_packet = 38" by (simp add: sale_packet_def)
  have "hex_pairs (pad0 4 (dec_digits 38)) = [0, 0x38]" by code_simp
  with len_bcd_pairs [of 38] obtain n where "hex_to_byte (pad0 4 (dec_digits 38) @ [0]) 4 0 = Some ([0, 0x38, 0], n)"
    by (auto simp: len_bcd_def)
  then show ?thesis by (simp add: framed_def l)
qed

definition sale2 :: "bytes list trade" where "sale2 = sale\<lparr>cp := sale_pack\<rparr>"

definition insert_text :: bytes where
  "insert_text = txn_text 2 sale_gbl (asc ''0001'') [] [] []"

definition sale3 :: "bytes list trade" where
  "sale3 = sale2\<lparr>base := \<lparr>conns = [0], outside = [insert_text]\<rparr>\<rparr>"

lemma kept_eq: "kept s s' \<Longrightarrow> base s' = b \<Longrightarrow> s' = s\<lparr>base := b\<rparr>"
  by (cases s; cases s') (auto simp: kept_def)

lemma sale_put: "put_txn (shop a) 2 [] sale2 = Some (asc ''0001'', sale3)"
proof -
  have "map_option (\<lambda>(q, s'). (q, base s')) (put_txn (shop []) 2 [] sale2) = Some (asc ''0001'', \<lparr>conns = [0], outside = [insert_text]\<rparr>)"
    by code_simp
  then obtain s' where p: "put_txn (shop []) 2 [] sale2 = Some (asc ''0001'', s')" "base s' = \<lparr>conns = [0], outside = [insert_text]\<rparr>"
    by auto
  moreover have "odb (shop a) = odb (shop [])" by (simp add: shop_def)
  ultimately have "put_txn (shop a) 2 [] sale2 = Some (asc ''0001'', s')" by (simp add: put_txn_def)
  with kept_eq [OF put_txn_kept [OF p(1)] p(2)] show ?thesis by (simp add: sale3_def)
qed

definition sale4 :: "bytes list trade" where
  "sale4 = sale3\<lparr>tg := sale_gbl\<lparr>order_time := asc ''0001''\<rparr>\<rparr>"

lemma sale_clock: "order_clock (shop a) 2 sale3 = Some sale4"
proof -
  have "getDBtime shop_db (base sale3) = (Done (asc ''0001''), base sale3)"
    by (simp add: getDBtime_def select_op_def select_gen_def sale3_def free_conn shop_rs or_none_def first_row_def outcome_of_def set_conn_def)
  moreover have "odb (shop a) = shop_db" by (simp add: shop_def)
  ultimately show ?thesis by (simp add: order_clock_def db_time_def on_db_def sale4_def sale3_def sale2_def sale_def)
qed

definition sale5 :: "bytes list trade" where
  "sale5 = sale4\<lparr>trace := [Sent (0 # 0x38 # sale_packet)]\<rparr>"

lemma call_still: "call (\<lambda>e. (x, e)) s = (x, s)" "call (Pair x) s = (x, s)" "effect (\<lambda>e. e) s = s"
  by (simp_all add: call_def effect_def)

lemma shop_sel:
  "net_up (shop a) = (\<lambda>e. (True, e))" "net_sock (shop a) = (\<lambda>e. (True, e))" "net_look (shop a) h = (\<lambda>e. (True, e))"
  "net_conn (shop a) h p = (\<lambda>e. (True, e))" "sel_write (shop a) n = (\<lambda>e. ((1, True), e))" "sel_read (shop a) n = (\<lambda>e. ((1, True), e))"
  "net_snd (shop a) d = (\<lambda>e. e)" "net_rcv (shop a) k = (\<lambda>e. (a, e))" "net_shut (shop a) = (\<lambda>e. e)"
  by (simp_all add: shop_def)

lemma sale_sent: "send_recv (shop []) 2 d sale4 = ((4, replicate 1025 0), emit (Sent d) sale4)"
proof -
  have f: "\<not> ver9000 (tg sale4)" "timeout (tg sale4) = 0" by code_simp+
  have "conToHost (shop []) h p s = (0, s)" for h p s by (simp add: conToHost_def shop_sel call_still)
  moreover have "sndMsg (shop []) d 0 s = (0, emit (Sent d) s)" for s by (simp add: sndMsg_def shop_sel call_still)
  moreover have "rcvMsg (shop []) 1024 t s = ((-1, []), s)" for t s by (simp add: rcvMsg_def shop_sel call_still)
  ultimately show ?thesis by (simp add: send_recv_def f HostSendRecvData_def shop_sel call_still Let_def)
qed

definition sale_frame :: bytes where "sale_frame = 0 # 0x38 # sale_packet"

text \<open>The host does not answer: the payment was sent, and the trade ends with -2.\<close>

lemma sale_run: "\<exists>s'. packHdl (shop []) 2 sale = Some (-2, s') \<and> trace s' = [Sent sale_frame, Monitor 2 2 4]"
proof -
  have c: "Comm_Pack 2 (gbl.truncate (tg sale)) (cp sale) = Some (sale_packet, sale_pack)"
    using sale_exchange sale_packed by (simp add: Comm_Pack_def Comm_Payment_def packed_def)
  have p: "put_txn (shop []) 2 [] (sale\<lparr>cp := sale_pack\<rparr>) = Some (asc ''0001'', sale3)"
    using sale_put by (simp add: sale2_def)
  have t: "trace sale4 = []" "tg sale4 = sale_gbl\<lparr>order_time := asc ''0001''\<rparr>"
    by (simp_all add: sale4_def sale3_def sale2_def sale_def)
  have "trace (no_answer (shop []) 2 4 (emit (Sent sale_frame) sale4)) = [Sent sale_frame, Monitor 2 2 4]"
    by (simp add: no_answer_def log_type_def monitor_def emit_def t sale_gbl_def call_def split: prod.splits)
  then show ?thesis
    by (simp add: packHdl_def sale_limit c sale_framed p sale_clock sale_sent sale_frame_def)
qed

theorem packHdl_one_packet_witness:
  "\<exists>s' sent mons. packHdl (shop []) 2 sale = Some (-2, s') \<and> trace s' = trace sale @ sent @ mons
    \<and> (sent = [] \<or> own_packet 2 sale sent) \<and> logged mons"
proof -
  obtain s' where r: "packHdl (shop []) 2 sale = Some (-2, s')" using sale_run by blast
  have "select_marks (shop [])" by (simp add: select_marks_def shop_sel)
  from packHdl_one_packet [OF r this] obtain sent mons page where "trace s' = trace sale @ sent @ mons @ page"
    "sent = [] \<or> own_packet 2 sale sent" "logged mons" "page = []" by force
  with r show ?thesis by auto
qed

theorem payment_within_limit_witness:
  "\<exists>n d. getDayAmo shop_db (asc ''60000001'' @ [0]) 0 (base sale) = (Done n, d)
    \<and> (n + 10000 \<le> 50000000 \<or> n + 10000 \<ge> 2 ^ 31)"
proof -
  obtain s' where r: "packHdl (shop []) 2 sale = Some (-2, s')" "trace s' = [Sent sale_frame, Monitor 2 2 4]"
    using sale_run by blast
  have l: "\<not> limit_free (tg sale)" "0 < dayAmo (tg sale)" by code_simp+
  have "Sent sale_frame \<in> set (drop (length (trace sale)) (trace s'))" by (simp add: r(2) sale_def)
  from payment_within_limit [OF r(1) l(1) this l(2)]
  obtain n d where "getDayAmo (odb (shop [])) (dll_pos_no (tg sale)) 0 (base sale) = (Done n, d)"
    "n + sint (atoi32 (amount (tg sale))) \<le> dayAmo (tg sale) \<or> n + sint (atoi32 (amount (tg sale))) \<ge> 2 ^ 31" by blast
  moreover have "sint (atoi32 (amount (tg sale))) = 10000" by code_simp
  moreover have "dayAmo (tg sale) = 50000000" "dll_pos_no (tg sale) = asc ''60000001'' @ [0]" "odb (shop []) = shop_db"
    by (simp_all add: sale_def sale_gbl_def shop_def)
  ultimately show ?thesis by auto
qed


end
