(* ===== verification/BusCharge.thy ===== *)
theory BusCharge
  imports TradePack
begin

text \<open>
  Topping up a bus card, \<open>src/CTSI/ZHBusTrade.cpp\<close>: the payment with its card and password, the change of the
  customer's card by the terminal library, the confirmation of the payment or its reversal. Numbers of messages
  and questions: 1 wrong password, 8 not accepted, 9 card not supported, 10 put the card on the reader,
  11 registration failed, 12 sign-on failed, 13 query failed, 14 charge this card, 15 charge this amount,
  16 charging failed, 17 charged, print.
\<close>

section \<open>The terminal\<close>

text \<open>\<open>zh_topup\<close> changes the customer's card: the code, the new balance, the number of the change, the number
  of the card and the buffer of the device's number.\<close>

record 'e bus_world =
  tw :: "'e term_world"
  zh_login :: "'e \<Rightarrow> int \<times> 'e"
  zh_sign :: "'e \<Rightarrow> int \<times> 'e"
  zh_query :: "'e \<Rightarrow> (int \<times> int) \<times> 'e"
  zh_menu :: "'e \<Rightarrow> (int \<times> int) \<times> 'e"
  zh_topup :: "int \<Rightarrow> 'e \<Rightarrow> (int \<times> int \<times> int \<times> int \<times> bytes) \<times> 'e"

section \<open>One exchange\<close>

text \<open>The record of the transaction is tried up to four times; its last sequence number stays.\<close>

fun txn_tries :: "'e term_world \<Rightarrow> nat \<Rightarrow> bytes \<Rightarrow> 'e trade \<Rightarrow> (bytes \<times> 'e trade) option" where
  "txn_tries w n seq s = (case setEposTxn (odb w) 2 (tg s) (cp s) seq (base s) of
     ((Exc, q), d) \<Rightarrow> None
   | ((Done _, q), d) \<Rightarrow> Some (q, s\<lparr>base := d\<rparr>)
   | ((Code c, q), d) \<Rightarrow> (case n of 0 \<Rightarrow> Some (q, s\<lparr>base := d\<rparr>) | Suc m \<Rightarrow> txn_tries w m q (s\<lparr>base := d\<rparr>)))"

definition zh_type :: "int \<Rightarrow> int" where
  "zh_type flag = (if flag = 2 then 13 else if flag = 5 then 3 else -1)"

text \<open>The trade number of a payment, a confirmation and a reversal is 2, 4 and 5. The result: 0 answered, 2 no
  answer, 3 not readable (1, a packet that cannot be built, does not occur). The time is stored in a copy of
  \<open>gbl\<close> and not used.\<close>

definition zh_packHdl :: "'e term_world \<Rightarrow> int \<Rightarrow> 'e trade \<Rightarrow> (int \<times> 'e trade) option" where
  "zh_packHdl w flag s = do {
     (packet, p) \<leftarrow> Comm_Pack flag (gbl.truncate (tg s)) (cp s);
     frame \<leftarrow> framed packet;
     (seq, s1) \<leftarrow> (if flag = 2 then txn_tries w 3 [] (s\<lparr>cp := p\<rparr>) else Some ([], s\<lparr>cp := p\<rparr>));
     s2 \<leftarrow> (if flag = 2 then map_option snd (db_time w s1) else Some s1);
     case HostSendRecvData w frame 0 s2 of ((iRet, buf), s3) \<Rightarrow>
       if iRet \<noteq> 0 then Some (2, emit (Monitor (zh_type flag) 2 iRet) s3)
       else do {
         (ok, q) \<leftarrow> unpackFunc buf 0 (cp s3);
         let s4 = s3\<lparr>cp := q\<rparr>;
         if ok \<noteq> 1 then Some (3, s4)
         else do {
           s5 \<leftarrow> (if seq \<noteq> [] \<and> flag = 2 then map_option snd (put_txn w 22 seq s4) else Some s4);
           Some (0, if zh_type flag > 0 then emit (Monitor (zh_type flag) (answer_stat q) (rsp q)) s5 else s5) } } }"

section \<open>Fields\<close>

definition clear_field :: "nat \<Rightarrow> pack \<Rightarrow> pack" where
  "clear_field i st = st\<lparr>FIELD := (FIELD st)(i := replicate (length (FIELD st i)) 0)\<rparr>"

definition text_field :: "nat \<Rightarrow> bytes \<Rightarrow> pack \<Rightarrow> pack option" where
  "text_field i d st = map_option (set_len i (length d)) (put 0 d i (clear_field i st))"

definition pay_fields :: "bytes \<Rightarrow> tgbl \<Rightarrow> bytes \<Rightarrow> pack \<Rightarrow> pack option" where
  "pay_fields dt g cardno st = do {
     s1 \<leftarrow> wrField 2 dt (gbl.truncate g) st;
     s2 \<leftarrow> put 0 [0x39, 0x39] 46 s1;
     c \<leftarrow> copy_at 0 9 cardno;
     f \<leftarrow> copy_at 0 4 (fee_type g);
     text_field 48 (f @ asc ''09'' @ c) (set_len 46 2 s2) }"

definition ack_fields :: "bytes \<Rightarrow> tgbl \<Rightarrow> bytes \<Rightarrow> bytes \<Rightarrow> bytes \<Rightarrow> bytes \<Rightarrow> pack \<Rightarrow> pack option" where
  "ack_fields dt g cardno serial balance deviceId st = do {
     s1 \<leftarrow> wrField 4 dt (gbl.truncate g) st;
     c \<leftarrow> copy_at 0 9 cardno;
     s2 \<leftarrow> text_field 48 (asc ''035809'' @ c) s1;
     n \<leftarrow> copy_at 0 9 serial;
     b \<leftarrow> copy_at 0 12 balance;
     d \<leftarrow> copy_at 0 5 deviceId;
     text_field 63 (asc ''000'' @ n @ asc ''0000'' @ b @ asc ''00000'' @ d) s2 }"

definition rev_fields :: "bytes \<Rightarrow> tgbl \<Rightarrow> bytes \<Rightarrow> pack \<Rightarrow> pack option" where
  "rev_fields dt g cardno st = do {
     s1 \<leftarrow> wrField 5 dt (gbl.truncate g) st;
     n \<leftarrow> copy_at 0 6 (pos_serial g);
     c \<leftarrow> copy_at 0 9 cardno;
     text_field 48 (asc ''0358'' @ n @ asc ''09'' @ c) s1 }"

section \<open>Payment\<close>

definition wrong_card :: "string list" where
  "wrong_card = [''14'', ''15'', ''33'', ''35'', ''36'', ''56'', ''57'', ''60'', ''62'', ''91'']"

text \<open>The texts the dialogues show as their business.\<close>

definition yct_text :: bytes where "yct_text = [209, 242, 179, 199, 205, 168, 179, 228, 214, 181]"
definition zh_text :: bytes where "zh_text = [214, 233, 186, 163, 185, 171, 189, 187, 179, 228, 214, 181]"

text \<open>What \<open>CTrade::returnFail\<close> does besides showing a text: code 87 makes an older terminal log on, with the
  packet of its own \<open>CTrade\<close>, which is as the constructor left it. For code 80 it looks for 988620 in field 62
  of that packet, which is empty here, so none of the other logons is reached.\<close>

definition returnFail :: "'e term_world \<Rightarrow> bytes \<Rightarrow> 'e trade \<Rightarrow> 'e trade option" where
  "returnFail w code s = do {
     s1 \<leftarrow> (if sint (atoi32 (take 2 code @ [0])) = 87 \<and> \<not> eny (tg s)
       then map_option (\<lambda>(r, n, t). t\<lparr>cp := cp s, tg := tg s\<rparr>) (logonHdl w (s\<lparr>cp := CPack\<rparr>)) else Some s);
     Some (snd (call (ask w 8) s1)) }"

fun pay_loop :: "'e term_world \<Rightarrow> bytes \<Rightarrow> nat \<Rightarrow> bool \<Rightarrow> 'e trade \<Rightarrow> (int \<times> 'e trade) option" where
  "pay_loop w cardno 0 flag s = Some (-1, s)"
| "pay_loop w cardno (Suc n) flag s =
     (case (if flag then (0, s) else mngCard_Hdl w yct_text s) of (c, s1) \<Rightarrow>
       if c \<noteq> 0 then Some (1, s1\<lparr>tg := tg s\<rparr>)
       else do {
         p \<leftarrow> pay_fields (clock w (outside (base s1))) (tg s1) cardno (cp s1);
         (r, s2) \<leftarrow> zh_packHdl w 2 (s1\<lparr>cp := p\<rparr>);
         if r \<noteq> 0 then Some (r, s2)
         else if rsp_is (cp s2) ''00''
         then Some (0, s2\<lparr>tg := (tg s2)\<lparr>stan_no := take 12 (FIELD (cp s2) 37) @ [0]\<rparr>\<rparr>)
         else if rsp_is (cp s2) ''55''
         then (case reGetPwd w zh_text s2 of (q, s3) \<Rightarrow>
           if q = 0 then pay_loop w cardno n True s3 else Some (CANCLE_KEY, s3))
         else if list_ex (rsp_is (cp s2)) wrong_card
         then (case call (ask w 9) s2 of ((q, k), s3) \<Rightarrow>
           if k \<noteq> 0 then Some (-1, s3) else pay_loop w cardno n flag s3)
         else do { s3 \<leftarrow> returnFail w (FIELD (cp s2) 39) s2; Some (-1, s3) } })"

definition PayPe :: "'e term_world \<Rightarrow> bytes \<Rightarrow> 'e trade \<Rightarrow> (int \<times> 'e trade) option" where
  "PayPe w cardno s = pay_loop w cardno 50 False (s\<lparr>cp := CPack\<rparr>)"

section \<open>Confirmation and reversal\<close>

fun ack_loop :: "'e term_world \<Rightarrow> bytes \<Rightarrow> bytes \<Rightarrow> bytes \<Rightarrow> bytes \<Rightarrow> nat \<Rightarrow> 'e trade \<Rightarrow> (int \<times> 'e trade) option" where
  "ack_loop w cardno serial balance dev 0 s = Some (3, s)"
| "ack_loop w cardno serial balance dev (Suc n) s = do {
     p \<leftarrow> ack_fields (clock w (outside (base s))) (tg s) cardno serial balance dev (cp s);
     (r, s1) \<leftarrow> zh_packHdl w 4 (s\<lparr>cp := p\<rparr>);
     if r = 0 \<and> rsp_is (cp s1) ''00'' then Some (2, s1) else ack_loop w cardno serial balance dev n s1 }"

definition AckTrade :: "'e term_world \<Rightarrow> bytes \<Rightarrow> bytes \<Rightarrow> bytes \<Rightarrow> bytes \<Rightarrow> 'e trade \<Rightarrow> (int \<times> 'e trade) option" where
  "AckTrade w cardno serial balance dev s = ack_loop w cardno serial balance dev 3 (s\<lparr>cp := CPack\<rparr>)"

fun rev_loop :: "'e term_world \<Rightarrow> bytes \<Rightarrow> nat \<Rightarrow> 'e trade \<Rightarrow> (int \<times> 'e trade) option" where
  "rev_loop w cardno 0 s = Some (6, s)"
| "rev_loop w cardno (Suc n) s = do {
     p \<leftarrow> rev_fields (clock w (outside (base s))) (tg s) cardno (cp s);
     (r, s1) \<leftarrow> zh_packHdl w 5 (s\<lparr>cp := p\<rparr>);
     if r = 0 then Some (if rsp_is (cp s1) ''00'' then 5 else 6, s1) else rev_loop w cardno n s1 }"

definition RevTrade :: "'e term_world \<Rightarrow> bytes \<Rightarrow> 'e trade \<Rightarrow> (int \<times> 'e trade) option" where
  "RevTrade w cardno s = rev_loop w cardno 3 (s\<lparr>cp := CPack\<rparr>)"

section \<open>The whole business\<close>

text \<open>\<open>%09ld\<close> and \<open>%012ld\<close>, and the former into ten characters.\<close>

definition padded :: "nat \<Rightarrow> int \<Rightarrow> bytes" where
  "padded k n = (if n < 0 then 0x2D # pad0 (k - 1) (dec_digits (nat (- n))) else pad0 k (dec_digits (nat n)))"

definition card_text :: "int \<Rightarrow> bytes option" where
  "card_text n = (let t = padded 9 n in if length t < 10 then Some (t @ [0]) else None)"

definition confirmed :: "'e term_world \<Rightarrow> nat \<Rightarrow> 'e trade \<Rightarrow> bool \<times> 'e trade" where
  "confirmed w n s = (case call (ask w n) s of ((r, k), s1) \<Rightarrow> (r = 0 \<and> k = 0, s1))"

definition menu_amount :: "int \<Rightarrow> bytes option" where
  "menu_amount i = (if i = 1 then Some (asc ''000000005000'' @ [0]) else if i = 2 then Some (asc ''000000010000'' @ [0])
     else if i = 3 then Some (asc ''000000015000'' @ [0]) else if i = 4 then Some (asc ''000000020000'' @ [0])
     else if i = 5 then Some (asc ''000000000500'' @ [0]) else None)"

text \<open>Registration, sign-on and the number of the card: \<open>None\<close> in the middle when one of them failed.\<close>

definition zh_begin :: "'e bus_world \<Rightarrow> 'e trade \<Rightarrow> (bytes option \<times> 'e trade) option" where
  "zh_begin b s = (let w = tw b in
     case confirmed w 10 s of (ok, s1) \<Rightarrow> if \<not> ok then Some (None, s1) else
     case call (zh_login b) s1 of (r, s2) \<Rightarrow> if r \<noteq> 0 then Some (None, snd (call (ask w 11) s2)) else
     case call (zh_sign b) s2 of (r, s3) \<Rightarrow> if r \<noteq> 0 then Some (None, snd (call (ask w 12) s3)) else
     case call (zh_query b) s3 of ((r, n), s4) \<Rightarrow> if r \<noteq> 0 then Some (None, snd (call (ask w 13) s4)) else
       map_option (\<lambda>t. (Some t, s4)) (card_text n))"

text \<open>After the payment. The reversal gets the number of the card from a buffer that is only filled later.\<close>

definition zh_finish :: "'e bus_world \<Rightarrow> 'e trade \<Rightarrow> (int \<times> 'e trade) option" where
  "zh_finish b s = (let w = tw b; amo = sint (atoi32 (amount (tg s))) in
     case call (zh_topup b amo) s of ((r, bal, no, asn, dev), s1) \<Rightarrow>
     if r \<noteq> 0 then do {
       (q, s2) \<leftarrow> RevTrade w (replicate 10 0) (snd (call (ask w 16) (emit (TopUp amo False) s1)));
       Some (-1, s2) }
     else do {
       t \<leftarrow> card_text asn;
       case confirmed w 17 (emit (TopUp amo True) s1) of (ok, s2) \<Rightarrow>
       if \<not> ok then Some (-1, s2)
       else do {
         (q, s3) \<leftarrow> AckTrade w t (int_txt no @ replicate (20 - length (int_txt no)) 0) (padded 12 bal) dev s2;
         Some (0, s3) } })"

definition ZHTrafficCardCharge :: "'e bus_world \<Rightarrow> 'e trade \<Rightarrow> (int \<times> 'e trade) option" where
  "ZHTrafficCardCharge b s0 = (let w = tw b; s = s0\<lparr>tg := (tg s0)\<lparr>fee_type := asc ''0358'' @ [0]\<rparr>\<rparr> in do {
     (t, s1) \<leftarrow> zh_begin b s;
     case t of None \<Rightarrow> Some (-1, s1) | Some cardno \<Rightarrow>
     case confirmed w 14 s1 of (ok, s2) \<Rightarrow> if \<not> ok then Some (-1, s2) else
     case call (zh_menu b) s2 of ((r, i), s3) \<Rightarrow> if r \<noteq> 0 then Some (-1, s3) else
     (let g = (case menu_amount i of None \<Rightarrow> tg s3 | Some a \<Rightarrow> (tg s3)\<lparr>amount := a\<rparr>) in
     case confirmed w 15 (s3\<lparr>tg := g\<rparr>) of (ok, s4) \<Rightarrow> if \<not> ok then Some (-1, s4) else do {
       (r, s5) \<leftarrow> PayPe w cardno s4;
       if r = 0 then zh_finish b s5 else Some (0, s5) }) })"

end
