(* ===== verification/BusProofs.thy ===== *)
theory BusProofs
  imports BusCharge TradeProofs
begin

text \<open>
  The protocol of a charge of \<open>BusCharge\<close> as an abstract machine over the events that leave the program, and
  the proof that every charge is a run of it: the customer's card is changed at most once and only after a
  payment was sent, a failed change is followed by reversals only, a successful one by confirmations only, at
  most three of each.
\<close>

section \<open>The protocol\<close>

text \<open>\<open>Paying\<close> tells whether a payment was sent, \<open>Acking\<close> and \<open>Reversing\<close> how many packets may still follow.\<close>

datatype saga = Paying bool | Acking nat | Reversing nat

definition mti :: "bytes \<Rightarrow> bytes" where "mti d = take 2 (drop 2 d)"

fun saga_step :: "saga \<Rightarrow> event \<Rightarrow> saga option" where
  "saga_step p (Monitor t st c) = Some p"
| "saga_step (Paying b) (Sent d) = (if mti d = [2, 0] then Some (Paying True)
     else if mti d = [8, 0] then Some (Paying b) else None)"
| "saga_step (Paying b) (TopUp a ok) = (if b then Some (if ok then Acking 3 else Reversing 3) else None)"
| "saga_step (Acking (Suc n)) (Sent d) = (if mti d = [3, 0x50] then Some (Acking n) else None)"
| "saga_step (Reversing (Suc n)) (Sent d) = (if mti d = [4, 0] then Some (Reversing n) else None)"
| "saga_step p e = None"

fun saga_run :: "saga \<Rightarrow> event list \<Rightarrow> saga option" where
  "saga_run p [] = Some p"
| "saga_run p (e # es) = do { q \<leftarrow> saga_step p e; saga_run q es }"

lemma saga_run_append: "saga_run p (xs @ ys) = do { q \<leftarrow> saga_run p xs; saga_run q ys }"
  by (induction xs arbitrary: p) (auto split: Option.bind_splits)

text \<open>The events from one state to another lead from one place of the protocol to another.\<close>

definition leads :: "saga \<Rightarrow> 'e trade \<Rightarrow> saga \<Rightarrow> 'e trade \<Rightarrow> bool" where
  "leads p s q s' \<longleftrightarrow> (\<exists>evs. grew evs s s' \<and> saga_run p evs = Some q)"

lemma leads_trans: "leads p s q t \<Longrightarrow> leads q t r u \<Longrightarrow> leads p s r u"
  unfolding leads_def by (metis grew_trans saga_run_append Option.bind.bind_lunit)

lemma leads_same: "trace s' = trace s \<Longrightarrow> leads p s p s'"
  unfolding leads_def by (rule exI [of _ "[]"]) (simp add: grew_def)

lemma leads_trace: "leads p s q t \<Longrightarrow> trace s1 = trace s \<Longrightarrow> trace t1 = trace t \<Longrightarrow> leads p s1 q t1"
  by (simp add: leads_def grew_def)

lemma leads_emit: "saga_step p e = Some q \<Longrightarrow> leads p s q (emit e s)"
  unfolding leads_def by (rule exI [of _ "[e]"]) simp

lemma kept_leads: "kept s s' \<Longrightarrow> leads p s p s'"
  by (simp add: kept_def leads_same)

section \<open>One exchange\<close>

definition mti_of :: "int \<Rightarrow> bytes" where
  "mti_of flag = (if flag = 1 then [1, 0] else if flag = 2 then [2, 0] else if flag = 3 then [8, 0]
     else if flag = 4 then [3, 0x50] else [4, 0])"

lemma packed_head: "packed st = Some (p, q) \<Longrightarrow> length (MTI_Code st) \<ge> 2 \<Longrightarrow> take 2 p = take 2 (MTI_Code st)"
  by (auto simp: packed_def packFunc_def bind_eq_Some_conv)

lemma exchange_head: "packed (exchange [x, y] bits st) = Some (p, q) \<Longrightarrow> take 2 p = [x, y]"
  using packed_head [of "exchange [x, y] bits st" p q] by (simp add: exchange_def)

lemma packet_head:
  assumes "Comm_Pack flag g st = Some (p, q)"
  shows "take 2 p = mti_of flag"
proof -
  obtain bits where "packed (exchange (mti_of flag) bits st) = Some (p, q)"
    using assms unfolding Comm_Pack_def Comm_Ack_def Comm_Rev_def Comm_Logon_def Comm_Inquiry_def Comm_Payment_def
      Exchange_ACK_def Exchange_REV_def Exchange_LOGON_def Exchange_INQUIRY_def Exchange_PAYMENT_def mti_of_def
    by (simp split: if_splits)
  moreover have "\<exists>x y. mti_of flag = [x, y]" by (simp add: mti_of_def)
  ultimately show ?thesis using exchange_head by metis
qed

lemma framed_mti:
  assumes "framed p = Some d"
  shows "mti d = take 2 p"
proof -
  have l: "length p < 10000" using assms by (auto simp: framed_def split: if_splits)
  from len_bcd_LLL [OF this] obtain x y where "len_bcd (length p) = Some [x, y, 0]" by blast
  with l obtain k where "hex_to_byte (pad0 4 (dec_digits (length p)) @ [0]) 4 0 = Some ([x, y, 0], k)"
    by (auto simp: len_bcd_def)
  with assms show ?thesis by (auto simp: framed_def mti_def split: if_splits)
qed

lemma own_packet_mti: "own_packet flag s evs \<Longrightarrow> \<exists>d. evs = [Sent d] \<and> mti d = mti_of flag"
  unfolding own_packet_def using packet_head framed_mti by metis

lemma txn_tries_kept: "txn_tries w n q s = Some (x, s') \<Longrightarrow> kept s s'"
proof (induction w n q s arbitrary: x s' rule: txn_tries.induct)
  case (1 w n seq s)
  obtain o1 q1 d1 where e: "setEposTxn (odb w) 2 (tg s) (cp s) seq (base s) = ((o1, q1), d1)" by (metis prod.exhaust)
  have k: "kept s (s\<lparr>base := d1\<rparr>)" by (simp add: kept_def)
  show ?case
  proof (cases o1)
    case Exc
    with 1(2) e show ?thesis by simp
  next
    case (Done y)
    with 1(2) e k show ?thesis by auto
  next
    case (Code c)
    show ?thesis
    proof (cases n)
      case 0
      with 1(2) e Code k show ?thesis by auto
    next
      case (Suc m)
      with 1(2) e Code have "txn_tries w m q1 (s\<lparr>base := d1\<rparr>) = Some (x, s')" by simp
      from 1(1) [OF e [symmetric] refl Code Suc this] k show ?thesis by (auto intro: kept_trans)
    qed
  qed
qed

text \<open>What an exchange does: at most one packet of its kind, one after which it can have succeeded, and
  lines of the monitoring log; the terminal's data stay.\<close>

definition exchanged :: "bytes \<Rightarrow> bool \<Rightarrow> 'e trade \<Rightarrow> 'e trade \<Rightarrow> bool" where
  "exchanged m sure s s' \<longleftrightarrow> (\<exists>sent mons. trace s' = trace s @ sent @ mons
     \<and> (sent = [] \<and> \<not> sure \<or> (\<exists>d. sent = [Sent d] \<and> mti d = m)) \<and> logged mons)"

lemma exchanged_monitor:
  assumes "trace s1 = trace s \<or> grew [Sent d] s s1" "sure \<Longrightarrow> grew [Sent d] s s1" "mti d = m"
  shows "exchanged m sure s (emit (Monitor a b c) s1)" "exchanged m sure s s1"
proof -
  obtain sent where s: "trace s1 = trace s @ sent" "sent = [] \<and> \<not> sure \<or> sent = [Sent d]"
    using assms(1,2) by (cases "trace s1 = trace s") (auto simp: grew_def)
  show "exchanged m sure s (emit (Monitor a b c) s1)"
    unfolding exchanged_def using s assms(3)
    by (intro exI [of _ sent] exI [of _ "[Monitor a b c]"]) (auto simp: emit_def logged_def)
  show "exchanged m sure s s1"
    unfolding exchanged_def using s assms(3) by (intro exI [of _ sent] exI [of _ "[]"]) (auto simp: logged_def)
qed

lemma exchanged_trace: "exchanged m sure s s1 \<Longrightarrow> trace s2 = trace s1 \<Longrightarrow> trace s0 = trace s \<Longrightarrow> exchanged m sure s0 s2"
  by (simp add: exchanged_def)

lemma zh_packHdl_spec:
  assumes "zh_packHdl w flag s = Some (r, s')"
  shows "exchanged (mti_of flag) (r = 0 \<and> select_marks w) s s'" "tg s' = tg s"
proof -
  obtain p q d where c: "Comm_Pack flag (gbl.truncate (tg s)) (cp s) = Some (p, q)" "framed p = Some d"
    using assms by (auto simp: zh_packHdl_def bind_eq_Some_conv)
  have m: "mti d = mti_of flag" using packet_head [OF c(1)] framed_mti [OF c(2)] by simp
  let ?s = "s\<lparr>cp := q\<rparr>"
  obtain sq s1 s2 where st: "(if flag = 2 then txn_tries w 3 [] ?s else Some ([], ?s)) = Some (sq, s1)"
    "(if flag = 2 then map_option snd (db_time w s1) else Some s1) = Some s2"
    and rest: "(case HostSendRecvData w d 0 s2 of ((iRet, buf), s3) \<Rightarrow>
       if iRet \<noteq> 0 then Some (2, emit (Monitor (zh_type flag) 2 iRet) s3)
       else do {
         (ok, q) \<leftarrow> unpackFunc buf 0 (cp s3);
         let s4 = s3\<lparr>cp := q\<rparr>;
         if ok \<noteq> 1 then Some (3, s4)
         else do {
           s5 \<leftarrow> (if sq \<noteq> [] \<and> flag = 2 then map_option snd (put_txn w 22 sq s4) else Some s4);
           Some (0, if zh_type flag > 0 then emit (Monitor (zh_type flag) (answer_stat q) (rsp q)) s5 else s5) } }) = Some (r, s')"
    using assms c by (auto simp: zh_packHdl_def bind_eq_Some_conv)
  have "kept ?s s1" using st(1) by (auto split: if_splits dest: txn_tries_kept simp del: txn_tries.simps)
  moreover have "kept s1 s2" using st(2) by (auto split: if_splits dest!: db_time_kept)
  ultimately have k: "trace s2 = trace s" "tg s2 = tg s" by (simp_all add: kept_def)
  obtain iRet buf s3 where h: "HostSendRecvData w d 0 s2 = ((iRet, buf), s3)" by (metis prod.exhaust)
  note hs = HostSendRecvData_grew [OF h]
  have g3: "trace s3 = trace s2 \<or> grew [Sent d] s2 s3" "tg s3 = tg s" using hs(1) k by (auto simp: kept_def)
  have sure: "select_marks w \<and> iRet = 0 \<Longrightarrow> grew [Sent d] s2 s3" using hs(2) by simp
  have "exchanged (mti_of flag) (r = 0 \<and> select_marks w) s2 s' \<and> tg s' = tg s"
  proof (cases "iRet = 0")
    case False
    with rest h have "r = 2" "s' = emit (Monitor (zh_type flag) 2 iRet) s3" by auto
    then show ?thesis using exchanged_monitor(1) [of s3 s2 d, OF g3(1) _ m] g3(2) by simp
  next
    case True
    then obtain ok q2 where u: "unpackFunc buf 0 (cp s3) = Some (ok, q2)"
      using rest h by (auto simp: bind_eq_Some_conv)
    let ?s4 = "s3\<lparr>cp := q2\<rparr>"
    have g4: "trace ?s4 = trace s2 \<or> grew [Sent d] s2 ?s4" "select_marks w \<Longrightarrow> grew [Sent d] s2 ?s4"
      using g3 sure True by (auto simp: grew_def)
    show ?thesis
    proof (cases "ok = 1")
      case False
      with rest h True u have "r = 3" "s' = ?s4" by auto
      then show ?thesis using exchanged_monitor(2) [OF g4(1) _ m] g3(2) by simp
    next
      case ok: True
      then obtain s5 where s5: "(if sq \<noteq> [] \<and> flag = 2 then map_option snd (put_txn w 22 sq ?s4) else Some ?s4) = Some s5"
        "r = 0" "s' = (if zh_type flag > 0 then emit (Monitor (zh_type flag) (answer_stat q2) (rsp q2)) s5 else s5)"
        using rest h True u by (auto simp: bind_eq_Some_conv Let_def)
      have k5: "kept ?s4 s5" using s5(1) by (auto split: if_splits dest!: put_txn_kept)
      then have g5: "trace s5 = trace s2 \<or> grew [Sent d] s2 s5" "select_marks w \<Longrightarrow> grew [Sent d] s2 s5" "tg s5 = tg s"
        using g4 g3(2) by (auto simp: kept_def grew_def)
      show ?thesis using exchanged_monitor [OF g5(1) _ m] g5 s5(2,3) by auto
    qed
  qed
  then show "exchanged (mti_of flag) (r = 0 \<and> select_marks w) s s'" "tg s' = tg s"
    using exchanged_trace k(1) by (auto simp: exchanged_def)
qed

lemma saga_logged: "logged mons \<Longrightarrow> saga_run p mons = Some p"
  by (auto simp: logged_def)

text \<open>An exchange in the protocol.\<close>

lemma exchanged_leads:
  assumes "exchanged m sure s s'" "\<And>d. mti d = m \<Longrightarrow> saga_step p (Sent d) = Some q"
  shows "leads p s p s' \<and> \<not> sure \<or> leads p s q s'"
proof -
  obtain sent mons where e: "trace s' = trace s @ sent @ mons" "logged mons"
    "sent = [] \<and> \<not> sure \<or> (\<exists>d. sent = [Sent d] \<and> mti d = m)" using assms(1) by (auto simp: exchanged_def)
  have g: "grew (sent @ mons) s s'" using e(1) by (simp add: grew_def)
  from e(3) show ?thesis
  proof
    assume "sent = [] \<and> \<not> sure"
    with g saga_logged [OF e(2)] show ?thesis by (auto simp: leads_def intro: exI [of _ mons])
  next
    assume "\<exists>d. sent = [Sent d] \<and> mti d = m"
    then obtain d where d: "sent = [Sent d]" "mti d = m" by blast
    then have "saga_run p (sent @ mons) = Some q"
      using assms(2) [OF d(2)] saga_logged [OF e(2)] by (simp add: saga_run_append del: saga_step.simps)
    with g show ?thesis by (auto simp: leads_def)
  qed
qed

lemma pay_leads:
  assumes "zh_packHdl w 2 s = Some (r, s')" "select_marks w"
  shows "\<exists>c. leads (Paying b) s (Paying c) s' \<and> (b \<longrightarrow> c) \<and> (r = 0 \<longrightarrow> c)"
  using exchanged_leads [OF zh_packHdl_spec(1) [OF assms(1)], of "Paying b" "Paying True"] assms(2)
  by (auto simp: mti_of_def)

lemma logon_leads:
  assumes "logonHdl w s = Some (r, n, s')"
  shows "leads (Paying b) s (Paying b) s'"
proof -
  let ?s = "s\<lparr>tg := (tg s)\<lparr>pos_serial := asc ''999999'' @ [0]\<rparr>\<rparr>"
  obtain p where p: "wrField 3 (clock w (outside (base s))) (gbl.truncate (tg ?s)) (cp ?s) = Some p"
    using assms unfolding logonHdl_def Let_def bind_eq_Some_conv by blast
  obtain q s2 where h: "packHdl w 3 (?s\<lparr>cp := p\<rparr>) = Some (q, s2)"
    using assms unfolding logonHdl_def Let_def p Option.bind.bind_lunit bind_eq_Some_conv by (elim exE conjE) (metis prod.exhaust)
  have "(if q = -1 then Some (-1, None, s2) else if q = -2 then Some (-2, None, s2)
     else do { n \<leftarrow> copy_at 8 8 (FIELD (cp s2) 63); Some (0, Some n, s2) }) = Some (r, n, s')"
    using assms unfolding logonHdl_def Let_def p Option.bind.bind_lunit h prod.case .
  then have "s' = s2" by (auto simp: bind_eq_Some_conv split: if_splits)
  with h have "packHdl w 3 (?s\<lparr>cp := p\<rparr>) = Some (q, s')" by simp
  from packHdl_spec [OF this] obtain sent mons page where "trace s' = trace (?s\<lparr>cp := p\<rparr>) @ sent @ mons @ page"
    "page = [] \<or> page_query 3 s' page" and so: "sent = [] \<or> own_packet 3 (?s\<lparr>cp := p\<rparr>) sent" "logged mons" by blast
  then have e: "trace s' = trace s @ sent @ mons" "sent = [] \<or> own_packet 3 (?s\<lparr>cp := p\<rparr>) sent" "logged mons"
    by (auto simp: page_query_def)
  have "mti_of 3 = [8, 0]" by (simp add: mti_of_def)
  with own_packet_mti [of 3 "?s\<lparr>cp := p\<rparr>" sent] e(2) have "sent = [] \<or> (\<exists>d. sent = [Sent d] \<and> mti d = [8, 0])" by metis
  with e have "exchanged [8, 0] False s s'" unfolding exchanged_def by blast
  from exchanged_leads [OF this, of "Paying b" "Paying b"] show ?thesis by auto
qed

lemma returnFail_leads:
  assumes "returnFail w code s = Some s'"
  shows "leads (Paying b) s (Paying b) s'"
proof -
  obtain s1 where s1: "leads (Paying b) s (Paying b) s1" "s' = snd (call (ask w 8) s1)"
  proof (cases "sint (atoi32 (take 2 code @ [0])) = 87 \<and> \<not> eny (tg s)")
    case True
    then obtain r n t where l: "logonHdl w (s\<lparr>cp := CPack\<rparr>) = Some (r, n, t)"
      "s' = snd (call (ask w 8) (t\<lparr>cp := cp s, tg := tg s\<rparr>))"
      using assms by (auto simp: returnFail_def bind_eq_Some_conv)
    have "leads (Paying b) s (Paying b) (t\<lparr>cp := cp s, tg := tg s\<rparr>)"
      using leads_trace [OF logon_leads [OF l(1)], of s] by simp
    with l(2) show ?thesis by (rule that [rotated])
  next
    case False
    with assms have "s' = snd (call (ask w 8) s)" by (simp add: returnFail_def)
    then show ?thesis using that leads_same [OF refl] by blast
  qed
  then show ?thesis using leads_trans [OF s1(1) kept_leads [OF snd_call_kept]] by simp
qed

text \<open>The dialogues leave the trace alone.\<close>

lemma call_trace: "call f s = (x, s') \<Longrightarrow> trace s' = trace s"
  using call_kept [of f s x s'] by (simp add: kept_def)

lemma mng_loop_trace: "mng_loop w ty c p fs n s = (r, s') \<Longrightarrow> trace s' = trace s"
proof (induction w ty c p fs n s arbitrary: r s' rule: mng_loop.induct)
  case (1 w type card_flag pay_flag first s)
  then show ?case by simp
next
  case (2 w type card_flag pay_flag first n s)
  show ?case
  proof (cases "if first then Some (card_flag, pay_flag) else again pay_flag")
    case None
    with 2(2) show ?thesis by simp
  next
    case (Some cp)
    obtain c p where cp: "cp = (c, p)" by (cases cp)
    obtain q g s1 where m: "call (mngCard w type c p (tg s)) s = ((q, g), s1)" by (metis prod.exhaust)
    note t = call_trace [OF m]
    show ?thesis
    proof (cases "q \<noteq> CANCLE_KEY \<and> q = RE_MNG_CARD")
      case True
      with 2(2) Some cp m have "mng_loop w type card_flag pay_flag False n (s1\<lparr>tg := g\<rparr>) = (r, s')"
        by (simp add: Let_def)
      from 2(1) [OF Some cp [symmetric] m [symmetric] refl refl _ _ this] True t show ?thesis by simp
    next
      case False
      with 2(2) Some cp m t show ?thesis by (auto simp: Let_def split: if_splits)
    qed
  qed
qed

lemma reGetPwd_trace: "reGetPwd w ty s = (r, s') \<Longrightarrow> trace s' = trace s"
  by (auto simp: reGetPwd_def Let_def split: prod.splits if_splits dest!: call_trace)

lemma confirmed_trace: "confirmed w n s = (ok, s') \<Longrightarrow> trace s' = trace s"
  by (auto simp: confirmed_def split: prod.splits dest!: call_trace)

section \<open>The steps of a charge\<close>

lemma pay_loop_leads:
  assumes "select_marks w"
  shows "pay_loop w cno n fl s = Some (r, s') \<Longrightarrow> \<exists>c. leads (Paying b) s (Paying c) s' \<and> (r = 0 \<longrightarrow> c)"
proof (induction n arbitrary: fl s b)
  case 0
  then show ?case using leads_same [of s' s "Paying b"] by auto
next
  case (Suc n)
  obtain c s1 where m: "(if fl then (0, s) else mngCard_Hdl w yct_text s) = (c, s1)" by (metis prod.exhaust)
  have t1: "trace s1 = trace s" using m by (auto simp: mngCard_Hdl_def split: if_splits dest: mng_loop_trace)
  show ?case
  proof (cases "c = 0")
    case False
    with Suc.prems m have "r = 1" "s' = s1\<lparr>tg := tg s\<rparr>" by auto
    then show ?thesis using leads_same [of s' s "Paying b"] t1 by auto
  next
    case True
    then obtain p q s2 where p: "zh_packHdl w 2 (s1\<lparr>cp := p\<rparr>) = Some (q, s2)"
      and rest: "(if q \<noteq> 0 then Some (q, s2)
         else if rsp_is (cp s2) ''00'' then Some (0, s2\<lparr>tg := (tg s2)\<lparr>stan_no := take 12 (FIELD (cp s2) 37) @ [0]\<rparr>\<rparr>)
         else if rsp_is (cp s2) ''55''
         then (case reGetPwd w zh_text s2 of (q, s3) \<Rightarrow> if q = 0 then pay_loop w cno n True s3 else Some (CANCLE_KEY, s3))
         else if list_ex (rsp_is (cp s2)) wrong_card
         then (case call (ask w 9) s2 of ((q, k), s3) \<Rightarrow> if k \<noteq> 0 then Some (-1, s3) else pay_loop w cno n fl s3)
         else do { s3 \<leftarrow> returnFail w (FIELD (cp s2) 39) s2; Some (-1, s3) }) = Some (r, s')"
      using Suc.prems m unfolding pay_loop.simps m by (auto simp: bind_eq_Some_conv)
    obtain d where d: "leads (Paying b) (s1\<lparr>cp := p\<rparr>) (Paying d) s2" "q = 0 \<longrightarrow> d" using pay_leads [OF p assms] by blast
    then have l2: "leads (Paying b) s (Paying d) s2" using leads_trace t1 by fastforce
    have go: "\<exists>c. leads (Paying b) s (Paying c) s' \<and> (r = 0 \<longrightarrow> c)"
      if "pay_loop w cno n fl' s3 = Some (r, s')" "trace s3 = trace s2" for fl' s3
      using Suc.IH [OF that(1), of d] leads_trans [OF l2] leads_trace [OF _ that(2) [symmetric] refl] by metis
    have stay: "\<exists>c. leads (Paying b) s (Paying c) s' \<and> (r = 0 \<longrightarrow> c)" if "trace s' = trace s2" "r = 0 \<longrightarrow> q = 0"
      using leads_trace [OF l2 refl that(1)] d(2) that(2) by blast
    show ?thesis
    proof (cases "q = 0")
      case False
      with rest stay show ?thesis by auto
    next
      case q: True
      consider (ok) "rsp_is (cp s2) ''00''" | (pwd) "\<not> rsp_is (cp s2) ''00''" "rsp_is (cp s2) ''55''"
        | (bad) "\<not> rsp_is (cp s2) ''00''" "\<not> rsp_is (cp s2) ''55''" "list_ex (rsp_is (cp s2)) wrong_card"
        | (no) "\<not> rsp_is (cp s2) ''00''" "\<not> rsp_is (cp s2) ''55''" "\<not> list_ex (rsp_is (cp s2)) wrong_card" by blast
      then show ?thesis
      proof cases
        case ok
        with rest q have "s' = s2\<lparr>tg := (tg s2)\<lparr>stan_no := take 12 (FIELD (cp s2) 37) @ [0]\<rparr>\<rparr>" by simp
        with q stay show ?thesis by simp
      next
        case pwd
        obtain k s3 where g: "reGetPwd w zh_text s2 = (k, s3)" by (metis prod.exhaust)
        with rest q pwd have "if k = 0 then pay_loop w cno n True s3 = Some (r, s') else r = CANCLE_KEY \<and> s' = s3"
          by (simp split: if_splits)
        with go reGetPwd_trace [OF g] stay q show ?thesis by (auto split: if_splits)
      next
        case bad
        obtain x k s3 where g: "call (ask w 9) s2 = ((x, k), s3)" by (metis prod.exhaust)
        with rest q bad have "if k \<noteq> 0 then r = -1 \<and> s' = s3 else pay_loop w cno n fl s3 = Some (r, s')"
          by (simp split: if_splits)
        with go call_trace [OF g] stay q show ?thesis by (auto split: if_splits)
      next
        case no
        with rest q have "returnFail w (FIELD (cp s2) 39) s2 = Some s'" "r = -1" by (auto simp: bind_eq_Some_conv)
        with leads_trans [OF l2 returnFail_leads] show ?thesis by fastforce
      qed
    qed
  qed
qed

text \<open>Confirmations and reversals: at most as many as there are rounds.\<close>

lemma ack_loop_leads: "ack_loop w cno ser bal dev n s = Some (r, s') \<Longrightarrow> n \<le> k \<Longrightarrow> \<exists>j. leads (Acking k) s (Acking j) s'"
proof (induction n arbitrary: s k)
  case 0
  then show ?case using leads_same [of s' s "Acking k"] by auto
next
  case (Suc n)
  then obtain m where k: "k = Suc m" "n \<le> m" by (cases k) auto
  obtain p q s1 where p: "zh_packHdl w 4 (s\<lparr>cp := p\<rparr>) = Some (q, s1)"
    and rest: "s' = s1 \<or> ack_loop w cno ser bal dev n s1 = Some (r, s')"
    using Suc.prems(1) by (auto simp: bind_eq_Some_conv split: if_splits)
  have "leads (Acking k) (s\<lparr>cp := p\<rparr>) (Acking k) s1 \<or> leads (Acking k) (s\<lparr>cp := p\<rparr>) (Acking m) s1"
    using exchanged_leads [OF zh_packHdl_spec(1) [OF p], of "Acking k" "Acking m"] k(1) by (auto simp: mti_of_def)
  then obtain i where i: "leads (Acking k) s (Acking i) s1" "n \<le> i"
    using leads_trace [of "Acking k" "s\<lparr>cp := p\<rparr>" _ s1 s s1] k by (metis (no_types) le_SucI trade.select_convs(2) trade.surjective trade.update_convs(3))
  with rest Suc.IH [OF _ i(2)] show ?case using leads_trans by blast
qed

lemma rev_loop_leads: "rev_loop w cno n s = Some (r, s') \<Longrightarrow> n \<le> k \<Longrightarrow> \<exists>j. leads (Reversing k) s (Reversing j) s'"
proof (induction n arbitrary: s k)
  case 0
  then show ?case using leads_same [of s' s "Reversing k"] by auto
next
  case (Suc n)
  then obtain m where k: "k = Suc m" "n \<le> m" by (cases k) auto
  obtain p q s1 where p: "zh_packHdl w 5 (s\<lparr>cp := p\<rparr>) = Some (q, s1)"
    and rest: "s' = s1 \<or> rev_loop w cno n s1 = Some (r, s')"
    using Suc.prems(1) by (auto simp: bind_eq_Some_conv split: if_splits)
  have "leads (Reversing k) (s\<lparr>cp := p\<rparr>) (Reversing k) s1 \<or> leads (Reversing k) (s\<lparr>cp := p\<rparr>) (Reversing m) s1"
    using exchanged_leads [OF zh_packHdl_spec(1) [OF p], of "Reversing k" "Reversing m"] k(1) by (auto simp: mti_of_def)
  then obtain i where i: "leads (Reversing k) s (Reversing i) s1" "n \<le> i"
    using leads_trace [of "Reversing k" "s\<lparr>cp := p\<rparr>" _ s1 s s1] k by (metis (no_types) le_SucI trade.select_convs(2) trade.surjective trade.update_convs(3))
  with rest Suc.IH [OF _ i(2)] show ?case using leads_trans by blast
qed

lemma snd_call_trace: "trace (snd (call f s)) = trace s"
  using snd_call_kept [of s f] by (simp add: kept_def)

lemma zh_begin_trace: "zh_begin b s = Some (t, s') \<Longrightarrow> trace s' = trace s"
  by (auto simp: zh_begin_def Let_def snd_call_trace split: prod.splits if_splits dest!: call_trace confirmed_trace)

lemma zh_finish_leads:
  assumes "zh_finish b s = Some (r, s')"
  shows "\<exists>q. leads (Paying True) s q s' \<and> (r = 0 \<longrightarrow> (\<exists>n. q = Acking n))"
proof -
  let ?w = "tw b" and ?a = "sint (atoi32 (amount (tg s)))"
  obtain c bal no asn dev s1 where t: "call (zh_topup b ?a) s = ((c, bal, no, asn, dev), s1)" by (metis prod.exhaust)
  have e: "leads (Paying True) s (if ok then Acking 3 else Reversing 3) (emit (TopUp ?a ok) s1)" for ok
    using leads_trans [OF kept_leads [OF call_kept [OF t]] leads_emit, of "Paying True" "TopUp ?a ok"] by simp
  show ?thesis
  proof (cases "c = 0")
    case False
    let ?s = "snd (call (ask ?w 16) (emit (TopUp ?a False) s1))"
    from False assms t obtain q where r: "RevTrade ?w (replicate 10 0) ?s = Some (q, s')" "r = -1"
      by (auto simp: zh_finish_def Let_def bind_eq_Some_conv simp del: rev_loop.simps)
    obtain j where j: "leads (Reversing 3) (?s\<lparr>cp := CPack\<rparr>) (Reversing j) s'"
      using rev_loop_leads [of ?w "replicate 10 0" 3 "?s\<lparr>cp := CPack\<rparr>" q s' 3] r(1) by (auto simp: RevTrade_def)
    have "leads (Paying True) s (Reversing 3) (?s\<lparr>cp := CPack\<rparr>)"
      using leads_trans [OF e [of False] kept_leads [OF snd_call_kept]] by (simp add: leads_def grew_def)
    from leads_trans [OF this j] r(2) show ?thesis by auto
  next
    case True
    let ?s = "emit (TopUp ?a True) s1"
    obtain x where x: "card_text asn = Some x"
      using True assms t by (auto simp: zh_finish_def Let_def bind_eq_Some_conv)
    obtain ok s2 where o: "confirmed ?w 17 ?s = (ok, s2)" by (metis prod.exhaust)
    have l2: "leads (Paying True) s (Acking 3) s2"
      using leads_trans [OF e [of True] leads_same [OF confirmed_trace [OF o]]] by simp
    show ?thesis
    proof (cases ok)
      case False
      with True assms t x o have "r = -1" "s' = s2" by (auto simp: zh_finish_def Let_def)
      with l2 show ?thesis by auto
    next
      case okT: True
      with True assms t x o obtain q sr bl where a: "AckTrade ?w x sr bl dev s2 = Some (q, s')"
        by (auto simp: zh_finish_def Let_def bind_eq_Some_conv)
      obtain j where j: "leads (Acking 3) (s2\<lparr>cp := CPack\<rparr>) (Acking j) s'"
        using ack_loop_leads [of ?w x sr bl dev 3 "s2\<lparr>cp := CPack\<rparr>" q s' 3] a by (auto simp: AckTrade_def)
      have "leads (Paying True) s (Acking 3) (s2\<lparr>cp := CPack\<rparr>)" using l2 by (simp add: leads_def grew_def)
      from leads_trans [OF this j] show ?thesis by auto
    qed
  qed
qed

section \<open>The properties\<close>

definition topups :: "event list \<Rightarrow> nat" where
  "topups evs = length (filter (\<lambda>e. case e of TopUp a ok \<Rightarrow> True | _ \<Rightarrow> False) evs)"

lemma saga_topups: "saga_run p evs = Some q \<Longrightarrow> topups evs \<le> (case p of Paying b \<Rightarrow> 1 | _ \<Rightarrow> 0)"
proof (induction evs arbitrary: p)
  case Nil
  then show ?case by (simp add: topups_def)
next
  case (Cons e es)
  then obtain p1 where st: "saga_step p e = Some p1" "saga_run p1 es = Some q" by (auto simp: bind_eq_Some_conv)
  have "topups (e # es) = (case e of TopUp a ok \<Rightarrow> 1 | _ \<Rightarrow> 0) + topups es"
    by (simp add: topups_def split: event.split)
  moreover have "(case e of TopUp a ok \<Rightarrow> 1 | _ \<Rightarrow> 0) + (case p1 of Paying b \<Rightarrow> 1 | _ \<Rightarrow> 0) \<le> (case p of Paying b \<Rightarrow> 1 | _ \<Rightarrow> (0 :: nat))"
    using st(1) by (cases "(p, e)" rule: saga_step.cases) (auto split: if_splits)
  ultimately show ?case using Cons.IH [OF st(2)] by linarith
qed

lemma charge_leads:
  assumes "ZHTrafficCardCharge b s = Some (r, s')" "select_marks (tw b)"
  shows "\<exists>q. leads (Paying False) s q s' \<and> (r = 0 \<longrightarrow> (\<forall>n. q \<noteq> Reversing n))"
proof -
  let ?s = "s\<lparr>tg := (tg s)\<lparr>fee_type := asc ''0358'' @ [0]\<rparr>\<rparr>"
  have stop: ?thesis if "trace s' = trace s"
    using leads_same [OF that, of "Paying False"] by auto
  obtain t s1 where t: "zh_begin b ?s = Some (t, s1)"
    using assms(1) unfolding ZHTrafficCardCharge_def Let_def bind_eq_Some_conv by (elim exE conjE) (metis prod.exhaust)
  have t1: "trace s1 = trace s" using zh_begin_trace [OF t] by simp
  note u = assms(1) [unfolded ZHTrafficCardCharge_def Let_def t Option.bind.bind_lunit prod.case]
  show ?thesis
  proof (cases t)
    case None
    with u t1 stop show ?thesis by auto
  next
    case (Some cno)
    obtain ok s2 where o: "confirmed (tw b) 14 s1 = (ok, s2)" by (metis prod.exhaust)
    obtain m i s3 where m: "call (zh_menu b) s2 = ((m, i), s3)" by (metis prod.exhaust)
    let ?g = "case menu_amount i of None \<Rightarrow> tg s3 | Some a \<Rightarrow> (tg s3)\<lparr>amount := a\<rparr>"
    obtain ok2 s4 where o2: "confirmed (tw b) 15 (s3\<lparr>tg := ?g\<rparr>) = (ok2, s4)" by (metis prod.exhaust)
    have tr: "trace s2 = trace s" "trace s3 = trace s" "trace s4 = trace s"
      using confirmed_trace [OF o] call_trace [OF m] confirmed_trace [OF o2] t1 by simp_all
    show ?thesis
    proof (cases "ok \<and> m = 0 \<and> ok2")
      case False
      with u Some o m o2 tr stop show ?thesis by (auto split: if_splits)
    next
      case True
      with u Some o m o2 obtain c s5 where p: "PayPe (tw b) cno s4 = Some (c, s5)"
        "if c = 0 then zh_finish b s5 = Some (r, s') else r = 0 \<and> s' = s5"
        by (auto simp: bind_eq_Some_conv split: if_splits)
      obtain d where d: "leads (Paying False) (s4\<lparr>cp := CPack\<rparr>) (Paying d) s5" "c = 0 \<longrightarrow> d"
        using pay_loop_leads [OF assms(2), of cno 50 False "s4\<lparr>cp := CPack\<rparr>" c s5 False] p(1) by (auto simp: PayPe_def)
      have l: "leads (Paying False) s (Paying d) s5" using leads_trace [OF d(1), of s s5] tr(3) by simp
      show ?thesis
      proof (cases "c = 0")
        case True
        with p(2) have "zh_finish b s5 = Some (r, s')" by simp
        from zh_finish_leads [OF this] obtain q where q: "leads (Paying True) s5 q s'" "r = 0 \<longrightarrow> (\<exists>n. q = Acking n)" by blast
        from True d(2) l have "leads (Paying False) s (Paying True) s5" by simp
        from leads_trans [OF this q(1)] q(2) show ?thesis by auto
      next
        case False
        with p(2) l show ?thesis by auto
      qed
    qed
  qed
qed

text \<open>C1: everything that leaves the program while a bus card is charged follows the protocol: payments (and a logon) first; the customer's card is changed at most once, and only after a payment was sent; after a failed change only reversals follow and after a successful one only confirmations, at most three; and a charge that returns 0 has not ended in reversals. The only assumption is that select marks a socket it reports.\<close>

theorem charge_protocol:
  assumes "ZHTrafficCardCharge b s = Some (r, s')" "select_marks (tw b)"
  shows "\<exists>evs q. trace s' = trace s @ evs \<and> saga_run (Paying False) evs = Some q \<and> topups evs \<le> 1
    \<and> (r = 0 \<longrightarrow> (\<forall>n. q \<noteq> Reversing n))"
proof -
  obtain evs q where e: "grew evs s s'" "saga_run (Paying False) evs = Some q" "r = 0 \<longrightarrow> (\<forall>n. q \<noteq> Reversing n)"
    using charge_leads [OF assms] by (auto simp: leads_def)
  with saga_topups [OF e(2)] show ?thesis by (auto simp: grew_def)
qed

text \<open>The card the reversal names: in a charge the buffer of its number is still empty then.\<close>

lemma text_field_at:
  assumes "text_field i d st = Some p"
  shows "take (length d) (FIELD p i) = d"
  using assms by (auto simp: text_field_def put_def poke_def set_len_def bind_eq_Some_conv split: if_splits)

lemma rev_names:
  assumes "rev_fields dt g (replicate 10 0) st = Some p"
  shows "take 9 (drop 12 (FIELD p 48)) = replicate 9 0"
proof -
  obtain n s1 where n: "length n = 6" "text_field 48 (asc ''0358'' @ n @ asc ''09'' @ replicate 9 0) s1 = Some p"
    using assms by (auto simp: rev_fields_def bind_eq_Some_conv copy_at_def split: if_splits intro: that [of "take 6 (pos_serial g)"])
  let ?d = "asc ''0358'' @ n @ asc ''09'' @ replicate 9 0"
  have "take 9 (drop 12 (take 21 (FIELD p 48))) = take 9 (drop 12 ?d)"
    using text_field_at [OF n(2)] n(1) by (simp add: asc_def)
  also have "\<dots> = replicate 9 0" using n(1) by (simp add: asc_def)
  finally show ?thesis by (simp add: take_drop min_def)
qed

text \<open>A terminal at which the customer gives up when asked for a card to pay with.\<close>

definition bus_stop :: "bytes list bus_world" where
  "bus_stop = \<lparr>tw = (shop [])\<lparr>mngCard := \<lambda>t c p g e. ((CANCLE_KEY, g), e)\<rparr>, zh_login = \<lambda>e. (0, e), zh_sign = \<lambda>e. (0, e),
     zh_query = \<lambda>e. ((0, 12345), e), zh_menu = \<lambda>e. ((0, 2), e), zh_topup = \<lambda>a e. ((0, 0, 0, 0, []), e)\<rparr>"

lemma bus_stop_sel:
  "ask (tw bus_stop) n = (\<lambda>e. ((0, 0), e))" "mngCard (tw bus_stop) t c p g = (\<lambda>e. ((CANCLE_KEY, g), e))"
  "zh_login bus_stop = (\<lambda>e. (0, e))" "zh_sign bus_stop = (\<lambda>e. (0, e))" "zh_query bus_stop = (\<lambda>e. ((0, 12345), e))"
  "zh_menu bus_stop = (\<lambda>e. ((0, 2), e))" "sel_write (tw bus_stop) k = (\<lambda>e. ((1, True), e))"
  by (simp_all add: bus_stop_def shop_def)

lemma bus_stop_pay: "PayPe (tw bus_stop) cno s = Some (1, s\<lparr>cp := CPack\<rparr>)"
proof -
  have g: "s\<lparr>tg := tg s\<rparr> = s" for s :: "bytes list trade" by simp
  have m: "mngCard_Hdl (tw bus_stop) ty s = (CANCLE_KEY, s)" for ty s
    using mng_loop.simps(2) [of "tw bus_stop" ty 0 "get_card (tg s)" True 49 s]
    by (simp add: mngCard_Hdl_def MAXTRY_def bus_stop_sel call_still g)
  have "pay_loop (tw bus_stop) cno (Suc 49) False (s\<lparr>cp := CPack\<rparr>) = Some (1, s\<lparr>cp := CPack\<rparr>)"
    unfolding pay_loop.simps m by (simp add: CANCLE_KEY_def)
  then show ?thesis by (simp add: PayPe_def)
qed

lemma bus_stop_run: "\<exists>t. ZHTrafficCardCharge bus_stop s = Some (0, t)"
proof -
  have c: "confirmed (tw bus_stop) n s = (True, s)" for n s by (simp add: confirmed_def bus_stop_sel call_still)
  have "length (dec_digits 12345) \<le> 5" by (rule dec_digits_length) simp_all
  then have "length (padded 9 12345) < 10" by (simp add: padded_def pad0_def)
  then obtain x where x: "card_text 12345 = Some x" by (simp add: card_text_def)
  have z: "zh_begin bus_stop s = Some (Some x, s)" for s
    by (simp add: zh_begin_def Let_def c bus_stop_sel call_still x)
  show ?thesis
    unfolding ZHTrafficCardCharge_def Let_def z Option.bind.bind_lunit prod.case option.case c bus_stop_sel call_still bus_stop_pay
    by simp
qed

theorem charge_protocol_witness:
  "\<exists>s' evs q. ZHTrafficCardCharge bus_stop sale = Some (0, s') \<and> trace s' = trace sale @ evs
    \<and> saga_run (Paying False) evs = Some q \<and> topups evs \<le> 1 \<and> (\<forall>n. q \<noteq> Reversing n)"
proof -
  obtain s' where r: "ZHTrafficCardCharge bus_stop sale = Some (0, s')" using bus_stop_run by blast
  have "select_marks (tw bus_stop)" by (simp add: select_marks_def bus_stop_sel)
  from charge_protocol [OF r this] r show ?thesis by blast
qed

end
