(* ===== verification/Spec2Isabelle.thy ===== *)
theory Spec2Isabelle
  imports Prelude Tools ToolsText Cipher Des Base64 TriDes SsmDes MyDes MyCrypto Pack PackProofs Queue QueueThreads Box BoxProofs
    Kiosk Doors DoorProofs Sensors SensorProofs KioskText Deposit PackageDb TransQueue
    ConnPool Db Tables DbProofs DbUpdates Host TradePack TradeProofs BusCharge BusProofs
begin

text \<open>
  The repository holds two programs in C++. \<open>src/CTSI\<close> is the server behind payment terminals: a thread per
  session runs the trades of one terminal, which builds packets in a dialect of ISO 8583, exchanges them with
  the payment host, keeps records in a database over a pool of connections, and protects passwords and
  packets with DES. \<open>src/ssmapp\<close> (the directory's name goes on in Chinese) is the program of a parcel locker:
  it opens boxes, reads sensors, keeps the parcels in a local database and reports to its host. This library
  models the parts that carry their logic and proves what the rest of the code relies on.

  \<^bold>\<open>Conventions.\<close> A \<open>char\<close> or \<open>BYTE\<close> is an \<open>8 word\<close>, a buffer a list of them, a C string is read up to its
  first NUL (\<open>cstr\<close>). An \<open>int\<close> that can overflow is a \<open>32 word\<close> or is wrapped explicitly, otherwise it is an
  \<open>int\<close>. \<open>None\<close> is an access outside a buffer, undefined behaviour or an exception; error codes are values.
  A loop that need not end is a \<open>partial_function (option)\<close> and its ending is a theorem. Code outside the
  repository (database, sockets, the terminal library \<open>TS_\<close>, the locker board, clock and \<open>rand\<close>) is a record of
  functions on an unspecified state \<open>'e\<close>: \<open>world\<close> (kiosk), \<open>odb\<close> (database of CTSI), \<open>term_world\<close> and
  \<open>bus_world\<close> (terminal and host). What a theorem needs of them is a named hypothesis with a witness.
  Logging and the texts shown are left out; a message is a number.

  \<^bold>\<open>Shared.\<close> \<open>Prelude\<close>: bytes, buffers, decimal digits. \<open>Tools\<close> and \<open>ToolsText\<close>: the helpers of
  \<open>CTSI/Tools.cpp\<close> (hexadecimal and BCD conversions, the CRC, amounts, text helpers), with the CRC equal to a
  bit-serial register, the amount in capital characters read back, and \<open>CSreplace\<close> equal to a reference
  substitution; \<open>CTools::replace\<close> equals it when the new text shares no character with the pattern, and does
  not return when it contains the pattern; what it does in between is left open.

  \<^bold>\<open>Ciphers.\<close> \<open>Cipher\<close> is the locale of a block cipher, interpreted on every implementation. \<open>Des\<close>:
  \<open>CTSI/Des.cpp\<close>, DES on hexadecimal text, triple DES, MAC, passwords. \<open>TriDes\<close>: \<open>CTSI/3DES.cpp\<close> on bytes.
  \<open>SsmDes\<close>: \<open>ssmapp/Des.cpp\<close>. \<open>MyDes\<close>, \<open>MyCrypto\<close>: \<open>CTSI/MyDes.cpp\<close>, \<open>CTSI/MyCrypto.cpp\<close>. \<open>Base64\<close>:
  \<open>CTSI/base64.cpp\<close>. Shown: the tables are permutations, decryption undoes encryption for every
  construction, the three DES agree, the codes of one program are those of the other, \<open>MyCrypto\<close> returns
  its text for all keys and random numbers, and both base 64 encoders are undone by the decoder.

  \<^bold>\<open>Packets.\<close> \<open>Pack\<close>: \<open>CTSI/Pack.cpp\<close>, the field table, bitmaps, the five kinds of request, writing the fields,
  \<open>packFunc\<close> and \<open>unpackFunc\<close>. \<open>PackProofs\<close>: the round trip; for any buffer when \<open>unpackFunc\<close> leaves it or follows
  a NULL pointer (it does not test the length of the answer, so the buffer of 1025 bytes of its callers can be
  left) and what it stores otherwise; the fields of each request.

  \<^bold>\<open>Database of CTSI.\<close> \<open>ConnPool\<close>: the pool of connections (\<open>getConnStat\<close> of \<open>DB.cpp\<close>, the end of a session,
  the watchdog and the update of the parameters of \<open>TissonCTSIDLG.cpp\<close>) as interleaved steps: no two threads use
  one connection while no use lasts longer than an hour, no clean-up or watchdog meets a connection that is just
  being taken and no update meets one that is taken or held; without these conditions two do. The number of
  connections, which an update can change, is fixed. \<open>Db\<close>, \<open>Tables\<close>: the operations of
  \<open>DB.cpp\<close> the trades below use and the eighteen tables loaded at the start, as one thread sees them; a
  statement is its text. A connection is asked for five times, each time over the whole pool. \<open>DbProofs\<close>: the
  locale \<open>pooled\<close> (an operation that returns has given its connection back), interpreted on every operation
  but the PIN query, which does not keep it; an operation that ends with an exception keeps its connection
  too, and what a loader then leaves in its table is not described. \<open>DbUpdates\<close>: the forty-seven routines of \<open>DB.cpp\<close> that write one
  statement, with the sizes of their buffers; all keep the contract, and what each has done follows from its
  result.

  \<^bold>\<open>Trades.\<close> \<open>Host\<close>: \<open>CTSI/Connect.cpp\<close> and what \<open>CTrade\<close> does with cards and passwords (50 tries, as in the
  source). \<open>TradePack\<close>: \<open>CTrade::packHdl\<close>, one exchange from the limit of the day to the serial number of the
  answer. \<open>BusCharge\<close>: \<open>ZHBusTrade.cpp\<close>, charging a bus card. The trace of a state holds what left the program.
  \<open>TradeProofs\<close>: at most one packet to the host of the trades per exchange, the one built for it, and behind it,
  after an accepted payment of a newer terminal with such a bank, at most the question of
  \<open>CDB::pep_isSonCard\<close> to the host of the cards; success only with a matching serial
  number; no payment past the limit of the day unless the sum leaves 32 bits. \<open>BusProofs\<close>: a charge refines an
  abstract protocol (pay, change the customer's card once, then confirm or reverse at most three times).

  \<^bold>\<open>Locker.\<close> \<open>Queue\<close>, \<open>QueueThreads\<close>: \<open>ssmapp/Queue.cpp\<close>, a linked list on a heap, as a first in, first out queue
  (a refinement of a locale's contract), and under any interleaving of producers with the one consumer the
  program has. \<open>Box\<close>, \<open>BoxProofs\<close>: \<open>ssmapp/Box.h\<close>, the table of boxes, its invariant, the status of a box,
  the choice of a box for a delivery, logical and physical numbers. \<open>Kiosk\<close>: the state of \<open>CTranProDlg\<close>
  (\<open>TranProDlg.cpp\<close>), the package table and the exchange with the host. \<open>Doors\<close>, \<open>DoorProofs\<close>: opening by number
  and by kind; the retries end, after exactly four tries of each box. \<open>Sensors\<close>, \<open>SensorProofs\<close>: sensors and
  package table joined, so that no box with a parcel is offered. \<open>KioskText\<close>: lists of boxes and names as texts.
  \<open>Deposit\<close>, \<open>PackageDb\<close>: pick-up passwords, storing and moving rows, under laws of the database (\<open>db_laws\<close>): a
  query, an insertion or a deletion may fail, the commit, the rollback and the change of the commit mode are
  assumed to work. \<open>TransQueue\<close>: the queue of requests to repeat, sorted by serial number as its query asks, under
  \<open>queue_laws\<close> (queries, deletions and updates may fail).

  \<^bold>\<open>How the parts rest on each other.\<close> The trades build packets with \<open>Pack\<close> and keep records through \<open>Db\<close>,
  which takes connections from the pool of \<open>ConnPool\<close>; \<open>alone\<close>, the hypothesis of \<open>DbProofs\<close> that nobody else
  uses the pool meanwhile, is what \<open>ConnPool\<close> is about. The locker's doors use the table of \<open>Box\<close>, its password
  the DES of \<open>SsmDes\<close>. The two programs share no code, only the two DES proved equal.

  \<^bold>\<open>Not modelled.\<close> The other businesses of \<open>Trade.cpp\<close>, \<open>YCTYPTrade.cpp\<close>, \<open>DGTBusTrade.cpp\<close>, \<open>DGBusTrade.cpp\<close> and
  \<open>YCT3*.cpp\<close>, menus (\<open>MenuHdl.cpp\<close>) and receipts (\<open>Print.cpp\<close>): dialogues around the exchange modelled here.
  Most queries of \<open>DB.cpp\<close>, and its changes in several statements, which follow the pattern of those in \<open>Db\<close>. Reading a card and a password at the
  terminal (\<open>mngCard\<close>, \<open>getCardPwd\<close>), the text of the head page (\<open>getHeadPage\<close>, field \<open>head_page\<close>), and of the
  locker the texts of requests (\<open>GZYZPack\<close>), the reading of answers (\<open>Unpack\<close>, over an XML library) and what is kept
  of them (\<open>SaveResponse\<close>), which are parameters. Windows, logging, configuration, certificates, the
  copied MD5 and AES, the vendored XML, SOAP and MySQL code, the device drivers of the locker, and the stand-alone
  examples in \<open>src/map\<close> and \<open>src/shared_ptr\<close>. Allocation failure, time in the model of threads, and the memory
  order of unlocked reads are not modelled either: a step of a thread is atomic.
\<close>

end
